(* ===== verification/Prelude.thy ===== *)
theory Prelude
  imports Main "HOL-Library.State_Monad" "HOL-Library.Word"
begin

text \<open>
  Shared vocabulary of the development: the errors Python raises in the modelled code, Python
  list indexing and string helpers, loops over the state monad of the library, and the generic
  lemmas on lists and maps the components use.

  Four collections of facts carry the component proofs:
  \<^item> \<open>run_simps\<close>: how a monadic program runs on a world, one equation per operation;
  \<^item> \<open>guar_intros\<close>: how a guarantee on atomic steps is composed along a program;
  \<^item> \<open>wp_intros\<close>: what an undisturbed operation establishes, to be applied backwards;
  \<^item> \<open>schema_simps\<close>: small equations on the enumerations and on rows.
\<close>

named_theorems run_simps
named_theorems guar_intros
named_theorems wp_intros
named_theorems schema_simps

section \<open>Python values\<close>

text \<open>Exceptions of the language and its standard library that the modelled code raises.\<close>

datatype py_error =
    ValueError string
  | KeyError
  | IndexError
  | TypeError
  | AttributeError

text \<open>\<open>xs[i]\<close>: a negative index counts from the end, anything else out of range raises.\<close>

definition py_index :: "'a list \<Rightarrow> int \<Rightarrow> py_error + 'a" where
  "py_index xs i =
     (let n = int (length xs); k = (if i < 0 then n + i else i)
      in if 0 \<le> k \<and> k < n then Inr (xs ! nat k) else Inl IndexError)"

lemma py_index_in_range:
  "0 \<le> i \<Longrightarrow> i < int (length xs) \<Longrightarrow> py_index xs i = Inr (xs ! nat i)"
  by (simp add: py_index_def Let_def)

lemma py_index_Nil [simp]: "py_index [] i = Inl IndexError"
  by (simp add: py_index_def Let_def)

text \<open>\<open>d[k]\<close> and \<open>d.get(k)\<close> on a dictionary kept as an association list in insertion order.\<close>

abbreviation dict_get :: "('k \<times> 'v) list \<Rightarrow> 'k \<Rightarrow> 'v option" where
  "dict_get \<equiv> map_of"

definition dict_item :: "('k \<times> 'v) list \<Rightarrow> 'k \<Rightarrow> py_error + 'v" where
  "dict_item d k = (case map_of d k of None \<Rightarrow> Inl KeyError | Some v \<Rightarrow> Inr v)"

text \<open>\<open>d[k] = v\<close>: an existing key keeps its position, a new key goes to the end.\<close>

fun dict_set :: "('k \<times> 'v) list \<Rightarrow> 'k \<Rightarrow> 'v \<Rightarrow> ('k \<times> 'v) list" where
  "dict_set [] k v = [(k, v)]"
| "dict_set ((k', v') # d) k v =
     (if k' = k then (k, v) # d else (k', v') # dict_set d k v)"

text \<open>\<open>d.pop(k, None)\<close> and \<open>del d[k]\<close> on a present key.\<close>

definition dict_del :: "('k \<times> 'v) list \<Rightarrow> 'k \<Rightarrow> ('k \<times> 'v) list" where
  "dict_del d k = filter (\<lambda>p. fst p \<noteq> k) d"

lemma map_of_dict_set [simp]: "map_of (dict_set d k v) = (map_of d)(k \<mapsto> v)"
  by (induction d k v rule: dict_set.induct) auto

lemma map_of_dict_del [simp]: "map_of (dict_del d k) = (map_of d)(k := None)"
  by (induction d) (auto simp: dict_del_def fun_eq_iff)

lemma keys_dict_set [simp]:
  "fst ` set (dict_set d k v) = insert k (fst ` set d)"
  by (induction d k v rule: dict_set.induct) auto

lemma distinct_dict_set [simp]:
  "distinct (map fst d) \<Longrightarrow> distinct (map fst (dict_set d k v))"
proof (induction d k v rule: dict_set.induct)
  case (2 k' v' d k v)
  then show ?case
    by auto
qed simp

lemma distinct_dict_del [simp]:
  "distinct (map fst d) \<Longrightarrow> distinct (map fst (dict_del d k))"
  by (simp add: dict_del_def distinct_map_filter)

lemma keys_dict_del [simp]: "fst ` set (dict_del d k) = fst ` set d - {k}"
  by (auto simp: dict_del_def)

lemma length_dict_set:
  "length (dict_set d k v) = (if k \<in> fst ` set d then length d else Suc (length d))"
  by (induction d k v rule: dict_set.induct) auto

section \<open>Programs over a state\<close>

abbreviation return :: "'a \<Rightarrow> ('s, 'a) state" where
  "return \<equiv> State_Monad.return"

text \<open>A \<open>for\<close> loop whose body acts on the state only.\<close>

fun foreach :: "'a list \<Rightarrow> ('a \<Rightarrow> ('s, unit) state) \<Rightarrow> ('s, unit) state" where
  "foreach [] body = return ()"
| "foreach (x # xs) body = do { body x; foreach xs body }"

text \<open>A \<open>for\<close> loop with an accumulator.\<close>

fun forfold :: "'a list \<Rightarrow> 'b \<Rightarrow> ('a \<Rightarrow> 'b \<Rightarrow> ('s, 'b) state) \<Rightarrow> ('s, 'b) state" where
  "forfold [] acc body = return acc"
| "forfold (x # xs) acc body = do { acc' \<leftarrow> body x acc; forfold xs acc' body }"

declare run_state_return [run_simps] run_state_bind [run_simps]

section \<open>Maps and lists\<close>

lemma card_singleton_if: "card {i. i = a \<and> P} = (if P then 1 else 0)"
  by (cases P) auto

lemma distinct_singleton: "distinct xs \<Longrightarrow> set xs = {x} \<Longrightarrow> xs = [x]"
  by (cases xs) (auto dest: subset_singletonD)

lemma ball_set_append [simp]:
  "(\<forall>x \<in> set (xs @ ys). P x) \<longleftrightarrow> (\<forall>x \<in> set xs. P x) \<and> (\<forall>x \<in> set ys. P x)"
  by auto

lemma map_of_map_key_eq:
  "distinct (map f xs) \<Longrightarrow>
     map_of (map (\<lambda>x. (f x, x)) xs) k = Some x \<longleftrightarrow> x \<in> set xs \<and> f x = k"
  by (induction xs) (auto simp: image_iff)

lemma map_of_map_key_dom: "dom (map_of (map (\<lambda>x. (f x, x)) xs)) = f ` set xs"
  by (force simp: dom_map_of_conv_image_fst)

end
