(* ===== verification/Uuid.thy ===== *)
theory Uuid
  imports Prelude
begin

text \<open>
  Identifiers: \<open>uuid.UUID\<close> of Python's standard library as a 128-bit word. \<open>uuid_str\<close> is
  \<open>str(u)\<close>, \<open>parse_uuid\<close> is the constructor \<open>UUID(s)\<close> on a string, with the prefixes, braces
  and hyphens it ignores and the rules of \<open>int(s, 16)\<close>. The queue carries job identifiers as
  strings, so the pipeline depends on the round trip.
\<close>

type_synonym uuid = "128 word"

section \<open>Printing\<close>

definition hex_digit :: "nat \<Rightarrow> char" where
  "hex_digit n = ''0123456789abcdef'' ! n"

text \<open>\<open>'%032x' % self.int\<close>, most significant digit first.\<close>

fun hex_digits :: "nat \<Rightarrow> nat \<Rightarrow> string" where
  "hex_digits 0 n = []"
| "hex_digits (Suc k) n = hex_digits k (n div 16) @ [hex_digit (n mod 16)]"

definition uuid_hex :: "uuid \<Rightarrow> string" where
  "uuid_hex u = hex_digits 32 (unat u)"

definition hyphenate :: "string \<Rightarrow> string" where
  "hyphenate h = take 8 h @ ''-'' @ take 4 (drop 8 h) @ ''-'' @ take 4 (drop 12 h) @ ''-''
     @ take 4 (drop 16 h) @ ''-'' @ drop 20 h"

definition uuid_str :: "uuid \<Rightarrow> string" where
  "uuid_str u = hyphenate (uuid_hex u)"

section \<open>Parsing\<close>

definition hex_value :: "char \<Rightarrow> nat option" where
  "hex_value c = (let n = of_char c :: nat in
     if 48 \<le> n \<and> n \<le> 57 then Some (n - 48)
     else if 97 \<le> n \<and> n \<le> 102 then Some (n - 87)
     else if 65 \<le> n \<and> n \<le> 70 then Some (n - 55)
     else None)"

text \<open>\<open>s.replace(p, '')\<close>: non-overlapping occurrences, from the left.\<close>

fun remove_all :: "string \<Rightarrow> string \<Rightarrow> string" where
  "remove_all p [] = []"
| "remove_all p (c # cs) =
     (if p \<noteq> [] \<and> take (length p) (c # cs) = p
      then remove_all p (drop (length p - 1) cs) else c # remove_all p cs)"

definition strip_chars :: "(char \<Rightarrow> bool) \<Rightarrow> string \<Rightarrow> string" where
  "strip_chars p s = rev (dropWhile p (rev (dropWhile p s)))"

definition is_space :: "char \<Rightarrow> bool" where
  "is_space c = (let n = of_char c :: nat in n = 32 \<or> (9 \<le> n \<and> n \<le> 13) \<or> (28 \<le> n \<and> n \<le> 31))"

text \<open>
  The digits of \<open>int(s, 16)\<close>: at least one digit, single underscores between digits only.
  The flag says that the previous character was a digit.
\<close>

fun int16_digits :: "bool \<Rightarrow> nat \<Rightarrow> string \<Rightarrow> nat option" where
  "int16_digits after_digit acc [] = (if after_digit then Some acc else None)"
| "int16_digits after_digit acc (c # cs) =
     (if c = CHR ''_'' then (if after_digit then int16_digits False acc cs else None)
      else (case hex_value c of
              None \<Rightarrow> None
            | Some d \<Rightarrow> int16_digits True (16 * acc + d) cs))"

text \<open>\<open>0x\<close> is skipped, and one underscore after it.\<close>

definition drop_0x :: "string \<Rightarrow> string" where
  "drop_0x s = (if take 2 s = ''0x'' \<or> take 2 s = ''0X''
     then (if take 1 (drop 2 s) = ''_'' then drop 3 s else drop 2 s) else s)"

definition py_int16 :: "string \<Rightarrow> int option" where
  "py_int16 s = (case strip_chars is_space s of
       [] \<Rightarrow> None
     | c # cs \<Rightarrow>
         if c = CHR ''-'' then map_option (\<lambda>n. - int n) (int16_digits False 0 (drop_0x cs))
         else if c = CHR ''+'' then map_option int (int16_digits False 0 (drop_0x cs))
         else map_option int (int16_digits False 0 (drop_0x (c # cs))))"

text \<open>
  \<open>UUID(hex)\<close>: drop \<open>urn:\<close> and \<open>uuid:\<close>, strip braces, drop hyphens; 32 characters must
  remain, and they must denote an integer in \<open>[0, 2^128)\<close>.
\<close>

definition parse_uuid :: "string \<Rightarrow> py_error + uuid" where
  "parse_uuid s =
     (let h = remove_all ''-'' (strip_chars (\<lambda>c. c = CHR ''{'' \<or> c = CHR ''}'')
                (remove_all ''uuid:'' (remove_all ''urn:'' s)))
      in if length h \<noteq> 32 then Inl (ValueError ''badly formed hexadecimal UUID string'')
         else case py_int16 h of
                None \<Rightarrow> Inl (ValueError ''invalid literal for int() with base 16'')
              | Some n \<Rightarrow> if 0 \<le> n \<and> n < 2 ^ 128 then Inr (word_of_int n)
                          else Inl (ValueError ''int is out of range (need a 128-bit value)''))"

section \<open>Round trip\<close>

definition is_hex_char :: "char \<Rightarrow> bool" where
  "is_hex_char c \<longleftrightarrow> c \<in> set ''0123456789abcdef''"

lemma hex_digit_table:
  "\<forall>n \<in> set [0..<16]. hex_value (hex_digit n) = Some n \<and> is_hex_char (hex_digit n)"
proof -
  have "[0..<16] = [0, 1, 2, 3, 4, 5, 6, 7, 8, 9, 10, 11, 12, 13, 14, 15]"
    by (simp add: upt_rec)
  then show ?thesis
    by (simp add: hex_value_def hex_digit_def is_hex_char_def)
qed

lemma hex_value_digit [simp]: "n < 16 \<Longrightarrow> hex_value (hex_digit n) = Some n"
  using hex_digit_table by simp

lemma hex_digit_is_hex [simp]: "n < 16 \<Longrightarrow> is_hex_char (hex_digit n)"
  using hex_digit_table by simp

lemma is_hex_charD:
  assumes "is_hex_char c"
  shows "c \<noteq> CHR ''_'' \<and> c \<noteq> CHR ''-'' \<and> c \<noteq> CHR ''+'' \<and> c \<noteq> CHR '':''
    \<and> c \<noteq> CHR ''{'' \<and> c \<noteq> CHR ''}'' \<and> c \<noteq> CHR ''x'' \<and> c \<noteq> CHR ''X'' \<and> c \<noteq> CHR ''u''
    \<and> \<not> is_space c"
  using assms by (auto simp: is_hex_char_def is_space_def Let_def)

lemma length_hex_digits [simp]: "length (hex_digits k n) = k"
  by (induction k arbitrary: n) auto

lemma hex_digits_is_hex: "c \<in> set (hex_digits k n) \<Longrightarrow> is_hex_char c"
  by (induction k arbitrary: n) auto

lemma int16_digits_append:
  "\<forall>c \<in> set xs. is_hex_char c \<Longrightarrow> int16_digits b acc xs = Some m \<Longrightarrow> b \<or> xs \<noteq> [] \<Longrightarrow>
     int16_digits b acc (xs @ ys) = int16_digits True m ys"
proof (induction xs arbitrary: b acc)
  case (Cons c cs)
  then show ?case
    by (auto dest: is_hex_charD split: option.splits if_splits)
qed (auto split: if_splits)

lemma int16_digits_hex:
  "k > 0 \<or> b \<Longrightarrow> int16_digits b acc (hex_digits k n) = Some (acc * 16 ^ k + n mod 16 ^ k)"
proof (induction k arbitrary: n acc b)
  case (Suc k)
  have split: "n mod 16 ^ Suc k = 16 * (n div 16 mod 16 ^ k) + n mod 16"
    by (simp add: mod_mult2_eq)
  have digit: "hex_digit (n mod 16) \<noteq> CHR ''_''"
    using is_hex_charD [OF hex_digit_is_hex] by simp
  show ?case
  proof (cases "k = 0")
    case True
    then show ?thesis using digit by (simp add: algebra_simps)
  next
    case False
    then have "int16_digits b acc (hex_digits k (n div 16))
        = Some (acc * 16 ^ k + n div 16 mod 16 ^ k)"
      using Suc.IH by simp
    moreover have "hex_digits k (n div 16) \<noteq> []"
      using False by (metis length_0_conv length_hex_digits)
    ultimately have "int16_digits b acc (hex_digits (Suc k) n)
        = int16_digits True (acc * 16 ^ k + n div 16 mod 16 ^ k) [hex_digit (n mod 16)]"
      by (simp add: int16_digits_append hex_digits_is_hex)
    then show ?thesis using digit by (simp only: split) (simp add: algebra_simps del: hex_digits.simps)
  qed
qed simp

lemma remove_all_single: "remove_all [a] s = filter (\<lambda>c. c \<noteq> a) s"
  by (induction s) auto

lemma remove_all_absent:
  "a \<in> set p \<Longrightarrow> a \<notin> set s \<Longrightarrow> remove_all p s = s"
proof (induction s)
  case (Cons c cs)
  have "take (length p) (c # cs) \<noteq> p"
    using Cons.prems by (metis in_set_takeD)
  with Cons show ?case by simp
qed simp

lemma strip_chars_none: "\<forall>c \<in> set s. \<not> p c \<Longrightarrow> strip_chars p s = s"
proof -
  have drop: "dropWhile p t = t" if "\<forall>c \<in> set t. \<not> p c" for t
    using that by (cases t) auto
  assume "\<forall>c \<in> set s. \<not> p c"
  then show ?thesis by (simp add: strip_chars_def drop)
qed

definition hex_or_hyphen :: "string \<Rightarrow> bool" where
  "hex_or_hyphen s \<longleftrightarrow> (\<forall>c \<in> set s. is_hex_char c \<or> c = CHR ''-'')"

lemma hex_or_hyphenD:
  "hex_or_hyphen s \<Longrightarrow> CHR '':'' \<notin> set s \<and> CHR ''{'' \<notin> set s \<and> CHR ''}'' \<notin> set s"
  by (auto simp: hex_or_hyphen_def dest: is_hex_charD)

lemma parse_strip_noop:
  assumes "hex_or_hyphen s"
  shows "remove_all ''-'' (strip_chars (\<lambda>c. c = CHR ''{'' \<or> c = CHR ''}'')
           (remove_all ''uuid:'' (remove_all ''urn:'' s))) = filter (\<lambda>c. c \<noteq> CHR ''-'') s"
proof -
  have "remove_all ''urn:'' s = s" "remove_all ''uuid:'' s = s"
    using remove_all_absent [of "CHR '':''"] hex_or_hyphenD [OF assms] by auto
  moreover have "strip_chars (\<lambda>c. c = CHR ''{'' \<or> c = CHR ''}'') s = s"
    using hex_or_hyphenD [OF assms] by (intro strip_chars_none) auto
  ultimately show ?thesis by (simp add: remove_all_single)
qed

lemma take_drop_step: "take n (drop m h) @ drop (m + n) h = drop m h"
  by (metis add.commute append_take_drop_id drop_drop)

lemma hyphenate_filter:
  assumes "\<forall>c \<in> set h. c \<noteq> CHR ''-''"
  shows "filter (\<lambda>c. c \<noteq> CHR ''-'') (hyphenate h) = h"
proof -
  have keep: "filter (\<lambda>c. c \<noteq> CHR ''-'') t = t" if "set t \<subseteq> set h" for t
    using that assms by (auto simp: filter_id_conv)
  have "filter (\<lambda>c. c \<noteq> CHR ''-'') (hyphenate h)
      = take 8 h @ take 4 (drop 8 h) @ take 4 (drop 12 h) @ take 4 (drop 16 h) @ drop 20 h"
    by (simp add: hyphenate_def keep set_take_subset set_drop_subset
        subset_trans [OF set_take_subset set_drop_subset])
  also have "\<dots> = h"
    using take_drop_step [of 4 8 h] take_drop_step [of 4 12 h] take_drop_step [of 4 16 h]
    by simp
  finally show ?thesis .
qed

lemma py_int16_hex:
  assumes "\<forall>c \<in> set h. is_hex_char c" and "h \<noteq> []"
  shows "py_int16 h = map_option int (int16_digits False 0 h)"
proof -
  obtain c cs where h: "h = c # cs" using assms(2) by (cases h) auto
  have "take 2 h \<noteq> ''0x'' \<and> take 2 h \<noteq> ''0X''"
    using assms(1) is_hex_charD by (cases cs) (auto simp: h)
  moreover have "strip_chars is_space h = h"
    using assms(1) is_hex_charD by (intro strip_chars_none) auto
  moreover have "c \<noteq> CHR ''-''" "c \<noteq> CHR ''+''"
    using assms(1) is_hex_charD by (auto simp: h)
  moreover from calculation have "drop_0x h = h" by (simp add: drop_0x_def)
  ultimately show ?thesis
    by (simp add: py_int16_def h del: int16_digits.simps)
qed

lemma uuid_hex_chars: "c \<in> set (uuid_hex u) \<Longrightarrow> is_hex_char c"
  by (auto simp: uuid_hex_def hex_digits_is_hex)

lemma hex_or_hyphen_uuid_str: "hex_or_hyphen (uuid_str u)"
  using uuid_hex_chars [of _ u]
  by (auto simp: hex_or_hyphen_def uuid_str_def hyphenate_def dest!: in_set_takeD in_set_dropD)

lemma parse_uuid_str: "parse_uuid (uuid_str u) = Inr u"
proof -
  have hex: "\<forall>c \<in> set (uuid_hex u). is_hex_char c"
    by (auto simp: uuid_hex_chars)
  then have nohyphen: "\<forall>c \<in> set (uuid_hex u). c \<noteq> CHR ''-''"
    by (auto dest: is_hex_charD)
  have len: "length (uuid_hex u) = 32" by (simp add: uuid_hex_def)
  have "int16_digits False 0 (uuid_hex u) = Some (unat u mod 16 ^ 32)"
    unfolding uuid_hex_def by (simp add: int16_digits_hex del: hex_digits.simps)
  moreover have "unat u < 16 ^ 32" using unsigned_less [of u] by simp
  moreover have "uuid_hex u \<noteq> []" using len by auto
  ultimately have "py_int16 (uuid_hex u) = Some (int (unat u))"
    using py_int16_hex [OF hex] by simp
  moreover have "int (unat u) < 2 ^ 128" using unsigned_less [of u] by simp
  ultimately show ?thesis
    unfolding parse_uuid_def Let_def parse_strip_noop [OF hex_or_hyphen_uuid_str]
    by (simp add: uuid_str_def hyphenate_filter [OF nohyphen] len)
qed

lemma uuid_str_inject [simp]: "uuid_str u = uuid_str v \<longleftrightarrow> u = v"
  by (metis parse_uuid_str sum.inject(2))

lemma inj_uuid_str: "inj uuid_str"
  by (rule injI) simp

end
