(* ===== verification/Job_Model.thy ===== *)
theory Job_Model
  imports Uuid
begin

text \<open>
  The data model: the enumerations of \<open>app/schemas/enums.py\<close>, JSON documents (the JSONB
  columns), and the row of the \<open>jobs\<close> table as \<open>app/models/job.py\<close> declares it.
  Timestamps are integers: microseconds since the epoch, the resolution of \<open>datetime\<close>.
\<close>

section \<open>Enumerations\<close>

datatype JobType = email | webhook | report | batch

datatype JobStatus = scheduled | pending | processing | completed | failed | cancelled

datatype JobPriority = high | normal | low

datatype ReportType = sales | ops | weekly_summary

text \<open>The \<open>value\<close> attribute of each member.\<close>

fun JobType_value :: "JobType \<Rightarrow> string" where
  "JobType_value email = ''email''"
| "JobType_value webhook = ''webhook''"
| "JobType_value report = ''report''"
| "JobType_value batch = ''batch''"

fun JobStatus_value :: "JobStatus \<Rightarrow> string" where
  "JobStatus_value scheduled = ''scheduled''"
| "JobStatus_value pending = ''pending''"
| "JobStatus_value processing = ''processing''"
| "JobStatus_value completed = ''completed''"
| "JobStatus_value failed = ''failed''"
| "JobStatus_value cancelled = ''cancelled''"

fun JobPriority_value :: "JobPriority \<Rightarrow> string" where
  "JobPriority_value high = ''high''"
| "JobPriority_value normal = ''normal''"
| "JobPriority_value low = ''low''"

fun ReportType_value :: "ReportType \<Rightarrow> string" where
  "ReportType_value sales = ''sales''"
| "ReportType_value ops = ''ops''"
| "ReportType_value weekly_summary = ''weekly_summary''"

text \<open>Iterating over an enumeration class yields its members in declaration order.\<close>

definition all_JobType :: "JobType list" where
  "all_JobType = [email, webhook, report, batch]"

definition all_JobStatus :: "JobStatus list" where
  "all_JobStatus = [scheduled, pending, processing, completed, failed, cancelled]"

definition all_JobPriority :: "JobPriority list" where
  "all_JobPriority = [high, normal, low]"

lemma all_JobStatus_complete [simp]: "s \<in> set all_JobStatus"
  by (cases s) (auto simp: all_JobStatus_def)

lemma JobStatus_value_inject [simp]: "JobStatus_value a = JobStatus_value b \<longleftrightarrow> a = b"
  by (cases a; cases b) auto

lemma JobPriority_value_inject [simp]: "JobPriority_value a = JobPriority_value b \<longleftrightarrow> a = b"
  by (cases a; cases b) auto

text \<open>Calling an enumeration class with a value: \<open>JobType(v)\<close> raises on an unknown one.\<close>

definition JobType_of :: "string \<Rightarrow> py_error + JobType" where
  "JobType_of v = (case find (\<lambda>t. JobType_value t = v) all_JobType of
     Some t \<Rightarrow> Inr t | None \<Rightarrow> Inl (ValueError v))"

lemma JobType_of_value [simp]: "JobType_of (JobType_value t) = Inr t"
  by (cases t) (auto simp: JobType_of_def all_JobType_def)

text \<open>The order in which the streams are served: high before normal before low.\<close>

fun priority_rank :: "JobPriority \<Rightarrow> nat" where
  "priority_rank high = 0"
| "priority_rank normal = 1"
| "priority_rank low = 2"

lemma priority_rank_inject [simp]: "priority_rank a = priority_rank b \<longleftrightarrow> a = b"
  by (cases a; cases b) auto

instantiation JobPriority :: linorder
begin

definition less_eq_JobPriority :: "JobPriority \<Rightarrow> JobPriority \<Rightarrow> bool" where
  "less_eq_JobPriority a b \<longleftrightarrow> priority_rank a \<le> priority_rank b"

definition less_JobPriority :: "JobPriority \<Rightarrow> JobPriority \<Rightarrow> bool" where
  "less_JobPriority a b \<longleftrightarrow> priority_rank a < priority_rank b"

instance
  by standard (auto simp: less_eq_JobPriority_def less_JobPriority_def)

end

section \<open>JSON documents\<close>

text \<open>
  A JSON value as Python's parser returns it. Objects keep their keys in order. A floating
  point number is kept as the text of its \<open>repr\<close>: the code only stores it and prints it back.
\<close>

datatype json =
    JNull
  | JBool bool
  | JInt int
  | JFloat string
  | JStr string
  | JList "json list"
  | JDict "(string \<times> json) list"

section \<open>The row of the jobs table\<close>

type_synonym timestamp = int

record job =
  jid :: uuid
  user_id :: "uuid option"
  user_name :: "string option"
  jtype :: JobType
  payload :: json
  status :: JobStatus
  priority :: JobPriority
  result :: "json option"
  error :: "json option"
  attempts :: int
  max_attempts :: int
  created_at :: timestamp
  started_at :: "timestamp option"
  completed_at :: "timestamp option"
  scheduled_at :: "timestamp option"
  is_synced_to_redis :: bool
  progress :: "int option"
  cancel_requested_at :: "timestamp option"
  idempotency_key :: "string option"
  idempotency_hash :: "string option"
  trace_context :: "json option"

text \<open>
  \<open>Job(type=..., payload=..., ...)\<close> as \<open>create_job\<close> calls it: the constructor supplies the
  identifier and the defaults of the columns that are not given. \<open>created_at\<close> is a server
  default; the value here is replaced when the row is inserted.
\<close>

definition new_job ::
  "uuid \<Rightarrow> JobType \<Rightarrow> json \<Rightarrow> JobStatus \<Rightarrow> timestamp option \<Rightarrow> JobPriority \<Rightarrow> int
   \<Rightarrow> string option \<Rightarrow> string option \<Rightarrow> json option \<Rightarrow> uuid option \<Rightarrow> string option \<Rightarrow> job" where
  "new_job i t p st sched prio maxa key hash trace uid uname =
     \<lparr> jid = i, user_id = uid, user_name = uname, jtype = t, payload = p, status = st,
       priority = prio, result = None, error = None, attempts = 0, max_attempts = maxa,
       created_at = 0, started_at = None, completed_at = None, scheduled_at = sched,
       is_synced_to_redis = False, progress = None, cancel_requested_at = None,
       idempotency_key = key, idempotency_hash = hash, trace_context = trace \<rparr>"

text \<open>
  The unique index \<open>uq_jobs_user_idempotency_key\<close>: two rows clash when both carry the same
  non-null key for the same user. SQL null users are pairwise distinct.
\<close>

definition key_clash :: "job \<Rightarrow> job \<Rightarrow> bool" where
  "key_clash a b \<longleftrightarrow> idempotency_key a \<noteq> None \<and> idempotency_key a = idempotency_key b
     \<and> user_id a \<noteq> None \<and> user_id a = user_id b"

lemma key_clash_sym: "key_clash a b \<longleftrightarrow> key_clash b a"
  by (cases "user_id a"; cases "user_id b"; cases "idempotency_key a"; cases "idempotency_key b")
    (auto simp: key_clash_def)

text \<open>Statements of the repository that change columns never touch the keys of a row.\<close>

definition keeps_keys :: "(job \<Rightarrow> job) \<Rightarrow> bool" where
  "keeps_keys f \<longleftrightarrow> (\<forall>j. jid (f j) = jid j \<and> user_id (f j) = user_id j
     \<and> idempotency_key (f j) = idempotency_key j \<and> created_at (f j) = created_at j)"

lemma keeps_keysD:
  assumes "keeps_keys f"
  shows "jid (f j) = jid j" "user_id (f j) = user_id j"
    "idempotency_key (f j) = idempotency_key j" "created_at (f j) = created_at j"
  using assms by (auto simp: keeps_keys_def)

definition terminal :: "JobStatus \<Rightarrow> bool" where
  "terminal s \<longleftrightarrow> s = completed \<or> s = failed \<or> s = cancelled"

definition claimable :: "JobStatus \<Rightarrow> bool" where
  "claimable s \<longleftrightarrow> s = pending \<or> s = scheduled"

lemma terminal_simps [simp]:
  "terminal completed" "terminal failed" "terminal cancelled"
  "\<not> terminal pending" "\<not> terminal scheduled" "\<not> terminal processing"
  by (auto simp: terminal_def)

lemma claimable_simps [simp]:
  "claimable pending" "claimable scheduled" "\<not> claimable processing"
  "\<not> claimable completed" "\<not> claimable failed" "\<not> claimable cancelled"
  by (auto simp: claimable_def)

lemma status_trichotomy: "terminal s \<or> claimable s \<or> s = processing"
  by (cases s) auto

end
