(* ===== verification/Config.thy ===== *)
theory Config
  imports Job_Model
begin

text \<open>
  \<open>Settings\<close> of \<open>app/core/config.py\<close>. A duration the source holds as a number of seconds is kept
  in microseconds (suffix \<open>_us\<close>), the resolution of \<open>timedelta\<close>. Connection strings, ports and
  telemetry endpoints are carried as plain values.
\<close>

record settings =
  database_url :: string
  redis_url :: string
  stream_high :: string
  stream_normal :: string
  stream_low :: string
  consumer_group :: string
  block_ms :: int
  delayed_zset :: string
  ticker_interval_us :: int
  ticker_batch_size :: nat
  reconcile_interval_us :: int
  reconcile_grace_us :: int
  reconcile_batch_size :: nat
  log_level :: string
  job_handler_timeout_us :: int
  visibility_timeout_us :: int
  reaper_interval_us :: int
  reaper_batch_size :: nat
  settings_max_attempts :: int
  retry_backoff_schedule :: "int list"
  cancel_poll_interval_us :: int
  worker_concurrency :: nat
  db_pool_size :: int
  db_disable_prepared_statements :: bool
  worker_max_rss_mb :: "int option"
  auth_cache_ttl_us :: int
  auth_tokenreview_url :: string
  auth_sa_token_file :: string
  auth_ca_file :: string
  auth_required_group :: string
  auth_timeout_us :: int
  otel_enabled :: bool
  otel_exporter_otlp_endpoint :: string
  health_port :: "int option"
  rate_limit_enabled :: bool
  submit_rate_limit_per_min :: int
  control_rate_limit_per_min :: int
  read_rate_limit_per_min :: int
  stats_rate_limit_per_min :: int
  forwarded_allow_ips :: string
  webhook_allowed_hosts :: "string list"
  email_allowed_domains :: "string list"
  max_request_body_bytes :: int

abbreviation second :: int where
  "second \<equiv> 1000000"

text \<open>The declared defaults; the two connection strings have none and must be given.\<close>

definition default_settings :: "string \<Rightarrow> string \<Rightarrow> settings" where
  "default_settings db_url r_url = \<lparr>
     database_url = db_url, redis_url = r_url,
     stream_high = ''jobs:stream:high'', stream_normal = ''jobs:stream:normal'',
     stream_low = ''jobs:stream:low'', consumer_group = ''workers'', block_ms = 5000,
     delayed_zset = ''jobs:delayed'', ticker_interval_us = 1 * second, ticker_batch_size = 100,
     reconcile_interval_us = 60 * second, reconcile_grace_us = 10 * second,
     reconcile_batch_size = 500, log_level = ''INFO'', job_handler_timeout_us = 45 * second,
     visibility_timeout_us = 60 * second, reaper_interval_us = 30 * second,
     reaper_batch_size = 100, settings_max_attempts = 4, retry_backoff_schedule = [0, 30, 120],
     cancel_poll_interval_us = 2 * second, worker_concurrency = 10, db_pool_size = 5,
     db_disable_prepared_statements = False, worker_max_rss_mb = None,
     auth_cache_ttl_us = 60 * second,
     auth_tokenreview_url =
       ''https://kubernetes.default.svc/apis/authentication.k8s.io/v1/tokenreviews'',
     auth_sa_token_file = ''/var/run/secrets/kubernetes.io/serviceaccount/token'',
     auth_ca_file = ''/var/run/secrets/kubernetes.io/serviceaccount/ca.crt'',
     auth_required_group = ''jobprocessor-users'', auth_timeout_us = 2 * second,
     otel_enabled = False, otel_exporter_otlp_endpoint = ''http://localhost:4317'',
     health_port = None, rate_limit_enabled = True, submit_rate_limit_per_min = 20,
     control_rate_limit_per_min = 30, read_rate_limit_per_min = 120,
     stats_rate_limit_per_min = 30, forwarded_allow_ips = ''127.0.0.1'',
     webhook_allowed_hosts = [], email_allowed_domains = [], max_request_body_bytes = 262144 \<rparr>"

text \<open>The model validator: constructing settings that violate it raises.\<close>

definition check_timeout_invariant :: "settings \<Rightarrow> py_error + settings" where
  "check_timeout_invariant cfg =
     (if job_handler_timeout_us cfg \<ge> visibility_timeout_us cfg
      then Inl (ValueError ''job_handler_timeout_s must be < visibility_timeout_s'')
      else Inr cfg)"

definition ordered_streams :: "settings \<Rightarrow> string list" where
  "ordered_streams cfg = [stream_high cfg, stream_normal cfg, stream_low cfg]"

definition priority_streams :: "settings \<Rightarrow> (JobPriority \<times> string) list" where
  "priority_streams cfg =
     [(high, stream_high cfg), (normal, stream_normal cfg), (low, stream_low cfg)]"

text \<open>\<open>dict(self.priority_streams)[priority]\<close>; every priority is a key, so it never raises.\<close>

definition stream_for_priority :: "settings \<Rightarrow> JobPriority \<Rightarrow> string" where
  "stream_for_priority cfg p = the (map_of (priority_streams cfg) p)"

lemma stream_for_priority_simps [simp]:
  "stream_for_priority cfg high = stream_high cfg"
  "stream_for_priority cfg normal = stream_normal cfg"
  "stream_for_priority cfg low = stream_low cfg"
  by (simp_all add: stream_for_priority_def priority_streams_def)

lemma priority_streams_total: "map_of (priority_streams cfg) p = Some (stream_for_priority cfg p)"
  by (cases p) (simp_all add: priority_streams_def)

lemma stream_for_priority_ordered [simp]: "stream_for_priority cfg p \<in> set (ordered_streams cfg)"
  by (cases p) (simp_all add: ordered_streams_def)

lemma ordered_streams_by_priority:
  "ordered_streams cfg = map (stream_for_priority cfg) all_JobPriority"
  by (simp add: ordered_streams_def all_JobPriority_def)

lemma all_JobPriority_sorted: "sorted all_JobPriority \<and> (\<forall>p. p \<in> set all_JobPriority)"
proof
  show "sorted all_JobPriority"
    by (simp add: all_JobPriority_def less_eq_JobPriority_def)
  show "\<forall>p. p \<in> set all_JobPriority"
    by (auto simp: all_JobPriority_def intro: JobPriority.exhaust)
qed

end
