(* ===== verification/Services.thy ===== *)
theory Services
  imports Config "HOL-Library.Product_Lexorder" "HOL-Library.Sublist"
begin

text \<open>
  The two servers the program talks to, PostgreSQL and Redis, and the trace propagator of
  OpenTelemetry. None of them is part of the repository, so each is a parameter: a record of the
  operations the code calls, over a state type of its own. What the code relies on is stated as
  the laws of the locales \<open>postgres\<close>, \<open>redis_server\<close> and \<open>backend\<close>, in terms of what the server
  holds: the rows of the table by identifier, and the undelivered and pending entries of each
  consumer group and the scores of each sorted set.
\<close>

section \<open>PostgreSQL\<close>

text \<open>
  The statements the repository issues. \<open>pg_update g f\<close> is \<open>UPDATE jobs SET f WHERE g\<close> with its row
  count; \<open>pg_insert\<close> answers \<open>False\<close> for an integrity error; \<open>pg_select_ordered g desc n\<close> orders
  by \<open>created_at, id\<close> and limits to \<open>n\<close> rows. Each is one statement in its own transaction, which
  the code commits at once.
\<close>

record 'd postgres_ops =
  pg_insert :: "job \<Rightarrow> 'd \<Rightarrow> bool \<times> 'd"
  pg_update :: "(job \<Rightarrow> bool) \<Rightarrow> (job \<Rightarrow> job) \<Rightarrow> 'd \<Rightarrow> nat \<times> 'd"
  pg_select :: "(job \<Rightarrow> bool) \<Rightarrow> 'd \<Rightarrow> job list"
  pg_select_ordered :: "(job \<Rightarrow> bool) \<Rightarrow> bool \<Rightarrow> nat \<Rightarrow> 'd \<Rightarrow> job list"

type_synonym table = "uuid \<Rightarrow> job option"

definition matching :: "(job \<Rightarrow> bool) \<Rightarrow> table \<Rightarrow> job set" where
  "matching g t = {j \<in> ran t. g j}"

definition update_where :: "(job \<Rightarrow> bool) \<Rightarrow> (job \<Rightarrow> job) \<Rightarrow> table \<Rightarrow> table" where
  "update_where g f t = (\<lambda>i. map_option (\<lambda>j. if g j then f j else j) (t i))"

text \<open>The sort key of the two ordered queries.\<close>

abbreviation row_key :: "job \<Rightarrow> timestamp \<times> uuid" where
  "row_key j \<equiv> (created_at j, jid j)"

locale postgres =
  fixes PG :: "'d postgres_ops"
    and tbl :: "'d \<Rightarrow> table"
  assumes tbl_id: "tbl d i = Some j \<Longrightarrow> jid j = i"
    and tbl_finite: "finite (dom (tbl d))"
    and tbl_unique: "tbl d i = Some a \<Longrightarrow> tbl d k = Some b \<Longrightarrow> key_clash a b \<Longrightarrow> i = k"
    and update_tbl:
      "keeps_keys f \<Longrightarrow> tbl (snd (pg_update PG g f d)) = update_where g f (tbl d)"
    and update_count:
      "keeps_keys f \<Longrightarrow> fst (pg_update PG g f d) = card (matching g (tbl d))"
    and insert_conflict:
      "fst (pg_insert PG j d) \<longleftrightarrow>
         tbl d (jid j) = None \<and> (\<forall>j' \<in> ran (tbl d). \<not> key_clash j j')"
    and insert_tbl:
      "fst (pg_insert PG j d) \<Longrightarrow>
         \<exists>c. tbl (snd (pg_insert PG j d)) = (tbl d)(jid j \<mapsto> j\<lparr>created_at := c\<rparr>)"
    and insert_failed_tbl: "\<not> fst (pg_insert PG j d) \<Longrightarrow> tbl (snd (pg_insert PG j d)) = tbl d"
    and select_set: "set (pg_select PG g d) = matching g (tbl d)"
    and select_distinct: "distinct (pg_select PG g d)"
    and select_ordered:
      "\<exists>ys. set ys = matching g (tbl d) \<and> sorted_wrt (\<lambda>a b. row_key a < row_key b) ys
         \<and> pg_select_ordered PG g desc n d = take n (if desc then rev ys else ys)"
begin

lemma in_ran_tbl: "j \<in> ran (tbl d) \<longleftrightarrow> tbl d (jid j) = Some j"
  by (auto simp: ran_def dest: tbl_id)

lemma matching_tbl: "j \<in> matching g (tbl d) \<longleftrightarrow> tbl d (jid j) = Some j \<and> g j"
  by (simp add: matching_def in_ran_tbl)

text \<open>A statement guarded by the primary key touches at most that row.\<close>

lemma matching_by_id:
  "matching (\<lambda>j. jid j = i \<and> g j) (tbl d) =
     (case tbl d i of Some j \<Rightarrow> if g j then {j} else {} | None \<Rightarrow> {})"
  using tbl_id [of d i] by (auto simp: matching_tbl split: option.splits)

lemma update_count_by_id:
  assumes "keeps_keys f"
  shows "fst (pg_update PG (\<lambda>j. jid j = i \<and> g j) f d) = Suc 0 \<longleftrightarrow>
           (\<exists>j. tbl d i = Some j \<and> g j)"
  by (auto simp: update_count [OF assms] matching_by_id split: option.splits)

lemma update_tbl_by_id:
  assumes "keeps_keys f"
  shows "tbl (snd (pg_update PG (\<lambda>j. jid j = i \<and> g j) f d)) =
           (case tbl d i of
              Some j \<Rightarrow> if g j then (tbl d)(i \<mapsto> f j) else tbl d
            | None \<Rightarrow> tbl d)"
proof (rule ext)
  fix k
  show "tbl (snd (pg_update PG (\<lambda>j. jid j = i \<and> g j) f d)) k =
      (case tbl d i of Some j \<Rightarrow> if g j then (tbl d)(i \<mapsto> f j) else tbl d | None \<Rightarrow> tbl d) k"
    using tbl_id [of d k]
    by (cases "tbl d k") (auto simp: update_tbl [OF assms] update_where_def split: option.splits)
qed

lemma update_tbl_by_pk:
  "keeps_keys f \<Longrightarrow> tbl (snd (pg_update PG (\<lambda>j. jid j = i) f d)) =
     (case tbl d i of Some j \<Rightarrow> (tbl d)(i \<mapsto> f j) | None \<Rightarrow> tbl d)"
  using update_tbl_by_id [of f i "\<lambda>_. True" d] by (cases "tbl d i") simp_all

lemma select_by_id:
  "pg_select PG (\<lambda>j. jid j = i \<and> g j) d =
     (case tbl d i of Some j \<Rightarrow> if g j then [j] else [] | None \<Rightarrow> [])"
proof -
  let ?xs = "pg_select PG (\<lambda>j. jid j = i \<and> g j) d"
  have "set ?xs = matching (\<lambda>j. jid j = i \<and> g j) (tbl d)" by (rule select_set)
  also have "\<dots> = (case tbl d i of Some j \<Rightarrow> if g j then {j} else {} | None \<Rightarrow> {})"
    by (rule matching_by_id)
  finally show ?thesis
    using select_distinct [of "\<lambda>j. jid j = i \<and> g j" d]
    by (auto split: option.splits if_splits dest: distinct_singleton)
qed

lemma select_by_pk:
  "pg_select PG (\<lambda>j. jid j = i) d = (case tbl d i of Some j \<Rightarrow> [j] | None \<Rightarrow> [])"
  using select_by_id [of i "\<lambda>_. True" d] by (cases "tbl d i") simp_all

end

section \<open>Redis\<close>

lemma subseq_of_singleton: "subseq xs [s] \<Longrightarrow> xs = [] \<or> xs = [s]"
  by (cases xs) (auto split: if_splits)

text \<open>
  A stream entry identifier \<open>ms-seq\<close> is the pair of its two numbers; \<open>(0, 0)\<close> is \<open>0-0\<close>, the
  cursor with which \<open>XAUTOCLAIM\<close> starts and ends. Scores are timestamps in microseconds.
\<close>

type_synonym entry_id = "nat \<times> nat"
type_synonym fields = "(string \<times> string) list"
type_synonym message = "entry_id \<times> fields"

record 'r redis_ops =
  xgroup_create :: "string \<Rightarrow> string \<Rightarrow> 'r \<Rightarrow> bool \<times> 'r"
  xadd :: "string \<Rightarrow> fields \<Rightarrow> 'r \<Rightarrow> entry_id \<times> 'r"
  xreadgroup ::
    "string \<Rightarrow> string \<Rightarrow> string list \<Rightarrow> nat \<Rightarrow> int option \<Rightarrow> 'r \<Rightarrow> (string \<times> message list) list \<times> 'r"
  xack :: "string \<Rightarrow> string \<Rightarrow> entry_id \<Rightarrow> 'r \<Rightarrow> nat \<times> 'r"
  xautoclaim ::
    "string \<Rightarrow> string \<Rightarrow> string \<Rightarrow> int \<Rightarrow> entry_id \<Rightarrow> nat \<Rightarrow> 'r \<Rightarrow> (entry_id \<times> message list) \<times> 'r"
  zadd :: "string \<Rightarrow> string \<Rightarrow> timestamp \<Rightarrow> 'r \<Rightarrow> nat \<times> 'r"
  zrem :: "string \<Rightarrow> string list \<Rightarrow> 'r \<Rightarrow> nat \<times> 'r"
  zrangebyscore :: "string \<Rightarrow> timestamp \<Rightarrow> timestamp \<Rightarrow> nat \<Rightarrow> 'r \<Rightarrow> string list"

text \<open>
  What the server holds: per stream and consumer group the entries not yet delivered and the
  pending entries (delivered, not acknowledged), in identifier order; per sorted set the score
  of each member.
\<close>

record group_view =
  undelivered :: "message list"
  pel :: "message list"

record redis_view =
  groups :: "string \<Rightarrow> string \<Rightarrow> group_view option"
  zset :: "string \<Rightarrow> string \<Rightarrow> timestamp option"

definition map_group :: "string \<Rightarrow> string \<Rightarrow> (group_view \<Rightarrow> group_view) \<Rightarrow> redis_view \<Rightarrow> redis_view" where
  "map_group s g f v =
     v\<lparr>groups := (\<lambda>s' g'. if s' = s \<and> g' = g then map_option f (groups v s' g') else groups v s' g')\<rparr>"

text \<open>\<open>XADD\<close>: the entry becomes undelivered in every group of the stream.\<close>

definition add_entry :: "string \<Rightarrow> message \<Rightarrow> redis_view \<Rightarrow> redis_view" where
  "add_entry s m v =
     v\<lparr>groups := (\<lambda>s' g. if s' = s
          then map_option (\<lambda>gv. gv\<lparr>undelivered := undelivered gv @ [m]\<rparr>) (groups v s' g)
          else groups v s' g)\<rparr>"

text \<open>\<open>XREADGROUP ... >\<close>: up to \<open>n\<close> undelivered entries become pending.\<close>

definition deliver :: "string \<Rightarrow> nat \<Rightarrow> string \<Rightarrow> redis_view \<Rightarrow> redis_view" where
  "deliver g n s = map_group s g (\<lambda>gv. gv\<lparr>undelivered := drop n (undelivered gv),
                                          pel := pel gv @ take n (undelivered gv)\<rparr>)"

definition ack_entry :: "string \<Rightarrow> string \<Rightarrow> entry_id \<Rightarrow> redis_view \<Rightarrow> redis_view" where
  "ack_entry s g m = map_group s g (\<lambda>gv. gv\<lparr>pel := filter (\<lambda>e. fst e \<noteq> m) (pel gv)\<rparr>)"

definition open_group :: "string \<Rightarrow> string \<Rightarrow> redis_view \<Rightarrow> redis_view" where
  "open_group s g v = v\<lparr>groups := (groups v)(s := (groups v s)(g := Some \<lparr>undelivered = [], pel = []\<rparr>))\<rparr>"

definition set_score :: "string \<Rightarrow> string \<Rightarrow> timestamp \<Rightarrow> redis_view \<Rightarrow> redis_view" where
  "set_score k m x v = v\<lparr>zset := (zset v)(k := (zset v k)(m \<mapsto> x))\<rparr>"

definition drop_scores :: "string \<Rightarrow> string list \<Rightarrow> redis_view \<Rightarrow> redis_view" where
  "drop_scores k ms v = v\<lparr>zset := (zset v)(k := (\<lambda>m. if m \<in> set ms then None else zset v k m))\<rparr>"

lemmas view_defs = map_group_def add_entry_def deliver_def ack_entry_def open_group_def
  set_score_def drop_scores_def

lemma zset_frame [simp]:
  "zset (map_group s g f v) = zset v" "zset (add_entry s m v) = zset v"
  "zset (deliver g n s v) = zset v" "zset (ack_entry s g i v) = zset v"
  "zset (open_group s g v) = zset v"
  by (simp_all add: view_defs)

lemma groups_frame [simp]:
  "groups (set_score k m x v) = groups v" "groups (drop_scores k ms v) = groups v"
  by (simp_all add: view_defs)

lemma groups_add_entry [simp]:
  "groups (add_entry s m v) s' g = (if s' = s
     then map_option (\<lambda>gv. gv\<lparr>undelivered := undelivered gv @ [m]\<rparr>) (groups v s' g)
     else groups v s' g)"
  by (simp add: add_entry_def)

lemma groups_ack_entry [simp]:
  "groups (ack_entry s g i v) s' g' = (if s' = s \<and> g' = g
     then map_option (\<lambda>gv. gv\<lparr>pel := filter (\<lambda>e. fst e \<noteq> i) (pel gv)\<rparr>) (groups v s' g')
     else groups v s' g')"
  by (simp add: ack_entry_def map_group_def)

lemma groups_deliver [simp]:
  "groups (deliver g n s v) s' g' = (if s' = s \<and> g' = g
     then map_option (\<lambda>gv. gv\<lparr>undelivered := drop n (undelivered gv),
                               pel := pel gv @ take n (undelivered gv)\<rparr>) (groups v s' g')
     else groups v s' g')"
  by (simp add: deliver_def map_group_def)

lemma groups_open_group [simp]:
  "groups (open_group s g v) s' g' =
     (if s' = s \<and> g' = g then Some \<lparr>undelivered = [], pel = []\<rparr> else groups v s' g')"
  by (simp add: open_group_def)

lemma zset_set_score [simp]:
  "zset (set_score k m x v) k' m' = (if k' = k \<and> m' = m then Some x else zset v k' m')"
  by (simp add: set_score_def)

lemma zset_drop_scores [simp]:
  "zset (drop_scores k ms v) k' m' = (if k' = k \<and> m' \<in> set ms then None else zset v k' m')"
  by (simp add: drop_scores_def)

definition group_exists :: "redis_view \<Rightarrow> string \<Rightarrow> string \<Rightarrow> bool" where
  "group_exists v s g \<longleftrightarrow> groups v s g \<noteq> None"

definition waiting :: "redis_view \<Rightarrow> string \<Rightarrow> string \<Rightarrow> message list" where
  "waiting v s g = (case groups v s g of None \<Rightarrow> [] | Some gv \<Rightarrow> undelivered gv)"

definition in_flight :: "redis_view \<Rightarrow> string \<Rightarrow> string \<Rightarrow> message list" where
  "in_flight v s g = (case groups v s g of None \<Rightarrow> [] | Some gv \<Rightarrow> pel gv)"

lemma waiting_views [simp]:
  "group_exists (add_entry s m v) s' g = group_exists v s' g"
  "waiting (add_entry s m v) s' g = waiting v s' g @ (if s' = s \<and> group_exists v s' g then [m] else [])"
  "group_exists (set_score k n x v) = group_exists v" "waiting (set_score k n x v) = waiting v"
  by (auto simp: waiting_def group_exists_def fun_eq_iff split: option.splits)

definition due_members :: "(string \<Rightarrow> timestamp option) \<Rightarrow> timestamp \<Rightarrow> timestamp \<Rightarrow> string set" where
  "due_members z lo hi = {m. \<exists>x. z m = Some x \<and> lo \<le> x \<and> x \<le> hi}"

text \<open>
  The laws, from the documentation of the commands. \<open>XAUTOCLAIM\<close> scans a non-empty piece of the
  pending list from its start identifier on, returns the scanned entries that have been idle long
  enough, and answers the identifier at which to go on, or \<open>0-0\<close> when it reached the end; the
  observer \<open>idle\<close> is the idle time in milliseconds. A multi-stream \<open>XREADGROUP\<close> may answer for
  several of the streams that have entries, in the order given, \<open>n\<close> entries each at most.
\<close>

locale redis_server =
  fixes R :: "'r redis_ops"
    and view :: "'r \<Rightarrow> redis_view"
    and idle :: "'r \<Rightarrow> string \<Rightarrow> string \<Rightarrow> entry_id \<Rightarrow> int"
  assumes entry_order:
      "groups (view r) s g = Some gv \<Longrightarrow> sorted_wrt (<) (map fst (pel gv @ undelivered gv))"
    and entry_positive: "groups (view r) s g = Some gv \<Longrightarrow> e \<in> set (pel gv) \<Longrightarrow> (0, 0) < fst e"
    and xgroup_create_new: "fst (xgroup_create R s g r) \<longleftrightarrow> \<not> group_exists (view r) s g"
    and xgroup_create_view: "view (snd (xgroup_create R s g r)) =
        (if group_exists (view r) s g then view r else open_group s g (view r))"
    and xadd_view: "view (snd (xadd R s f r)) = add_entry s (fst (xadd R s f r), f) (view r)"
    and xreadgroup_streams:
      "subseq (map fst (fst (xreadgroup R g c ss n b r))) ss"
    and xreadgroup_messages:
      "(s, ms) \<in> set (fst (xreadgroup R g c ss n b r)) \<Longrightarrow>
         ms = take n (waiting (view r) s g) \<and> ms \<noteq> []"
    and xreadgroup_progress:
      "s \<in> set ss \<Longrightarrow> waiting (view r) s g \<noteq> [] \<Longrightarrow> 0 < n \<Longrightarrow>
         fst (xreadgroup R g c ss n b r) \<noteq> []"
    and xreadgroup_view:
      "view (snd (xreadgroup R g c ss n b r)) =
         fold (deliver g n) (map fst (fst (xreadgroup R g c ss n b r))) (view r)"
    and xack_view: "view (snd (xack R s g i r)) = ack_entry s g i (view r)"
    and xautoclaim_scan:
      "0 < n \<Longrightarrow> group_exists (view r) s g \<Longrightarrow>
       \<exists>q. let P = filter (\<lambda>m. start \<le> fst m) (in_flight (view r) s g); res = fst (xautoclaim R s g c t start n r)
           in (P \<noteq> [] \<longrightarrow> 0 < q)
              \<and> snd res = filter (\<lambda>m. t \<le> idle r s g (fst m)) (take q P)
              \<and> fst res = (if q < length P then fst (P ! q) else (0, 0))"
    and xautoclaim_view: "view (snd (xautoclaim R s g c t start n r)) = view r"
    and zadd_view: "view (snd (zadd R k mem x r)) = set_score k mem x (view r)"
    and zrem_view: "view (snd (zrem R k mems r)) = drop_scores k mems (view r)"
    and zrangebyscore_due:
      "\<exists>ys. distinct ys \<and> set ys = due_members (zset (view r) k) lo hi
         \<and> sorted_wrt (\<lambda>a b. the (zset (view r) k a) \<le> the (zset (view r) k b)) ys
         \<and> zrangebyscore R k lo hi n r = take n ys"
begin

lemmas views [simp] = xgroup_create_view xadd_view xack_view xautoclaim_view zadd_view zrem_view

text \<open>A read of one stream answers exactly its first entries, if it has any.\<close>

lemma xreadgroup_single:
  assumes "0 < n"
  shows "fst (xreadgroup R g c [s] n b r) =
           (if waiting (view r) s g = [] then [] else [(s, take n (waiting (view r) s g))])"
proof -
  let ?resp = "fst (xreadgroup R g c [s] n b r)"
  have "map fst ?resp = [] \<or> map fst ?resp = [s]"
    using xreadgroup_streams [of g c "[s]" n b r] by (rule subseq_of_singleton)
  then show ?thesis
  proof
    assume "map fst ?resp = []"
    then show ?thesis using xreadgroup_progress [of s "[s]" r g n c b] assms by auto
  next
    assume "map fst ?resp = [s]"
    then obtain ms where resp: "?resp = [(s, ms)]" by (cases ?resp) auto
    then show ?thesis using xreadgroup_messages [of s ms g c "[s]" n b r] by auto
  qed
qed

lemma zrangebyscore_subset:
  "set (zrangebyscore R k lo hi n r) \<subseteq> due_members (zset (view r) k) lo hi"
  using zrangebyscore_due [of r k lo hi n] by (metis set_take_subset)

lemma zrangebyscore_distinct: "distinct (zrangebyscore R k lo hi n r)"
  using zrangebyscore_due [of r k lo hi n] by (metis distinct_take)

lemma zrangebyscore_length: "length (zrangebyscore R k lo hi n r) \<le> n"
  using zrangebyscore_due [of r k lo hi n] by (metis length_take min.cobounded2)

end

end
