(* ===== verification/Runtime.thy ===== *)
theory Runtime
  imports Services
begin

text \<open>
  How the program runs. Every coroutine of the application is a program of the state monad over a
  \<open>world\<close>: the state shared by all processes (both servers and the clock), the interference of the
  other processes, and a ghost trace. Each SQL statement and each Redis command is one atomic step
  (\<open>atomically\<close>); before it, the other processes may change the shared state in any way: \<open>script\<close>
  lists these changes, one per atomic step, and when it is used up nobody interferes any more. The
  trace records the shared state before and after each step of the program itself, so the states
  in which a crash can leave the servers are exactly the states of the trace.

  Theorems for every script hold under every interleaving with other processes; theorems for an
  empty script (\<open>quiet\<close>) describe what an undisturbed call computes.
\<close>

section \<open>The servers together\<close>

record ('d, 'r) services =
  sql :: "'d postgres_ops"
  redis :: "'r redis_ops"
  inject :: "string \<Rightarrow> string \<Rightarrow> json option \<Rightarrow> fields \<Rightarrow> fields"

text \<open>
  The propagator adds its own headers (\<open>traceparent\<close>, \<open>tracestate\<close>, \<open>baggage\<close>) to the fields of a
  message and leaves the others alone.
\<close>

locale backend = postgres "sql S" tbl + redis_server "redis S" view idle
  for S :: "('d, 'r) services"
    and tbl :: "'d \<Rightarrow> table"
    and view :: "'r \<Rightarrow> redis_view"
    and idle :: "'r \<Rightarrow> string \<Rightarrow> string \<Rightarrow> entry_id \<Rightarrow> int" +
  assumes inject_job_id: "map_of (inject S st i carrier fs) ''job_id'' = map_of fs ''job_id''"

section \<open>Worlds and atomic steps\<close>

record ('d, 'r) shared =
  db :: 'd
  rds :: 'r
  clock :: timestamp

type_synonym ('d, 'r) step = "('d, 'r) shared \<times> ('d, 'r) shared"

record ('d, 'r) world =
  shared :: "('d, 'r) shared"
  script :: "(('d, 'r) shared \<Rightarrow> ('d, 'r) shared) list"
  trace :: "('d, 'r) step list"

type_synonym ('d, 'r, 'a) io = "(('d, 'r) world, 'a) state"

definition quiet :: "('d, 'r) world \<Rightarrow> bool" where
  "quiet w \<longleftrightarrow> script w = []"

definition arriving :: "('d, 'r) world \<Rightarrow> ('d, 'r) shared" where
  "arriving w = (case script w of [] \<Rightarrow> shared w | e # _ \<Rightarrow> e (shared w))"

definition atomically :: "(('d, 'r) shared \<Rightarrow> 'a \<times> ('d, 'r) shared) \<Rightarrow> ('d, 'r, 'a) io" where
  "atomically f = State (\<lambda>w. let s = arriving w; res = f s in
     (fst res, w\<lparr>shared := snd res, script := tl (script w), trace := trace w @ [(s, snd res)]\<rparr>))"

text \<open>Reading the clock is not a step on a server: \<open>datetime.now(timezone.utc)\<close>, \<open>time.time()\<close>.\<close>

definition utc_now :: "('d, 'r, timestamp) io" where
  "utc_now = State (\<lambda>w. (clock (shared w), w))"

text \<open>\<open>asyncio.sleep\<close>: time passes.\<close>

definition sleep_by :: "int \<Rightarrow> ('d, 'r, unit) io" where
  "sleep_by d = State (\<lambda>w. ((), w\<lparr>shared := (shared w)\<lparr>clock := clock (shared w) + d\<rparr>\<rparr>))"

text \<open>One SQL statement, one Redis command.\<close>

definition sql_step :: "('d \<Rightarrow> 'a \<times> 'd) \<Rightarrow> ('d, 'r, 'a) io" where
  "sql_step f = atomically (\<lambda>s. let res = f (db s) in (fst res, s\<lparr>db := snd res\<rparr>))"

definition sql_query :: "('d \<Rightarrow> 'a) \<Rightarrow> ('d, 'r, 'a) io" where
  "sql_query f = atomically (\<lambda>s. (f (db s), s))"

definition redis_step :: "('r \<Rightarrow> 'a \<times> 'r) \<Rightarrow> ('d, 'r, 'a) io" where
  "redis_step f = atomically (\<lambda>s. let res = f (rds s) in (fst res, s\<lparr>rds := snd res\<rparr>))"

definition redis_query :: "('r \<Rightarrow> 'a) \<Rightarrow> ('d, 'r, 'a) io" where
  "redis_query f = atomically (\<lambda>s. (f (rds s), s))"

lemma run_atomically:
  "run_state (atomically f) w = (fst (f (arriving w)),
     w\<lparr>shared := snd (f (arriving w)), script := tl (script w),
       trace := trace w @ [(arriving w, snd (f (arriving w)))]\<rparr>)"
  by (simp add: atomically_def Let_def)

lemma run_utc_now [run_simps]: "run_state utc_now w = (clock (shared w), w)"
  by (simp add: utc_now_def)

lemma run_sleep_by [run_simps]:
  "run_state (sleep_by d) w = ((), w\<lparr>shared := (shared w)\<lparr>clock := clock (shared w) + d\<rparr>\<rparr>)"
  by (simp add: sleep_by_def)

lemma arriving_quiet [simp]: "quiet w \<Longrightarrow> arriving w = shared w"
  by (simp add: quiet_def arriving_def)

section \<open>Undisturbed runs\<close>

text \<open>
  What an undisturbed run is described by: the rows, the view of Redis and the clock. \<open>moved w w'\<close>
  says that a quiet run led from \<open>w\<close> to \<open>w'\<close> without time passing.
\<close>

definition moved :: "('d, 'r) world \<Rightarrow> ('d, 'r) world \<Rightarrow> bool" where
  "moved w w' \<longleftrightarrow> quiet w' \<and> clock (shared w') = clock (shared w)"

lemma moved_refl [simp]: "quiet w \<Longrightarrow> moved w w"
  by (simp add: moved_def)

lemma moved_trans [trans]: "moved u v \<Longrightarrow> moved v w \<Longrightarrow> moved u w"
  by (simp add: moved_def)

lemma moved_quiet [dest]: "moved w w' \<Longrightarrow> quiet w'"
  by (simp add: moved_def)

lemma run_sql_step:
  assumes "quiet w"
  shows "run_state (sql_step f) w = (a, w') \<longleftrightarrow>
    a = fst (f (db (shared w))) \<and>
    w' = w\<lparr>shared := (shared w)\<lparr>db := snd (f (db (shared w)))\<rparr>, script := [],
           trace := trace w @ [(shared w, (shared w)\<lparr>db := snd (f (db (shared w)))\<rparr>)]\<rparr>"
  using assms by (auto simp: sql_step_def run_atomically Let_def quiet_def)

lemma run_sql_query:
  assumes "quiet w"
  shows "run_state (sql_query f) w = (a, w') \<longleftrightarrow>
    a = f (db (shared w)) \<and> w' = w\<lparr>script := [], trace := trace w @ [(shared w, shared w)]\<rparr>"
  using assms by (auto simp: sql_query_def run_atomically quiet_def)

lemma run_redis_step:
  assumes "quiet w"
  shows "run_state (redis_step f) w = (a, w') \<longleftrightarrow>
    a = fst (f (rds (shared w))) \<and>
    w' = w\<lparr>shared := (shared w)\<lparr>rds := snd (f (rds (shared w)))\<rparr>, script := [],
           trace := trace w @ [(shared w, (shared w)\<lparr>rds := snd (f (rds (shared w)))\<rparr>)]\<rparr>"
  using assms by (auto simp: redis_step_def run_atomically Let_def quiet_def)

lemma run_redis_query:
  assumes "quiet w"
  shows "run_state (redis_query f) w = (a, w') \<longleftrightarrow>
    a = f (rds (shared w)) \<and> w' = w\<lparr>script := [], trace := trace w @ [(shared w, shared w)]\<rparr>"
  using assms by (auto simp: redis_query_def run_atomically quiet_def)

text \<open>
  \<open>wp m Q w\<close>: running \<open>m\<close> on \<open>w\<close> ends with a result and a world that satisfy \<open>Q\<close>. The rules for
  single operations name only what the laws of the servers speak of.
\<close>

definition wp :: "('d, 'r, 'a) io \<Rightarrow> ('a \<Rightarrow> ('d, 'r) world \<Rightarrow> bool) \<Rightarrow> ('d, 'r) world \<Rightarrow> bool" where
  "wp m Q w \<longleftrightarrow> (case run_state m w of (a, w') \<Rightarrow> Q a w')"

lemma wpI: "(\<And>a w'. run_state m w = (a, w') \<Longrightarrow> Q a w') \<Longrightarrow> wp m Q w"
  by (simp add: wp_def split: prod.splits)

lemma wpD: "wp m Q w \<Longrightarrow> run_state m w = (a, w') \<Longrightarrow> Q a w'"
  by (simp add: wp_def)

lemma wp_conseq: "wp m P w \<Longrightarrow> (\<And>a w'. P a w' \<Longrightarrow> Q a w') \<Longrightarrow> wp m Q w"
  by (auto simp: wp_def)

lemma wp_return [wp_intros]: "Q a w \<Longrightarrow> wp (return a) Q w"
  by (simp add: wp_def)

lemma wp_bind [wp_intros]: "wp m (\<lambda>a. wp (f a) Q) w \<Longrightarrow> wp (m \<bind> f) Q w"
  by (simp add: wp_def run_state_bind split: prod.splits)

lemma wp_utc_now [wp_intros]: "Q (clock (shared w)) w \<Longrightarrow> wp utc_now Q w"
  by (simp add: wp_def run_utc_now)

lemma wp_if [wp_intros]: "(b \<Longrightarrow> wp m Q w) \<Longrightarrow> (\<not> b \<Longrightarrow> wp n Q w) \<Longrightarrow> wp (if b then m else n) Q w"
  by simp

lemma wp_let [wp_intros]: "(\<And>y. y = x \<Longrightarrow> wp (f y) Q w) \<Longrightarrow> wp (Let x f) Q w"
  by (simp add: Let_def)

lemma wp_case_option [wp_intros]:
  "(x = None \<Longrightarrow> wp m Q w) \<Longrightarrow> (\<And>y. x = Some y \<Longrightarrow> wp (f y) Q w) \<Longrightarrow>
     wp (case x of None \<Rightarrow> m | Some y \<Rightarrow> f y) Q w"
  by (cases x) auto

lemma wp_case_sum [wp_intros]:
  "(\<And>y. x = Inl y \<Longrightarrow> wp (f y) Q w) \<Longrightarrow> (\<And>y. x = Inr y \<Longrightarrow> wp (g y) Q w) \<Longrightarrow>
     wp (case x of Inl y \<Rightarrow> f y | Inr y \<Rightarrow> g y) Q w"
  by (cases x) auto

lemma wp_case_prod [wp_intros]:
  "(\<And>y z. x = (y, z) \<Longrightarrow> wp (f y z) Q w) \<Longrightarrow> wp (case x of (y, z) \<Rightarrow> f y z) Q w"
  by (cases x) auto

lemma wp_sql_query [wp_intros]:
  assumes "quiet w" and "\<And>w'. quiet w' \<Longrightarrow> shared w' = shared w \<Longrightarrow> Q (f (db (shared w))) w'"
  shows "wp (sql_query f) Q w"
  using assms by (auto simp: run_sql_query quiet_def intro!: wpI)

lemma wp_redis_query [wp_intros]:
  assumes "quiet w" and "\<And>w'. quiet w' \<Longrightarrow> shared w' = shared w \<Longrightarrow> Q (f (rds (shared w))) w'"
  shows "wp (redis_query f) Q w"
  using assms by (auto simp: run_redis_query quiet_def intro!: wpI)

lemma wp_redis_step [wp_intros]:
  assumes "quiet w"
    and "\<And>w'. quiet w' \<Longrightarrow> db (shared w') = db (shared w) \<Longrightarrow> clock (shared w') = clock (shared w)
       \<Longrightarrow> rds (shared w') = snd (f (rds (shared w))) \<Longrightarrow> Q (fst (f (rds (shared w)))) w'"
  shows "wp (redis_step f) Q w"
  using assms by (auto simp: run_redis_step quiet_def intro!: wpI)

lemma wp_sql_step:
  assumes "quiet w"
    and "\<And>w'. quiet w' \<Longrightarrow> rds (shared w') = rds (shared w) \<Longrightarrow> clock (shared w') = clock (shared w)
       \<Longrightarrow> db (shared w') = snd (f (db (shared w))) \<Longrightarrow> Q (fst (f (db (shared w)))) w'"
  shows "wp (sql_step f) Q w"
  using assms by (auto simp: run_sql_step quiet_def intro!: wpI)

section \<open>What a program emits\<close>

text \<open>
  \<open>emits m Q\<close>: whatever the world and the interference, the program extends the trace by steps
  \<open>ts\<close> and returns \<open>a\<close> such that \<open>Q a ts\<close>.
\<close>

definition emits :: "('d, 'r, 'a) io \<Rightarrow> ('a \<Rightarrow> ('d, 'r) step list \<Rightarrow> bool) \<Rightarrow> bool" where
  "emits m Q \<longleftrightarrow> (\<forall>w. \<exists>ts. trace (snd (run_state m w)) = trace w @ ts \<and> Q (fst (run_state m w)) ts)"

lemma emitsI:
  "(\<And>w. \<exists>ts. trace (snd (run_state m w)) = trace w @ ts \<and> Q (fst (run_state m w)) ts) \<Longrightarrow> emits m Q"
  by (simp add: emits_def)

lemma emitsD:
  assumes "emits m Q" "run_state m w = (a, w')"
  obtains ts where "trace w' = trace w @ ts" "Q a ts"
  using assms by (auto simp: emits_def) (metis fst_conv snd_conv)

lemma emits_weaken: "emits m P \<Longrightarrow> (\<And>a ts. P a ts \<Longrightarrow> Q a ts) \<Longrightarrow> emits m Q"
  by (auto simp: emits_def) blast

lemma emits_return: "Q a [] \<Longrightarrow> emits (return a) Q"
  by (simp add: emits_def)

lemma emits_utc_now: "(\<And>t. Q t []) \<Longrightarrow> emits utc_now Q"
  by (simp add: emits_def utc_now_def)

lemma emits_atomically: "(\<And>s. Q (fst (f s)) [(s, snd (f s))]) \<Longrightarrow> emits (atomically f) Q"
  by (simp add: emits_def run_atomically)

lemma emits_sql_step:
  "(\<And>s. Q (fst (f (db s))) [(s, s\<lparr>db := snd (f (db s))\<rparr>)]) \<Longrightarrow> emits (sql_step f) Q"
  unfolding sql_step_def by (rule emits_atomically) (simp add: Let_def)

lemma emits_sql_query: "(\<And>s. Q (f (db s)) [(s, s)]) \<Longrightarrow> emits (sql_query f) Q"
  unfolding sql_query_def by (rule emits_atomically) simp

lemma emits_redis_step:
  "(\<And>s. Q (fst (f (rds s))) [(s, s\<lparr>rds := snd (f (rds s))\<rparr>)]) \<Longrightarrow> emits (redis_step f) Q"
  unfolding redis_step_def by (rule emits_atomically) (simp add: Let_def)

lemma emits_redis_query: "(\<And>s. Q (f (rds s)) [(s, s)]) \<Longrightarrow> emits (redis_query f) Q"
  unfolding redis_query_def by (rule emits_atomically) simp

lemma emits_bind:
  assumes "emits m P"
    and "\<And>a ts. P a ts \<Longrightarrow> emits (f a) (\<lambda>b us. Q b (ts @ us))"
  shows "emits (m \<bind> f) Q"
proof (rule emitsI)
  fix w
  obtain a w1 where m: "run_state m w = (a, w1)" by fastforce
  from assms(1) m obtain ts where ts: "trace w1 = trace w @ ts" "P a ts" by (rule emitsD)
  obtain b w2 where f: "run_state (f a) w1 = (b, w2)" by fastforce
  from assms(2) [OF ts(2)] f obtain us where "trace w2 = trace w1 @ us" "Q b (ts @ us)"
    by (rule emitsD)
  with m f ts show "\<exists>ts. trace (snd (run_state (m \<bind> f) w)) = trace w @ ts
      \<and> Q (fst (run_state (m \<bind> f) w)) ts"
    by auto
qed

subsection \<open>Guarantees\<close>

text \<open>\<open>guarantees G m\<close>: every atomic step of the program is a \<open>G\<close>-step.\<close>

definition guarantees :: "(('d, 'r) shared \<Rightarrow> ('d, 'r) shared \<Rightarrow> bool) \<Rightarrow> ('d, 'r, 'a) io \<Rightarrow> bool" where
  "guarantees G m \<longleftrightarrow> emits m (\<lambda>_ ts. \<forall>(s, s') \<in> set ts. G s s')"

lemma guaranteesD:
  "guarantees G m \<Longrightarrow> run_state m w = (a, w') \<Longrightarrow>
     \<exists>ts. trace w' = trace w @ ts \<and> (\<forall>(s, s') \<in> set ts. G s s')"
  unfolding guarantees_def by (elim emitsD) auto

lemma guar_return [guar_intros]: "guarantees G (return a)"
  by (simp add: guarantees_def emits_return)

lemma guar_utc_now [guar_intros]: "guarantees G utc_now"
  by (simp add: guarantees_def emits_utc_now)

lemma guar_sleep_by [guar_intros]: "guarantees G (sleep_by d)"
  by (simp add: guarantees_def emits_def run_simps)

lemma guar_sql_step: "(\<And>s. G s (s\<lparr>db := snd (f (db s))\<rparr>)) \<Longrightarrow> guarantees G (sql_step f)"
  by (simp add: guarantees_def emits_sql_step)

lemma guar_sql_query: "(\<And>s. G s s) \<Longrightarrow> guarantees G (sql_query f)"
  by (simp add: guarantees_def emits_sql_query)

lemma guar_redis_step: "(\<And>s. G s (s\<lparr>rds := snd (f (rds s))\<rparr>)) \<Longrightarrow> guarantees G (redis_step f)"
  by (simp add: guarantees_def emits_redis_step)

lemma guar_redis_query: "(\<And>s. G s s) \<Longrightarrow> guarantees G (redis_query f)"
  by (simp add: guarantees_def emits_redis_query)

lemma guar_bind [guar_intros]:
  "guarantees G m \<Longrightarrow> (\<And>a. guarantees G (f a)) \<Longrightarrow> guarantees G (m \<bind> f)"
  unfolding guarantees_def
  by (erule emits_bind, erule meta_allE, erule emits_weaken) auto

lemma guar_if [guar_intros]:
  "(b \<Longrightarrow> guarantees G m) \<Longrightarrow> (\<not> b \<Longrightarrow> guarantees G n) \<Longrightarrow> guarantees G (if b then m else n)"
  by simp

lemma guar_case_option [guar_intros]:
  "(x = None \<Longrightarrow> guarantees G m) \<Longrightarrow> (\<And>y. x = Some y \<Longrightarrow> guarantees G (f y)) \<Longrightarrow>
     guarantees G (case x of None \<Rightarrow> m | Some y \<Rightarrow> f y)"
  by (cases x) auto

lemma guar_case_sum [guar_intros]:
  "(\<And>y. x = Inl y \<Longrightarrow> guarantees G (f y)) \<Longrightarrow> (\<And>y. x = Inr y \<Longrightarrow> guarantees G (g y)) \<Longrightarrow>
     guarantees G (case x of Inl y \<Rightarrow> f y | Inr y \<Rightarrow> g y)"
  by (cases x) auto

lemma guar_case_prod [guar_intros]:
  "(\<And>y z. x = (y, z) \<Longrightarrow> guarantees G (f y z)) \<Longrightarrow> guarantees G (case x of (y, z) \<Rightarrow> f y z)"
  by (cases x) auto

lemma guar_case_list [guar_intros]:
  "(x = [] \<Longrightarrow> guarantees G m) \<Longrightarrow> (\<And>y ys. x = y # ys \<Longrightarrow> guarantees G (f y ys)) \<Longrightarrow>
     guarantees G (case x of [] \<Rightarrow> m | y # ys \<Rightarrow> f y ys)"
  by (cases x) auto

lemma guar_let [guar_intros]: "(\<And>y. y = x \<Longrightarrow> guarantees G (f y)) \<Longrightarrow> guarantees G (Let x f)"
  by (simp add: Let_def)

lemma guar_foreach [guar_intros]:
  "(\<And>x. x \<in> set xs \<Longrightarrow> guarantees G (body x)) \<Longrightarrow> guarantees G (foreach xs body)"
  by (induction xs) (auto intro: guar_intros)

lemma guar_forfold [guar_intros]:
  "(\<And>x acc. guarantees G (body x acc)) \<Longrightarrow> guarantees G (forfold xs acc body)"
  by (induction xs arbitrary: acc) (auto intro: guar_intros)

end
