(* ===== verification/Lifecycle.thy ===== *)
theory Lifecycle
  imports Services
begin

text \<open>
  The life cycle of a job as an abstract specification: \<open>row_step\<close> lists the changes a row may
  undergo, one rule per statement of the repository, and \<open>table_step\<close> lifts it to the table, where
  rows may also appear but never disappear. The later theories prove that every atomic step of the
  worker, the ticker and the API is such a step, whatever the other processes do; here are the
  consequences for any sequence of such steps.
\<close>

section \<open>Steps of a row and of the table\<close>

inductive row_step :: "job \<Rightarrow> job \<Rightarrow> bool" where
  claim: "status j = pending \<or> status j = scheduled \<Longrightarrow>
     row_step j (j\<lparr>status := processing, started_at := Some t\<rparr>)"
| complete: "status j = processing \<Longrightarrow>
     row_step j (j\<lparr>status := completed, result := Some res, completed_at := Some t,
                   attempts := attempts j + 1, progress := p\<rparr>)"
| fail: "status j = processing \<Longrightarrow>
     row_step j (j\<lparr>status := failed, error := Some err, completed_at := Some t,
                   attempts := attempts j + 1\<rparr>)"
| retry_now: "status j = processing \<Longrightarrow>
     row_step j (j\<lparr>status := pending, attempts := attempts j + 1, is_synced_to_redis := False,
                   started_at := None\<rparr>)"
| retry_later: "status j = processing \<Longrightarrow>
     row_step j (j\<lparr>status := scheduled, scheduled_at := Some at, attempts := attempts j + 1,
                   is_synced_to_redis := False, started_at := None\<rparr>)"
| reset: "status j = failed \<Longrightarrow> cancel_requested_at j = None \<Longrightarrow>
     row_step j (j\<lparr>status := pending, attempts := 0, error := None, started_at := None,
                   completed_at := None, is_synced_to_redis := False\<rparr>)"
| promote: "status j = scheduled \<Longrightarrow> row_step j (j\<lparr>status := pending\<rparr>)"
| cancel_idle: "status j = pending \<or> status j = scheduled \<Longrightarrow>
     row_step j (j\<lparr>status := cancelled, completed_at := Some t\<rparr>)"
| cancel_run: "status j = processing \<Longrightarrow>
     row_step j (j\<lparr>status := cancelled, result := Some summary, completed_at := Some t\<rparr>)"
| ask_cancel: "status j = processing \<Longrightarrow> row_step j (j\<lparr>cancel_requested_at := Some t\<rparr>)"
| set_progress: "status j = processing \<Longrightarrow> row_step j (j\<lparr>progress := Some p\<rparr>)"
| sync: "row_step j (j\<lparr>is_synced_to_redis := True\<rparr>)"

text \<open>A row as \<open>create_job\<close> inserts it.\<close>

definition fresh_row :: "job \<Rightarrow> bool" where
  "fresh_row j \<longleftrightarrow> claimable (status j) \<and> attempts j = 0 \<and> \<not> is_synced_to_redis j
     \<and> result j = None \<and> error j = None \<and> started_at j = None \<and> completed_at j = None
     \<and> progress j = None \<and> cancel_requested_at j = None \<and> user_id j \<noteq> None
     \<and> (status j = scheduled \<longrightarrow> scheduled_at j \<noteq> None)"

definition row_move :: "job option \<Rightarrow> job option \<Rightarrow> bool" where
  "row_move r r' = (case r of
       None \<Rightarrow> (case r' of None \<Rightarrow> True | Some j' \<Rightarrow> fresh_row j')
     | Some j \<Rightarrow> (case r' of None \<Rightarrow> False | Some j' \<Rightarrow> j' = j \<or> row_step j j'))"

definition table_step :: "table \<Rightarrow> table \<Rightarrow> bool" where
  "table_step t t' \<longleftrightarrow> (\<forall>i. row_move (t i) (t' i))"

lemma row_move_simps [simp]:
  "row_move r r"
  "row_move (Some j) (Some j') \<longleftrightarrow> j' = j \<or> row_step j j'"
  "row_move None (Some j') \<longleftrightarrow> fresh_row j'"
  "\<not> row_move (Some j) None"
  by (auto simp: row_move_def split: option.splits)

lemma table_step_refl [simp]: "table_step t t"
  by (simp add: table_step_def)

lemma table_step_one_row:
  "t i = Some j \<Longrightarrow> row_step j j' \<Longrightarrow> table_step t (t(i \<mapsto> j'))"
  by (simp add: table_step_def)

lemma table_step_new_row: "t i = None \<Longrightarrow> fresh_row j \<Longrightarrow> table_step t (t(i \<mapsto> j))"
  by (simp add: table_step_def)

lemma table_step_update_where:
  assumes "\<And>j. g j \<Longrightarrow> row_step j (f j)"
  shows "table_step t (update_where g f t)"
  unfolding table_step_def
proof
  fix i
  show "row_move (t i) (update_where g f t i)"
    using assms by (cases "t i") (auto simp: update_where_def)
qed

section \<open>What one step keeps and changes\<close>

definition same_identity :: "job \<Rightarrow> job \<Rightarrow> bool" where
  "same_identity j j' \<longleftrightarrow> jid j' = jid j \<and> user_id j' = user_id j \<and> user_name j' = user_name j
     \<and> jtype j' = jtype j \<and> payload j' = payload j \<and> priority j' = priority j
     \<and> max_attempts j' = max_attempts j \<and> created_at j' = created_at j
     \<and> idempotency_key j' = idempotency_key j \<and> idempotency_hash j' = idempotency_hash j
     \<and> trace_context j' = trace_context j"

lemma same_identity_refl [simp]: "same_identity j j"
  by (simp add: same_identity_def)

lemma same_identity_trans [trans]:
  "same_identity i j \<Longrightarrow> same_identity j k \<Longrightarrow> same_identity i k"
  by (simp add: same_identity_def)

lemma row_step_identity: "row_step j j' \<Longrightarrow> same_identity j j'"
  by (cases rule: row_step.cases) (auto simp: same_identity_def)

text \<open>The edges of the status graph.\<close>

fun status_edge :: "JobStatus \<Rightarrow> JobStatus \<Rightarrow> bool" where
  "status_edge scheduled s = (s = pending \<or> s = processing \<or> s = cancelled)"
| "status_edge pending s = (s = processing \<or> s = cancelled)"
| "status_edge processing s = (s = completed \<or> s = failed \<or> s = cancelled \<or> s = pending \<or> s = scheduled)"
| "status_edge failed s = (s = pending)"
| "status_edge completed s = False"
| "status_edge cancelled s = False"

lemma row_step_status: "row_step j j' \<Longrightarrow> status j' = status j \<or> status_edge (status j) (status j')"
  by (cases rule: row_step.cases) auto

lemma row_step_attempts:
  assumes "row_step j j'"
  shows "attempts j' = attempts j \<or>
     (attempts j' = attempts j + 1 \<and> status j = processing \<and> status j' \<noteq> processing \<and> status j' \<noteq> cancelled) \<or>
     (attempts j' = 0 \<and> status j = failed \<and> status j' = pending)"
  using assms by (cases rule: row_step.cases) auto

text \<open>Leaving \<open>processing\<close> counts the attempt, except for a cancellation.\<close>

lemma row_step_release:
  assumes "row_step j j'" "status j = processing" "status j' \<noteq> processing"
  shows "attempts j' = (if status j' = cancelled then attempts j else attempts j + 1)"
  using assms by (cases rule: row_step.cases) auto

lemma row_step_claim:
  assumes "row_step j j'" "status j \<noteq> processing" "status j' = processing"
  shows "claimable (status j) \<and> attempts j' = attempts j"
  using assms by (cases rule: row_step.cases) auto

section \<open>Well-formed rows\<close>

text \<open>
  Which columns are set follows from the status: the typing of a row beyond what its nullable columns say.
\<close>

definition well_formed :: "job \<Rightarrow> bool" where
  "well_formed j \<longleftrightarrow> user_id j \<noteq> None \<and> 0 \<le> attempts j
     \<and> (claimable (status j) \<longrightarrow> started_at j = None)
     \<and> (status j = scheduled \<longrightarrow> scheduled_at j \<noteq> None)
     \<and> (status j = processing \<or> status j = completed \<or> status j = failed \<longrightarrow> started_at j \<noteq> None)
     \<and> (completed_at j \<noteq> None \<longleftrightarrow> status j = completed \<or> status j = failed \<or> status j = cancelled)
     \<and> (status j = completed \<longrightarrow> result j \<noteq> None)
     \<and> (result j \<noteq> None \<longrightarrow> status j = completed \<or> status j = cancelled)
     \<and> (error j \<noteq> None \<longleftrightarrow> status j = failed)
     \<and> (status j = completed \<or> status j = failed \<longrightarrow> 0 < attempts j)"

lemma well_formed_fresh: "fresh_row j \<Longrightarrow> well_formed j"
  by (auto simp: fresh_row_def well_formed_def claimable_def)

lemma well_formed_step:
  assumes "row_step j j'" and "well_formed j"
  shows "well_formed j'"
  using assms by (cases rule: row_step.cases) ((elim disjE)?; simp add: well_formed_def)+

definition well_formed_table :: "table \<Rightarrow> bool" where
  "well_formed_table t \<longleftrightarrow> (\<forall>j \<in> ran t. well_formed j)"

lemma well_formed_move: "row_move r r' \<Longrightarrow> r' = Some j' \<Longrightarrow> (\<And>j. r = Some j \<Longrightarrow> well_formed j) \<Longrightarrow> well_formed j'"
  by (cases r) (auto intro: well_formed_fresh well_formed_step)

lemma well_formed_table_step: "table_step t t' \<Longrightarrow> well_formed_table t \<Longrightarrow> well_formed_table t'"
  unfolding well_formed_table_def table_step_def ran_def by (blast intro: well_formed_move)

lemma well_formed_table_steps: "table_step\<^sup>*\<^sup>* t t' \<Longrightarrow> well_formed_table t \<Longrightarrow> well_formed_table t'"
  by (induction rule: rtranclp_induct) (auto intro: well_formed_table_step)

section \<open>Runs\<close>

text \<open>
  A run of the system, seen at the table, is a list of tables in which each is a step from the one
  before (\<^term>\<open>successively table_step ts\<close>).
\<close>

lemma steps_keep_rows:
  "table_step\<^sup>*\<^sup>* t t' \<Longrightarrow> t i = Some j \<Longrightarrow> \<exists>j'. t' i = Some j' \<and> row_step\<^sup>*\<^sup>* j j'"
proof (induction rule: rtranclp_induct)
  case (step t1 t2)
  then obtain j1 where j1: "t1 i = Some j1" "row_step\<^sup>*\<^sup>* j j1" by blast
  from step.hyps(2) have "row_move (t1 i) (t2 i)" by (simp add: table_step_def)
  with j1 obtain j2 where "t2 i = Some j2" "j2 = j1 \<or> row_step j1 j2"
    by (cases "t2 i") auto
  with j1 show ?case by (auto intro: rtranclp.rtrancl_into_rtrancl)
qed auto

lemma row_steps_identity: "row_step\<^sup>*\<^sup>* j j' \<Longrightarrow> same_identity j j'"
  by (induction rule: rtranclp_induct) (auto intro: same_identity_trans row_step_identity)

lemma row_steps_absorbing:
  "row_step\<^sup>*\<^sup>* j j' \<Longrightarrow> status j = completed \<or> status j = cancelled \<Longrightarrow> status j' = status j"
  by (induction rule: rtranclp_induct) (auto dest: row_step_status)

text \<open>A completed or cancelled row is frozen: only the mark of the hand-over can still be set.\<close>

definition frozen :: "job \<Rightarrow> job \<Rightarrow> bool" where
  "frozen j j' \<longleftrightarrow> (\<exists>b. j' = j\<lparr>is_synced_to_redis := b\<rparr>)"

lemma row_steps_frozen:
  "row_step\<^sup>*\<^sup>* j j' \<Longrightarrow> status j = completed \<or> status j = cancelled \<Longrightarrow> frozen j j'"
proof (induction rule: rtranclp_induct)
  case base
  show ?case unfolding frozen_def by (rule exI [of _ "is_synced_to_redis j"]) simp
next
  case (step k k')
  then obtain b where k: "k = j\<lparr>is_synced_to_redis := b\<rparr>" by (auto simp: frozen_def)
  from step.hyps(2) show ?case
    using step.prems unfolding k by (cases rule: row_step.cases) (auto simp: frozen_def)
qed

lemma successively_steps:
  "successively table_step (t # ts) \<Longrightarrow> t' \<in> set (t # ts) \<Longrightarrow> table_step\<^sup>*\<^sup>* t t'"
proof (induction ts arbitrary: t)
  case (Cons u ts)
  then show ?case
    by (auto intro: converse_rtranclp_into_rtranclp)
qed auto

subsection \<open>Counting executions\<close>

text \<open>How often a row makes a given kind of move along a run.\<close>

fun count_moves :: "(job option \<Rightarrow> job option \<Rightarrow> bool) \<Rightarrow> uuid \<Rightarrow> table list \<Rightarrow> nat" where
  "count_moves P i (t # t' # ts) = (if P (t i) (t' i) then 1 else 0) + count_moves P i (t' # ts)"
| "count_moves P i ts = 0"

definition has_status :: "JobStatus \<Rightarrow> job option \<Rightarrow> bool" where
  "has_status s r = (case r of None \<Rightarrow> False | Some j \<Rightarrow> status j = s)"

text \<open>A claim, the cancellation of a running job, and a manual retry of a failed job.\<close>

definition claim_move :: "job option \<Rightarrow> job option \<Rightarrow> bool" where
  "claim_move r r' \<longleftrightarrow> \<not> has_status processing r \<and> has_status processing r'"

definition cancel_move :: "job option \<Rightarrow> job option \<Rightarrow> bool" where
  "cancel_move r r' \<longleftrightarrow> has_status processing r \<and> has_status cancelled r'"

definition reset_move :: "job option \<Rightarrow> job option \<Rightarrow> bool" where
  "reset_move r r' \<longleftrightarrow> has_status failed r \<and> has_status pending r'"

lemma has_status_simps [simp]:
  "has_status s (Some j) \<longleftrightarrow> status j = s" "\<not> has_status s None"
  by (simp_all add: has_status_def)

lemmas move_defs = claim_move_def cancel_move_def reset_move_def

lemma row_step_accounting:
  assumes "j' = j \<or> row_step j j'" and "\<not> reset_move (Some j) (Some j')"
  shows "of_bool (claim_move (Some j) (Some j')) + of_bool (status j = processing) + attempts j
       = attempts j' + of_bool (status j' = processing) + of_bool (cancel_move (Some j) (Some j'))"
proof (cases "j' = j")
  case False
  with assms have "row_step j j'" by simp
  then show ?thesis using assms(2) by (cases rule: row_step.cases) (auto simp: move_defs)
qed (auto simp: move_defs)

lemma accounting:
  assumes "successively table_step (t # ts)" and "t i = Some j"
    and "count_moves reset_move i (t # ts) = 0"
  shows "\<exists>j'. last (t # ts) i = Some j' \<and>
     int (count_moves claim_move i (t # ts)) + of_bool (status j = processing) + attempts j
       = attempts j' + of_bool (status j' = processing) + int (count_moves cancel_move i (t # ts))"
  using assms
proof (induction ts arbitrary: t j)
  case (Cons u ts)
  from Cons.prems(1) have "table_step t u" by simp
  then have "row_move (t i) (u i)" by (simp add: table_step_def)
  with Cons.prems(2) obtain k where k: "u i = Some k" "k = j \<or> row_step j k"
    by (cases "u i") auto
  from Cons.prems k(1) obtain j' where j': "last (u # ts) i = Some j'"
    "int (count_moves claim_move i (u # ts)) + of_bool (status k = processing) + attempts k
       = attempts j' + of_bool (status j' = processing) + int (count_moves cancel_move i (u # ts))"
    using Cons.IH [of u k] by (auto split: if_splits)
  have "\<not> reset_move (Some j) (Some k)"
    using Cons.prems k(1) by (auto split: if_splits)
  from row_step_accounting [OF k(2) this] j' Cons.prems(2) k(1) show ?case
    by (auto simp: of_bool_def split: if_splits)
qed simp

end
