(* ===== verification/Repository.thy ===== *)
theory Repository
  imports Runtime Lifecycle
begin

text \<open>
  \<open>app/repository.py\<close>: the statements on the \<open>jobs\<close> table, one definition per function. A statement
  and its \<open>commit\<close> are one atomic step. \<open>list_jobs\<close> is in the theory \<open>Listing\<close> and
  \<open>count_by_status\<close> with the statistics.

  Every transition of a job is a guarded \<open>UPDATE ... WHERE id = :id AND status ...\<close> that reports
  whether it changed a row. The locale \<open>guarded_transition\<close> states this contract once; it is
  interpreted for each such operation, and its clients (the retry path, the worker, the ticker
  and the routes) use the operations through it.
\<close>

datatype db_error = IntegrityError | InvalidRequestError

section \<open>The operations\<close>

text \<open>\<open>session.get\<close> and \<open>scalar_one_or_none\<close> on a query that has at most one row.\<close>

definition one_or_none :: "job list \<Rightarrow> job option" where
  "one_or_none rows = (case rows of [] \<Rightarrow> None | j # _ \<Rightarrow> Some j)"

definition create_job ::
  "('d, 'r) services \<Rightarrow> uuid \<Rightarrow> JobType \<Rightarrow> json \<Rightarrow> JobStatus \<Rightarrow> timestamp option \<Rightarrow> JobPriority \<Rightarrow> int
   \<Rightarrow> string option \<Rightarrow> string option \<Rightarrow> json option \<Rightarrow> uuid option \<Rightarrow> string option
   \<Rightarrow> ('d, 'r, db_error + job) io" where
  "create_job S new_id t p st sched prio maxa key hash trace_ctx uid uname = do {
     inserted \<leftarrow> sql_step (pg_insert (sql S)
        (new_job new_id t p st sched prio maxa key hash trace_ctx uid uname));
     if \<not> inserted then return (Inl IntegrityError)
     else do {
       rows \<leftarrow> sql_query (pg_select (sql S) (\<lambda>j. jid j = new_id));
       case one_or_none rows of
         None \<Rightarrow> return (Inl InvalidRequestError)
       | Some j \<Rightarrow> return (Inr j)
     }
   }"

definition get_job :: "('d, 'r) services \<Rightarrow> uuid \<Rightarrow> uuid option \<Rightarrow> ('d, 'r, job option) io" where
  "get_job S job_id uid = (case uid of
     None \<Rightarrow> do {
       rows \<leftarrow> sql_query (pg_select (sql S) (\<lambda>j. jid j = job_id));
       return (one_or_none rows)
     }
   | Some u \<Rightarrow> do {
       rows \<leftarrow> sql_query (pg_select (sql S) (\<lambda>j. jid j = job_id \<and> user_id j = Some u));
       return (one_or_none rows)
     })"

definition mark_synced :: "('d, 'r) services \<Rightarrow> uuid \<Rightarrow> ('d, 'r, unit) io" where
  "mark_synced S job_id = do {
     _ \<leftarrow> sql_step (pg_update (sql S) (\<lambda>j. jid j = job_id) (\<lambda>j. j\<lparr>is_synced_to_redis := True\<rparr>));
     return ()
   }"

definition claim_job :: "('d, 'r) services \<Rightarrow> uuid \<Rightarrow> ('d, 'r, bool) io" where
  "claim_job S job_id = do {
     now \<leftarrow> utc_now;
     n \<leftarrow> sql_step (pg_update (sql S)
        (\<lambda>j. jid j = job_id \<and> (status j = pending \<or> status j = scheduled))
        (\<lambda>j. j\<lparr>status := processing, started_at := Some now\<rparr>));
     return (n = 1)
   }"

definition complete_job ::
  "('d, 'r) services \<Rightarrow> uuid \<Rightarrow> json \<Rightarrow> int option \<Rightarrow> ('d, 'r, bool) io" where
  "complete_job S job_id res pct = do {
     now \<leftarrow> utc_now;
     n \<leftarrow> sql_step (pg_update (sql S)
        (\<lambda>j. jid j = job_id \<and> status j = processing)
        (\<lambda>j. j\<lparr>status := completed, result := Some res, completed_at := Some now,
               attempts := attempts j + 1,
               progress := (case pct of Some p \<Rightarrow> Some p | None \<Rightarrow> progress j)\<rparr>));
     return (n = 1)
   }"

definition fail_job :: "('d, 'r) services \<Rightarrow> uuid \<Rightarrow> json \<Rightarrow> ('d, 'r, bool) io" where
  "fail_job S job_id err = do {
     now \<leftarrow> utc_now;
     n \<leftarrow> sql_step (pg_update (sql S)
        (\<lambda>j. jid j = job_id \<and> status j = processing)
        (\<lambda>j. j\<lparr>status := failed, error := Some err, completed_at := Some now,
               attempts := attempts j + 1\<rparr>));
     return (n = 1)
   }"

definition retry_to_pending :: "('d, 'r) services \<Rightarrow> uuid \<Rightarrow> ('d, 'r, bool) io" where
  "retry_to_pending S job_id = do {
     n \<leftarrow> sql_step (pg_update (sql S)
        (\<lambda>j. jid j = job_id \<and> status j = processing)
        (\<lambda>j. j\<lparr>status := pending, attempts := attempts j + 1, is_synced_to_redis := False,
               started_at := None\<rparr>));
     return (n = 1)
   }"

definition retry_to_scheduled ::
  "('d, 'r) services \<Rightarrow> uuid \<Rightarrow> timestamp \<Rightarrow> ('d, 'r, bool) io" where
  "retry_to_scheduled S job_id at = do {
     n \<leftarrow> sql_step (pg_update (sql S)
        (\<lambda>j. jid j = job_id \<and> status j = processing)
        (\<lambda>j. j\<lparr>status := scheduled, scheduled_at := Some at, attempts := attempts j + 1,
               is_synced_to_redis := False, started_at := None\<rparr>));
     return (n = 1)
   }"

definition reset_failed_to_pending :: "('d, 'r) services \<Rightarrow> uuid \<Rightarrow> ('d, 'r, bool) io" where
  "reset_failed_to_pending S job_id = do {
     n \<leftarrow> sql_step (pg_update (sql S)
        (\<lambda>j. jid j = job_id \<and> (status j = failed \<and> cancel_requested_at j = None))
        (\<lambda>j. j\<lparr>status := pending, attempts := 0, error := None, started_at := None,
               completed_at := None, is_synced_to_redis := False\<rparr>));
     return (n = 1)
   }"

definition promote_scheduled_to_pending ::
  "('d, 'r) services \<Rightarrow> uuid list \<Rightarrow> ('d, 'r, nat) io" where
  "promote_scheduled_to_pending S job_ids =
     (if job_ids = [] then return 0
      else sql_step (pg_update (sql S)
             (\<lambda>j. jid j \<in> set job_ids \<and> status j = scheduled)
             (\<lambda>j. j\<lparr>status := pending\<rparr>)))"

definition list_unsynced ::
  "('d, 'r) services \<Rightarrow> timestamp \<Rightarrow> nat \<Rightarrow> ('d, 'r, job list) io" where
  "list_unsynced S older_than lim =
     sql_query (pg_select_ordered (sql S)
       (\<lambda>j. \<not> is_synced_to_redis j \<and> (status j = pending \<or> status j = scheduled)
            \<and> created_at j < older_than) False lim)"

definition get_promotion_info ::
  "('d, 'r) services \<Rightarrow> uuid list \<Rightarrow> ('d, 'r, (uuid \<times> (JobPriority \<times> json option)) list) io" where
  "get_promotion_info S job_ids =
     (if job_ids = [] then return []
      else do {
        rows \<leftarrow> sql_query (pg_select (sql S) (\<lambda>j. jid j \<in> set job_ids));
        return (map (\<lambda>j. (jid j, (priority j, trace_context j))) rows)
      })"

definition init_progress :: "('d, 'r) services \<Rightarrow> uuid \<Rightarrow> ('d, 'r, bool) io" where
  "init_progress S job_id = do {
     n \<leftarrow> sql_step (pg_update (sql S)
        (\<lambda>j. jid j = job_id \<and> status j = processing) (\<lambda>j. j\<lparr>progress := Some 0\<rparr>));
     return (n = 1)
   }"

definition cancel_pending_or_scheduled :: "('d, 'r) services \<Rightarrow> uuid \<Rightarrow> ('d, 'r, bool) io" where
  "cancel_pending_or_scheduled S job_id = do {
     now \<leftarrow> utc_now;
     n \<leftarrow> sql_step (pg_update (sql S)
        (\<lambda>j. jid j = job_id \<and> (status j = pending \<or> status j = scheduled))
        (\<lambda>j. j\<lparr>status := cancelled, completed_at := Some now\<rparr>));
     return (n = 1)
   }"

definition request_cancel :: "('d, 'r) services \<Rightarrow> uuid \<Rightarrow> ('d, 'r, bool) io" where
  "request_cancel S job_id = do {
     now \<leftarrow> utc_now;
     n \<leftarrow> sql_step (pg_update (sql S)
        (\<lambda>j. jid j = job_id \<and> status j = processing)
        (\<lambda>j. j\<lparr>cancel_requested_at := Some now\<rparr>));
     return (n = 1)
   }"

definition cancel_job :: "('d, 'r) services \<Rightarrow> uuid \<Rightarrow> json \<Rightarrow> ('d, 'r, bool) io" where
  "cancel_job S job_id summary = do {
     now \<leftarrow> utc_now;
     n \<leftarrow> sql_step (pg_update (sql S)
        (\<lambda>j. jid j = job_id \<and> status j = processing)
        (\<lambda>j. j\<lparr>status := cancelled, result := Some summary, completed_at := Some now\<rparr>));
     return (n = 1)
   }"

definition get_by_idempotency_key ::
  "('d, 'r) services \<Rightarrow> string \<Rightarrow> uuid \<Rightarrow> ('d, 'r, job option) io" where
  "get_by_idempotency_key S key uid = do {
     rows \<leftarrow> sql_query (pg_select (sql S) (\<lambda>j. idempotency_key j = Some key \<and> user_id j = Some uid));
     return (one_or_none rows)
   }"

section \<open>The contract of a guarded transition\<close>

text \<open>The life cycle as a guarantee on the shared state.\<close>

definition lifecycle :: "('d \<Rightarrow> table) \<Rightarrow> ('d, 'r) shared \<Rightarrow> ('d, 'r) shared \<Rightarrow> bool" where
  "lifecycle tbl s s' \<longleftrightarrow> table_step (tbl (db s)) (tbl (db s'))"

locale guarded_transition =
  fixes tbl :: "'d \<Rightarrow> table"
    and op :: "uuid \<Rightarrow> ('d, 'r, bool) io"
    and guard :: "job \<Rightarrow> bool"
    and eff :: "timestamp \<Rightarrow> job \<Rightarrow> job"
  assumes eff_keys: "keeps_keys (eff t)"
    and quiet_won: "quiet w \<Longrightarrow> run_state (op i) w = (won, w') \<Longrightarrow>
        won \<longleftrightarrow> (\<exists>j. tbl (db (shared w)) i = Some j \<and> guard j)"
    and quiet_tbl: "quiet w \<Longrightarrow> run_state (op i) w = (won, w') \<Longrightarrow>
        tbl (db (shared w')) =
          (if won then (tbl (db (shared w)))(i \<mapsto> eff (clock (shared w)) (the (tbl (db (shared w)) i)))
           else tbl (db (shared w)))"
    and quiet_rds: "quiet w \<Longrightarrow> run_state (op i) w = (won, w') \<Longrightarrow> rds (shared w') = rds (shared w)"
    and quiet_moved: "quiet w \<Longrightarrow> run_state (op i) w = (won, w') \<Longrightarrow> moved w w'"
    and one_step: "emits (op i) (\<lambda>won ts. \<exists>s s' t. ts = [(s, s')] \<and> rds s' = rds s
        \<and> (if won then \<exists>j. tbl (db s) i = Some j \<and> guard j \<and> tbl (db s') = (tbl (db s))(i \<mapsto> eff t j)
           else tbl (db s') = tbl (db s)))"
begin

lemmas quiet_facts = quiet_won quiet_tbl quiet_rds quiet_moved

text \<open>The two outcomes of an undisturbed call.\<close>

lemma quiet_wins:
  assumes "quiet w" and "tbl (db (shared w)) i = Some j" and "guard j"
  obtains w' where "run_state (op i) w = (True, w')"
    and "tbl (db (shared w')) = (tbl (db (shared w)))(i \<mapsto> eff (clock (shared w)) j)"
    and "rds (shared w') = rds (shared w)" and "moved w w'"
proof -
  obtain won w' where r: "run_state (op i) w = (won, w')" by fastforce
  show thesis
    by (rule that [of w']) (use quiet_facts [OF assms(1) r] assms r in auto)
qed

lemma quiet_loses:
  assumes "quiet w" and "\<And>j. tbl (db (shared w)) i = Some j \<Longrightarrow> \<not> guard j"
  obtains w' where "run_state (op i) w = (False, w')"
    and "tbl (db (shared w')) = tbl (db (shared w))"
    and "rds (shared w') = rds (shared w)" and "moved w w'"
proof -
  obtain won w' where r: "run_state (op i) w = (won, w')" by fastforce
  show thesis
    by (rule that [of w']) (use quiet_facts [OF assms(1) r] assms r in auto)
qed

lemma wp_op:
  assumes "quiet w"
    and "\<And>j w'. tbl (db (shared w)) i = Some j \<Longrightarrow> guard j \<Longrightarrow> quiet w' \<Longrightarrow>
       rds (shared w') = rds (shared w) \<Longrightarrow> clock (shared w') = clock (shared w) \<Longrightarrow>
       tbl (db (shared w')) = (tbl (db (shared w)))(i \<mapsto> eff (clock (shared w)) j) \<Longrightarrow> Q True w'"
    and "\<And>w'. (\<And>j. tbl (db (shared w)) i = Some j \<Longrightarrow> \<not> guard j) \<Longrightarrow> quiet w' \<Longrightarrow>
       rds (shared w') = rds (shared w) \<Longrightarrow> clock (shared w') = clock (shared w) \<Longrightarrow>
       tbl (db (shared w')) = tbl (db (shared w)) \<Longrightarrow> Q False w'"
  shows "wp (op i) Q w"
proof (rule wpI)
  fix won w' assume r: "run_state (op i) w = (won, w')"
  note facts = quiet_won [OF assms(1) r] quiet_tbl [OF assms(1) r] quiet_rds [OF assms(1) r]
    quiet_moved [OF assms(1) r]
  show "Q won w'"
  proof (cases won)
    case True
    with facts obtain j where "tbl (db (shared w)) i = Some j" "guard j" by auto
    with facts True show ?thesis by (simp add: moved_def assms(2) [of j w'])
  next
    case False
    with facts show ?thesis by (simp add: moved_def assms(3) [of w'])
  qed
qed

text \<open>A statement whose effect is a step of the life cycle keeps to the life cycle.\<close>

lemma guar_lifecycle:
  assumes "\<And>t j. guard j \<Longrightarrow> row_step j (eff t j)"
  shows "guarantees (lifecycle tbl) (op i)"
  unfolding guarantees_def
proof (rule emits_weaken [OF one_step], elim exE conjE)
  fix won ts t and s s' :: "('d, 'r) shared"
  assume "ts = [(s, s')]" and tb: "if won
      then \<exists>j. tbl (db s) i = Some j \<and> guard j \<and> tbl (db s') = (tbl (db s))(i \<mapsto> eff t j)
      else tbl (db s') = tbl (db s)"
  from tb have "lifecycle tbl s s'"
    by (auto simp: lifecycle_def intro!: table_step_one_row assms split: if_splits)
  with \<open>ts = [(s, s')]\<close> show "\<forall>(s, s') \<in> set ts. lifecycle tbl s s'" by simp
qed

text \<open>
  If the effect falsifies the guard, of two undisturbed calls in a row the second loses: the
  transition is taken once.
\<close>

lemma second_call_loses:
  assumes "quiet w" and "run_state (op i) w = (True, w1)" and "run_state (op i) w1 = (won, w2)"
    and "\<And>t j. \<not> guard (eff t j)"
  shows "\<not> won"
proof -
  have "quiet w1" using quiet_moved [OF assms(1,2)] by auto
  with assms show ?thesis
    using quiet_won [OF _ assms(3)] quiet_tbl [OF assms(1,2)] by auto
qed

end

text \<open>Any statement of this shape, on any server that obeys the laws, meets the contract.\<close>

context backend
begin

lemma guarded_statement:
  assumes op: "\<And>i. op i = do {
         t \<leftarrow> utc_now;
         n \<leftarrow> sql_step (pg_update (sql S) (\<lambda>j. jid j = i \<and> guard j) (eff t));
         return (n = 1)
       }"
    and keys: "\<And>t. keeps_keys (eff t)"
  shows "guarded_transition tbl op guard eff"
proof
  show "emits (op i) (\<lambda>won ts. \<exists>s s' t. ts = [(s, s')] \<and> rds s' = rds s
      \<and> (if won then \<exists>j. tbl (db s) i = Some j \<and> guard j \<and> tbl (db s') = (tbl (db s))(i \<mapsto> eff t j)
         else tbl (db s') = tbl (db s)))" for i
    unfolding op
    by (rule emits_bind [OF emits_utc_now [where Q = "\<lambda>_ ts. ts = []"]], simp,
        rule emits_bind [OF emits_sql_step [where Q = "\<lambda>n ts. \<exists>s. n = fst (pg_update (sql S)
          (\<lambda>j. jid j = i \<and> guard j) (eff a) (db s)) \<and> ts = [(s, s\<lparr>db := snd (pg_update (sql S)
          (\<lambda>j. jid j = i \<and> guard j) (eff a) (db s))\<rparr>)]" for a]], blast)
      (rule emits_return,
       auto simp: update_count_by_id [OF keys] update_tbl_by_id [OF keys] split: option.splits)
qed (auto simp: op keys run_simps run_sql_step update_count_by_id update_tbl_by_id moved_def
      quiet_def split: prod.splits option.splits)

end

lemma utc_now_discard: "(utc_now \<bind> (\<lambda>_. m)) = m"
  by (rule state_ext) (simp add: run_simps)

section \<open>Each transition meets the contract\<close>

sublocale backend \<subseteq> claim: guarded_transition tbl "claim_job S"
  "\<lambda>j. status j = pending \<or> status j = scheduled"
  "\<lambda>t j. j\<lparr>status := processing, started_at := Some t\<rparr>"
  by (rule guarded_statement) (simp_all add: keeps_keys_def claim_job_def)

sublocale backend \<subseteq> complete: guarded_transition tbl "\<lambda>i. complete_job S i res pct"
  "\<lambda>j. status j = processing"
  "\<lambda>t j. j\<lparr>status := completed, result := Some res, completed_at := Some t,
           attempts := attempts j + 1,
           progress := (case pct of Some p \<Rightarrow> Some p | None \<Rightarrow> progress j)\<rparr>"
  for res pct
  by (rule guarded_statement) (simp_all add: keeps_keys_def complete_job_def)

sublocale backend \<subseteq> fail: guarded_transition tbl "\<lambda>i. fail_job S i err"
  "\<lambda>j. status j = processing"
  "\<lambda>t j. j\<lparr>status := failed, error := Some err, completed_at := Some t, attempts := attempts j + 1\<rparr>"
  for err
  by (rule guarded_statement) (simp_all add: keeps_keys_def fail_job_def)

sublocale backend \<subseteq> retry_now: guarded_transition tbl "retry_to_pending S"
  "\<lambda>j. status j = processing"
  "\<lambda>_ j. j\<lparr>status := pending, attempts := attempts j + 1, is_synced_to_redis := False,
           started_at := None\<rparr>"
  by (rule guarded_statement) (simp_all add: keeps_keys_def retry_to_pending_def utc_now_discard)

sublocale backend \<subseteq> retry_later: guarded_transition tbl "\<lambda>i. retry_to_scheduled S i at"
  "\<lambda>j. status j = processing"
  "\<lambda>_ j. j\<lparr>status := scheduled, scheduled_at := Some at, attempts := attempts j + 1,
           is_synced_to_redis := False, started_at := None\<rparr>"
  for at
  by (rule guarded_statement) (simp_all add: keeps_keys_def retry_to_scheduled_def utc_now_discard)

sublocale backend \<subseteq> reset: guarded_transition tbl "reset_failed_to_pending S"
  "\<lambda>j. status j = failed \<and> cancel_requested_at j = None"
  "\<lambda>_ j. j\<lparr>status := pending, attempts := 0, error := None, started_at := None,
           completed_at := None, is_synced_to_redis := False\<rparr>"
  by (rule guarded_statement) (simp_all add: keeps_keys_def reset_failed_to_pending_def utc_now_discard)

sublocale backend \<subseteq> init: guarded_transition tbl "init_progress S"
  "\<lambda>j. status j = processing" "\<lambda>_ j. j\<lparr>progress := Some 0\<rparr>"
  by (rule guarded_statement) (simp_all add: keeps_keys_def init_progress_def utc_now_discard)

sublocale backend \<subseteq> cancel_idle: guarded_transition tbl "cancel_pending_or_scheduled S"
  "\<lambda>j. status j = pending \<or> status j = scheduled"
  "\<lambda>t j. j\<lparr>status := cancelled, completed_at := Some t\<rparr>"
  by (rule guarded_statement) (simp_all add: keeps_keys_def cancel_pending_or_scheduled_def)

sublocale backend \<subseteq> ask_cancel: guarded_transition tbl "request_cancel S"
  "\<lambda>j. status j = processing" "\<lambda>t j. j\<lparr>cancel_requested_at := Some t\<rparr>"
  by (rule guarded_statement) (simp_all add: keeps_keys_def request_cancel_def)

sublocale backend \<subseteq> cancel_run: guarded_transition tbl "\<lambda>i. cancel_job S i summary"
  "\<lambda>j. status j = processing"
  "\<lambda>t j. j\<lparr>status := cancelled, result := Some summary, completed_at := Some t\<rparr>"
  for summary
  by (rule guarded_statement) (simp_all add: keeps_keys_def cancel_job_def)

section \<open>The other statements\<close>

context backend
begin

abbreviation T :: "('d, 'r) world \<Rightarrow> table" where
  "T w \<equiv> tbl (db (shared w))"

abbreviation V :: "('d, 'r) world \<Rightarrow> redis_view" where
  "V w \<equiv> view (rds (shared w))"

lemma one_or_none_by_id:
  "one_or_none (pg_select (sql S) (\<lambda>j. jid j = i \<and> g j) d) =
     (case tbl d i of Some j \<Rightarrow> if g j then Some j else None | None \<Rightarrow> None)"
  "one_or_none (pg_select (sql S) (\<lambda>j. jid j = i) d) = tbl d i"
  by (simp_all add: one_or_none_def select_by_id select_by_pk split: option.splits)

text \<open>The idempotency lookup has at most one row: \<open>scalar_one_or_none\<close> never raises.\<close>

lemma idempotency_rows_le_1:
  "length (pg_select (sql S) (\<lambda>j. idempotency_key j = Some key \<and> user_id j = Some uid) d) \<le> 1"
proof -
  let ?g = "\<lambda>j. idempotency_key j = Some key \<and> user_id j = Some uid"
  have "card (matching ?g (tbl d)) \<le> Suc 0"
  proof (rule card_le_Suc0_iff_eq [THEN iffD2])
    show "finite (matching ?g (tbl d))"
      by (metis List.finite_set select_set)
    show "\<forall>a \<in> matching ?g (tbl d). \<forall>b \<in> matching ?g (tbl d). a = b"
    proof (intro ballI)
      fix a b assume "a \<in> matching ?g (tbl d)" "b \<in> matching ?g (tbl d)"
      then have rows: "tbl d (jid a) = Some a" "tbl d (jid b) = Some b" and "key_clash a b"
        by (auto simp: matching_tbl key_clash_def)
      then have "jid a = jid b" by (rule tbl_unique)
      then have "Some a = Some b" using rows by (metis (no_types))
      then show "a = b" by simp
    qed
  qed
  then show ?thesis
    using distinct_card [OF select_distinct, of ?g d] by (simp add: select_set)
qed

lemma quiet_get_job:
  assumes "quiet w" and "run_state (get_job S i uid) w = (r, w')"
  shows "r = (case T w i of
           Some j \<Rightarrow> if uid = None \<or> user_id j = uid then Some j else None | None \<Rightarrow> None)"
    and "shared w' = shared w" and "moved w w'"
  using assms
  by (auto simp: get_job_def run_simps run_sql_query one_or_none_by_id moved_def quiet_def
      split: option.splits prod.splits)

lemmas wp_transitions [wp_intros] = claim.wp_op complete.wp_op fail.wp_op retry_now.wp_op
  retry_later.wp_op reset.wp_op init.wp_op cancel_idle.wp_op ask_cancel.wp_op cancel_run.wp_op

lemma wp_get_job [wp_intros]:
  assumes "quiet w" and "\<And>w'. quiet w' \<Longrightarrow> shared w' = shared w \<Longrightarrow>
     Q (case T w i of Some j \<Rightarrow> if uid = None \<or> user_id j = uid then Some j else None | None \<Rightarrow> None) w'"
  shows "wp (get_job S i uid) Q w"
proof (rule wpI)
  fix r w' assume r: "run_state (get_job S i uid) w = (r, w')"
  show "Q r w'"
    unfolding quiet_get_job(1) [OF assms(1) r]
    by (rule assms(2)) (use quiet_get_job(2,3) [OF assms(1) r] in auto)
qed

lemma quiet_mark_synced:
  assumes "quiet w" and "run_state (mark_synced S i) w = (u, w')"
  shows "T w' = (case T w i of
           Some j \<Rightarrow> (T w)(i \<mapsto> j\<lparr>is_synced_to_redis := True\<rparr>) | None \<Rightarrow> T w)"
    and "rds (shared w') = rds (shared w)" and "moved w w'"
proof -
  have k: "keeps_keys (\<lambda>j. j\<lparr>is_synced_to_redis := True\<rparr>)" by (simp add: keeps_keys_def)
  show "T w' = (case T w i of
           Some j \<Rightarrow> (T w)(i \<mapsto> j\<lparr>is_synced_to_redis := True\<rparr>) | None \<Rightarrow> T w)"
    "rds (shared w') = rds (shared w)" "moved w w'"
    using assms update_tbl_by_pk [OF k, of i "db (shared w)"]
    by (auto simp: mark_synced_def run_simps run_sql_step moved_def quiet_def
        split: prod.splits option.splits)
qed

lemma wp_mark_synced [wp_intros]:
  assumes "quiet w" and "\<And>w'. quiet w' \<Longrightarrow> rds (shared w') = rds (shared w) \<Longrightarrow>
     clock (shared w') = clock (shared w) \<Longrightarrow>
     T w' = (case T w i of Some j \<Rightarrow> (T w)(i \<mapsto> j\<lparr>is_synced_to_redis := True\<rparr>) | None \<Rightarrow> T w) \<Longrightarrow> Q () w'"
  shows "wp (mark_synced S i) Q w"
proof (rule wpI)
  fix u w' assume r: "run_state (mark_synced S i) w = (u, w')"
  show "Q u w'"
    by (simp, rule assms(2)) (use quiet_mark_synced [OF assms(1) r] in \<open>auto simp: moved_def\<close>)
qed

subsection \<open>Every statement keeps to the life cycle\<close>

lemma guar_reads [guar_intros]:
  "guarantees (lifecycle tbl) (sql_query q)"
  "guarantees (lifecycle tbl) (redis_step c)"
  "guarantees (lifecycle tbl) (redis_query cq)"
  by (auto simp: lifecycle_def intro!: guar_sql_query guar_redis_step guar_redis_query)

lemma guar_update:
  assumes "keeps_keys f" and "\<And>j. g j \<Longrightarrow> row_step j (f j)"
  shows "guarantees (lifecycle tbl) (sql_step (pg_update (sql S) g f))"
  by (rule guar_sql_step)
    (simp add: lifecycle_def update_tbl [OF assms(1)] table_step_update_where [OF assms(2)])

lemma guar_transitions [guar_intros]:
  "guarantees (lifecycle tbl) (claim_job S i)"
  "guarantees (lifecycle tbl) (complete_job S i res pct)"
  "guarantees (lifecycle tbl) (fail_job S i err)"
  "guarantees (lifecycle tbl) (retry_to_pending S i)"
  "guarantees (lifecycle tbl) (retry_to_scheduled S i at)"
  "guarantees (lifecycle tbl) (reset_failed_to_pending S i)"
  "guarantees (lifecycle tbl) (init_progress S i)"
  "guarantees (lifecycle tbl) (cancel_pending_or_scheduled S i)"
  "guarantees (lifecycle tbl) (request_cancel S i)"
  "guarantees (lifecycle tbl) (cancel_job S i summary)"
  by (rule claim.guar_lifecycle complete.guar_lifecycle fail.guar_lifecycle
      retry_now.guar_lifecycle retry_later.guar_lifecycle reset.guar_lifecycle
      init.guar_lifecycle cancel_idle.guar_lifecycle ask_cancel.guar_lifecycle
      cancel_run.guar_lifecycle; auto intro: row_step.intros)+

lemma guar_mark_synced [guar_intros]: "guarantees (lifecycle tbl) (mark_synced S i)"
  unfolding mark_synced_def
  by (intro guar_intros guar_update) (auto simp: keeps_keys_def intro: row_step.sync)

lemma guar_promote_scheduled [guar_intros]:
  "guarantees (lifecycle tbl) (promote_scheduled_to_pending S is)"
  unfolding promote_scheduled_to_pending_def
  by (intro guar_intros guar_update) (auto simp: keeps_keys_def intro: row_step.promote)

lemma guar_queries [guar_intros]:
  "guarantees (lifecycle tbl) (get_job S i uid)"
  "guarantees (lifecycle tbl) (list_unsynced S t n)"
  "guarantees (lifecycle tbl) (get_promotion_info S is)"
  "guarantees (lifecycle tbl) (get_by_idempotency_key S key u)"
  unfolding get_job_def list_unsynced_def get_promotion_info_def get_by_idempotency_key_def
  by (intro guar_intros)+

lemma guar_create_job [guar_intros]:
  assumes "claimable st" and "uid \<noteq> None" and "st = scheduled \<Longrightarrow> sched \<noteq> None"
  shows "guarantees (lifecycle tbl)
           (create_job S i t p st sched prio maxa key hash trace_ctx uid uname)"
proof -
  let ?row = "new_job i t p st sched prio maxa key hash trace_ctx uid uname"
  have "lifecycle tbl s (s\<lparr>db := snd (pg_insert (sql S) ?row (db s))\<rparr>)" for s
  proof (cases "fst (pg_insert (sql S) ?row (db s))")
    case True
    from insert_tbl [OF this] obtain c where c: "tbl (snd (pg_insert (sql S) ?row (db s))) =
        (tbl (db s))(jid ?row \<mapsto> ?row\<lparr>created_at := c\<rparr>)" ..
    have "fresh_row (?row\<lparr>created_at := c\<rparr>)"
      using assms by (simp add: fresh_row_def new_job_def)
    with c True show ?thesis
      by (auto simp: lifecycle_def insert_conflict intro!: table_step_new_row)
  qed (simp add: lifecycle_def insert_failed_tbl)
  then show ?thesis
    unfolding create_job_def by (intro guar_intros guar_sql_step)
qed

end

end
