(* ===== verification/Reference_Backend.thy ===== *)
theory Reference_Backend
  imports Repository
begin

text \<open>
  An executable pair of servers that obeys every law of \<open>backend\<close>: a table kept as a list of rows,
  and streams kept as logs with, per consumer group, how far it has read and what it acknowledged.
  It shows that the laws the other theories assume can hold together, and it is what the concrete
  runs of the later theories are evaluated on.
\<close>

section \<open>The table\<close>

fun ref_rows :: "job list \<Rightarrow> job list" where
  "ref_rows [] = []"
| "ref_rows (j # js) = j # filter (\<lambda>k. jid k \<noteq> jid j \<and> \<not> key_clash j k) (ref_rows js)"

definition ref_tbl :: "job list \<Rightarrow> table" where
  "ref_tbl d = map_of (map (\<lambda>j. (jid j, j)) (ref_rows d))"

definition ref_postgres :: "job list postgres_ops" where
  "ref_postgres = \<lparr>
     pg_insert = (\<lambda>j d. if list_all (\<lambda>k. jid k \<noteq> jid j \<and> \<not> key_clash j k) (ref_rows d)
        then (True, j\<lparr>created_at := int (length d)\<rparr> # ref_rows d) else (False, d)),
     pg_update = (\<lambda>g f d. (length (filter g (ref_rows d)),
        map (\<lambda>j. if g j then f j else j) (ref_rows d))),
     pg_select = (\<lambda>g d. filter g (ref_rows d)),
     pg_select_ordered = (\<lambda>g desc n d. let ys = sort_key row_key (filter g (ref_rows d))
        in take n (if desc then rev ys else ys)) \<rparr>"

definition separate :: "job list \<Rightarrow> bool" where
  "separate js \<longleftrightarrow> distinct (map jid js) \<and>
     (\<forall>a \<in> set js. \<forall>b \<in> set js. key_clash a b \<longrightarrow> jid a = jid b)"

lemma separate_Cons:
  "separate (j # js) \<longleftrightarrow>
     separate js \<and> (\<forall>k \<in> set js. jid k \<noteq> jid j \<and> \<not> key_clash j k)"
proof
  assume l: "separate (j # js)"
  then show "separate js \<and> (\<forall>k \<in> set js. jid k \<noteq> jid j \<and> \<not> key_clash j k)"
    by (auto simp: separate_def) (metis image_eqI)+
next
  assume "separate js \<and> (\<forall>k \<in> set js. jid k \<noteq> jid j \<and> \<not> key_clash j k)"
  moreover then have "\<not> key_clash k j" if "k \<in> set js" for k
    using that key_clash_sym [of k j] by simp
  ultimately show "separate (j # js)" by (auto simp: separate_def)
qed

lemma separate_filter: "separate js \<Longrightarrow> separate (filter P js)"
  by (auto simp: separate_def distinct_map_filter)

lemma separate_rows: "separate (ref_rows d)"
proof (induction d)
  case (Cons j js)
  then show ?case by (auto simp: separate_Cons intro: separate_filter)
qed (simp add: separate_def)

lemma distinct_rows: "distinct (ref_rows d)" "distinct (map jid (ref_rows d))"
  using separate_rows [of d] by (auto simp: separate_def distinct_map)

lemma rows_separate: "separate d \<Longrightarrow> ref_rows d = d"
  by (induction d) (auto simp: separate_Cons filter_id_conv)

lemma rows_rows [simp]: "ref_rows (ref_rows d) = ref_rows d"
  by (rule rows_separate [OF separate_rows])

lemma separate_map:
  assumes "separate js" and "\<And>j. jid (f j) = jid j \<and> user_id (f j) = user_id j
    \<and> idempotency_key (f j) = idempotency_key j"
  shows "separate (map f js)"
proof -
  have "key_clash (f a) (f b) \<longleftrightarrow> key_clash a b" for a b
    by (simp add: key_clash_def assms(2))
  then show ?thesis using assms by (simp add: separate_def comp_def)
qed

lemma ref_tbl_Some: "ref_tbl d i = Some j \<longleftrightarrow> j \<in> set (ref_rows d) \<and> jid j = i"
  using separate_rows [of d] by (simp add: ref_tbl_def separate_def map_of_map_key_eq)

lemma ref_tbl_ran: "ran (ref_tbl d) = set (ref_rows d)"
  by (auto simp: ran_def ref_tbl_Some)

lemma ref_matching: "matching g (ref_tbl d) = set (filter g (ref_rows d))"
  by (auto simp: matching_def ref_tbl_ran)

lemma sort_rows_strict:
  assumes "distinct (map jid js)"
  shows "sorted_wrt (\<lambda>a b. row_key a < row_key b) (sort_key row_key js)"
proof -
  have "distinct (map row_key (sort_key row_key js))"
    using assms by (auto simp: distinct_map inj_on_def)
  moreover have "sorted (map row_key (sort_key row_key js))" by simp
  ultimately have "sorted_wrt (<) (map row_key (sort_key row_key js))"
    by (simp add: strict_sorted_iff)
  then show ?thesis by (simp add: sorted_wrt_map)
qed

lemma ref_update:
  assumes "keeps_keys f"
  shows "ref_tbl (snd (pg_update ref_postgres g f d)) = update_where g f (ref_tbl d)"
proof (rule ext)
  fix i
  let ?u = "\<lambda>j. if g j then f j else j"
  have "separate (map ?u (ref_rows d))"
    by (rule separate_map [OF separate_rows]) (auto simp: keeps_keysD [OF assms])
  then have rows: "ref_rows (map ?u (ref_rows d)) = map ?u (ref_rows d)"
    by (rule rows_separate)
  have jid: "jid (?u j) = jid j" for j using keeps_keysD [OF assms] by simp
  have "map_of (map (\<lambda>j. (jid j, ?u j)) js) i = map_option ?u (map_of (map (\<lambda>j. (jid j, j)) js) i)" for js
    by (induction js) auto
  then show "ref_tbl (snd (pg_update ref_postgres g f d)) i = update_where g f (ref_tbl d) i"
    using jid by (simp add: ref_postgres_def ref_tbl_def rows update_where_def comp_def)
qed

lemma ref_postgres_laws: "postgres ref_postgres ref_tbl"
proof
  show "finite (dom (ref_tbl d))" for d by (simp add: ref_tbl_def finite_dom_map_of)
  show "ref_tbl d i = Some a \<Longrightarrow> ref_tbl d k = Some b \<Longrightarrow> key_clash a b \<Longrightarrow> i = k" for d i k a b
    using separate_rows [of d] by (auto simp: ref_tbl_Some separate_def)
  show "keeps_keys f \<Longrightarrow> ref_tbl (snd (pg_update ref_postgres g f d)) = update_where g f (ref_tbl d)"
    for f g d
    by (rule ref_update)
  show "keeps_keys f \<Longrightarrow> fst (pg_update ref_postgres g f d) = card (matching g (ref_tbl d))" for f g d
    unfolding ref_matching
    by (subst distinct_card) (simp_all add: ref_postgres_def distinct_rows)
  show "fst (pg_insert ref_postgres j d) \<longleftrightarrow>
      ref_tbl d (jid j) = None \<and> (\<forall>j' \<in> ran (ref_tbl d). \<not> key_clash j j')" for j d
    by (auto simp: ref_postgres_def ref_tbl_ran list_all_iff ref_tbl_Some simp flip: not_Some_eq)
  show "fst (pg_insert ref_postgres j d) \<Longrightarrow>
      \<exists>c. ref_tbl (snd (pg_insert ref_postgres j d)) = (ref_tbl d)(jid j \<mapsto> j\<lparr>created_at := c\<rparr>)" for j d
  proof -
    assume "fst (pg_insert ref_postgres j d)"
    then have ok: "\<forall>k \<in> set (ref_rows d). jid k \<noteq> jid j \<and> \<not> key_clash j k"
      by (auto simp: ref_postgres_def list_all_iff split: if_splits)
    have kc: "key_clash (j\<lparr>created_at := c\<rparr>) k = key_clash j k" for c k
      by (simp add: key_clash_def)
    have "ref_rows (snd (pg_insert ref_postgres j d)) = j\<lparr>created_at := int (length d)\<rparr> # ref_rows d"
      using ok by (simp add: ref_postgres_def list_all_iff kc)
    then show ?thesis by (auto simp: ref_tbl_def)
  qed
  show "\<exists>ys. set ys = matching g (ref_tbl d) \<and> sorted_wrt (\<lambda>a b. row_key a < row_key b) ys
      \<and> pg_select_ordered ref_postgres g desc n d = take n (if desc then rev ys else ys)" for g d desc n
    using sort_rows_strict [OF distinct_map_filter [OF distinct_rows(2)], of g d]
    by (intro exI [of _ "sort_key row_key (filter g (ref_rows d))"])
      (simp add: ref_postgres_def ref_matching Let_def)
qed (auto simp: ref_tbl_Some ref_postgres_def ref_matching distinct_rows split: if_splits)

section \<open>Streams and sorted sets\<close>

text \<open>
  A stream is the list of everything ever added; entry number \<open>i\<close> has the identifier \<open>(i + 1, 0)\<close>.
  A group has read a prefix of it and acknowledged some entries. A state in which a group is ahead
  of its stream cannot arise; the operations treat it as the initial state.
\<close>

record ref_redis =
  logs :: "(string \<times> fields list) list"
  readers :: "((string \<times> string) \<times> (nat \<times> entry_id list)) list"
  scores :: "((string \<times> string) \<times> timestamp) list"

definition ref_init :: ref_redis where
  "ref_init = \<lparr>logs = [], readers = [], scores = []\<rparr>"

definition ref_log :: "ref_redis \<Rightarrow> string \<Rightarrow> fields list" where
  "ref_log r s = (case map_of (logs r) s of None \<Rightarrow> [] | Some l \<Rightarrow> l)"

definition ref_ok :: "ref_redis \<Rightarrow> bool" where
  "ref_ok r \<longleftrightarrow> list_all (\<lambda>((s, g), (n, acked)).
     n \<le> length (ref_log r s) \<and> list_all (\<lambda>e. fst e \<le> n) acked) (readers r)"

definition ref_norm :: "ref_redis \<Rightarrow> ref_redis" where
  "ref_norm r = (if ref_ok r then r else ref_init)"

definition ref_entries :: "ref_redis \<Rightarrow> string \<Rightarrow> message list" where
  "ref_entries r s = map (\<lambda>i. ((Suc i, 0), ref_log r s ! i)) [0..<length (ref_log r s)]"

definition ref_group :: "ref_redis \<Rightarrow> string \<Rightarrow> nat \<times> entry_id list \<Rightarrow> group_view" where
  "ref_group r s = (\<lambda>(n, acked). \<lparr>undelivered = drop n (ref_entries r s),
     pel = filter (\<lambda>m. fst m \<notin> set acked) (take n (ref_entries r s))\<rparr>)"

definition ref_raw_view :: "ref_redis \<Rightarrow> redis_view" where
  "ref_raw_view r = \<lparr>groups = (\<lambda>s g. map_option (ref_group r s) (map_of (readers r) (s, g))),
     zset = (\<lambda>k m. map_of (scores r) (k, m))\<rparr>"

definition ref_view :: "ref_redis \<Rightarrow> redis_view" where
  "ref_view r = ref_raw_view (ref_norm r)"

text \<open>Every entry counts as idle for an hour.\<close>

definition ref_idle :: "ref_redis \<Rightarrow> string \<Rightarrow> string \<Rightarrow> entry_id \<Rightarrow> int" where
  "ref_idle r s g i = 3600000"

definition ref_deliver :: "string \<Rightarrow> nat \<Rightarrow> string \<Rightarrow> ref_redis \<Rightarrow> ref_redis" where
  "ref_deliver g n s r = (case map_of (readers r) (s, g) of
     None \<Rightarrow> r
   | Some (k, acked) \<Rightarrow> r\<lparr>readers := dict_set (readers r) (s, g)
       (min (k + n) (length (ref_log r s)), acked)\<rparr>)"

definition ref_xreadgroup :: "string \<Rightarrow> string list \<Rightarrow> nat \<Rightarrow> ref_redis \<Rightarrow> (string \<times> message list) list \<times> ref_redis" where
  "ref_xreadgroup g ss n r =
     (let resp = filter (\<lambda>(s, ms). ms \<noteq> []) (map (\<lambda>s. (s, take n (waiting (ref_raw_view r) s g))) ss)
      in (resp, fold (ref_deliver g n) (map fst resp) r))"

definition ref_xack :: "string \<Rightarrow> string \<Rightarrow> entry_id \<Rightarrow> ref_redis \<Rightarrow> nat \<times> ref_redis" where
  "ref_xack s g i r = (case map_of (readers r) (s, g) of
     None \<Rightarrow> (0, r)
   | Some (k, acked) \<Rightarrow>
       (if fst i \<le> k \<and> i \<notin> set acked then 1 else 0,
        if fst i \<le> k then r\<lparr>readers := dict_set (readers r) (s, g) (k, i # acked)\<rparr> else r))"

definition ref_xautoclaim ::
  "string \<Rightarrow> string \<Rightarrow> int \<Rightarrow> entry_id \<Rightarrow> nat \<Rightarrow> ref_redis \<Rightarrow> (entry_id \<times> message list) \<times> ref_redis" where
  "ref_xautoclaim s g t start n r =
     (let P = filter (\<lambda>m. start \<le> fst m) (in_flight (ref_raw_view r) s g)
      in ((if n < length P then fst (P ! n) else (0, 0),
           filter (\<lambda>m. t \<le> ref_idle r s g (fst m)) (take n P)), r))"

definition ref_due :: "string \<Rightarrow> timestamp \<Rightarrow> timestamp \<Rightarrow> nat \<Rightarrow> ref_redis \<Rightarrow> string list" where
  "ref_due k lo hi n r =
     (let score = (\<lambda>m. map_of (scores r) (k, m));
          ms = remdups (map (\<lambda>p. snd (fst p)) (filter (\<lambda>p. fst (fst p) = k) (scores r)))
      in take n (sort_key (\<lambda>m. the (score m))
           (filter (\<lambda>m. lo \<le> the (score m) \<and> the (score m) \<le> hi) ms)))"

definition ref_redis_ops :: "ref_redis redis_ops" where
  "ref_redis_ops = \<lparr>
     xgroup_create = (\<lambda>s g r. let r = ref_norm r in
        if map_of (readers r) (s, g) = None
        then (True, r\<lparr>readers := dict_set (readers r) (s, g)
                 (length (ref_log r s), map fst (ref_entries r s))\<rparr>) else (False, r)),
     xadd = (\<lambda>s f r. let r = ref_norm r in
        ((Suc (length (ref_log r s)), 0), r\<lparr>logs := dict_set (logs r) s (ref_log r s @ [f])\<rparr>)),
     xreadgroup = (\<lambda>g c ss n b r. ref_xreadgroup g ss n (ref_norm r)),
     xack = (\<lambda>s g i r. ref_xack s g i (ref_norm r)),
     xautoclaim = (\<lambda>s g c t start n r. ref_xautoclaim s g t start n (ref_norm r)),
     zadd = (\<lambda>k m x r. let r = ref_norm r in
        (if map_of (scores r) (k, m) = None then 1 else 0, r\<lparr>scores := dict_set (scores r) (k, m) x\<rparr>)),
     zrem = (\<lambda>k ms r. let r = ref_norm r in
        (length (filter (\<lambda>m. map_of (scores r) (k, m) \<noteq> None) (remdups ms)),
         r\<lparr>scores := filter (\<lambda>p. \<not> (fst (fst p) = k \<and> snd (fst p) \<in> set ms)) (scores r)\<rparr>)),
     zrangebyscore = (\<lambda>k lo hi n r. ref_due k lo hi n (ref_norm r)) \<rparr>"

subsection \<open>The laws\<close>

lemma set_dict_set: "set (dict_set d k v) \<subseteq> insert (k, v) (set d)"
  by (induction d k v rule: dict_set.induct) auto

lemma ref_ok_norm [simp]: "ref_ok (ref_norm r)"
  by (simp add: ref_norm_def ref_ok_def ref_init_def)

lemma ref_norm_ok [simp]: "ref_ok r \<Longrightarrow> ref_norm r = r"
  by (simp add: ref_norm_def)

lemma ref_ok_reader:
  assumes "ref_ok r" and "map_of (readers r) (s, g) = Some (n, acked)"
  shows "n \<le> length (ref_log r s)" and "\<forall>e \<in> set acked. fst e \<le> n"
  using assms(1) map_of_SomeD [OF assms(2)] by (auto simp: ref_ok_def list_all_iff)

lemma ref_log_add [simp]:
  "ref_log (r\<lparr>logs := dict_set (logs r) s l\<rparr>) s' = (if s' = s then l else ref_log r s')"
  by (simp add: ref_log_def)

lemma ref_log_frame [simp]:
  "ref_log (r\<lparr>readers := x\<rparr>) = ref_log r" "ref_log (r\<lparr>scores := y\<rparr>) = ref_log r"
  by (simp_all add: ref_log_def fun_eq_iff)

lemma ref_entries_frame [simp]:
  "ref_entries (r\<lparr>readers := x\<rparr>) = ref_entries r" "ref_entries (r\<lparr>scores := y\<rparr>) = ref_entries r"
  by (simp_all add: ref_entries_def fun_eq_iff)

lemma ref_group_frame [simp]:
  "ref_group (r\<lparr>readers := x\<rparr>) = ref_group r" "ref_group (r\<lparr>scores := y\<rparr>) = ref_group r"
  by (simp_all add: ref_group_def fun_eq_iff)

lemma length_ref_entries [simp]: "length (ref_entries r s) = length (ref_log r s)"
  by (simp add: ref_entries_def)

lemma ref_entries_add:
  "ref_entries (r\<lparr>logs := dict_set (logs r) s (ref_log r s @ [f])\<rparr>) s' =
     (if s' = s then ref_entries r s @ [((Suc (length (ref_log r s)), 0), f)] else ref_entries r s')"
  by (auto simp: ref_entries_def nth_append)

lemma ref_entries_ids: "map fst (ref_entries r s) = map (\<lambda>i. (Suc i, 0)) [0..<length (ref_log r s)]"
  by (simp add: ref_entries_def)

lemma sorted_ref_entries: "sorted_wrt (<) (map fst (ref_entries r s))"
  unfolding ref_entries_ids by (simp add: sorted_wrt_map)

lemma ref_taken_ids: "m \<in> set (take n (ref_entries r s)) \<Longrightarrow> 0 < fst (fst m) \<and> fst (fst m) \<le> n"
  by (auto simp: ref_entries_def in_set_conv_nth)

lemma ref_dropped_ids: "m \<in> set (drop n (ref_entries r s)) \<Longrightarrow> n < fst (fst m)"
  by (auto simp: ref_entries_def in_set_conv_nth)

lemma ref_ok_set_reader:
  assumes "ref_ok r" and "n \<le> length (ref_log r s)" and "\<forall>e \<in> set acked. fst e \<le> n"
  shows "ref_ok (r\<lparr>readers := dict_set (readers r) (s, g) (n, acked)\<rparr>)"
  using assms subsetD [OF set_dict_set [of "readers r" "(s, g)" "(n, acked)"]]
  by (fastforce simp: ref_ok_def list_all_iff)

lemma ref_ok_scores [simp]: "ref_ok (r\<lparr>scores := x\<rparr>) = ref_ok r"
  by (simp add: ref_ok_def)

lemma ref_ok_add: "ref_ok r \<Longrightarrow> ref_ok (r\<lparr>logs := dict_set (logs r) s (ref_log r s @ [f])\<rparr>)"
  by (force simp: ref_ok_def list_all_iff)

lemma ref_ok_deliver: "ref_ok r \<Longrightarrow> ref_ok (ref_deliver g n s r)"
  using ref_ok_reader
  by (fastforce simp: ref_deliver_def intro!: ref_ok_set_reader split: option.splits)

lemma ref_ok_xack: "ref_ok r \<Longrightarrow> ref_ok (snd (ref_xack s g i r))"
  using ref_ok_reader
  by (fastforce simp: ref_xack_def intro!: ref_ok_set_reader split: option.splits)

lemma ref_ok_fold_deliver: "ref_ok r \<Longrightarrow> ref_ok (fold (ref_deliver g n) ss r)"
  by (induction ss arbitrary: r) (auto intro: ref_ok_deliver)

lemma raw_view_set_reader:
  "ref_raw_view (r\<lparr>readers := dict_set (readers r) (s, g) x\<rparr>) =
     (ref_raw_view r)\<lparr>groups := (groups (ref_raw_view r))(s := (groups (ref_raw_view r) s)(g \<mapsto> ref_group r s x))\<rparr>"
  by (auto simp: ref_raw_view_def fun_eq_iff)

lemma raw_view_deliver:
  assumes "ref_ok r"
  shows "ref_raw_view (ref_deliver g n s r) = deliver g n s (ref_raw_view r)"
proof (cases "map_of (readers r) (s, g)")
  case None
  then show ?thesis by (auto simp: ref_deliver_def ref_raw_view_def deliver_def map_group_def fun_eq_iff)
next
  case (Some x)
  obtain k acked where x: "x = (k, acked)" by fastforce
  note ok = ref_ok_reader [OF assms Some [unfolded x]]
  have split: "take (min (k + n) (length (ref_log r s))) (ref_entries r s) =
      take k (ref_entries r s) @ take n (drop k (ref_entries r s))"
    by (simp add: min_def flip: take_add)
  have rest: "drop (min (k + n) (length (ref_log r s))) (ref_entries r s) = drop n (drop k (ref_entries r s))"
    by (simp add: min_def add.commute)
  have "filter (\<lambda>m. fst m \<notin> set acked) (take n (drop k (ref_entries r s))) = take n (drop k (ref_entries r s))"
  proof (rule filter_True, rule ballI, rule notI)
    fix m assume "m \<in> set (take n (drop k (ref_entries r s)))" and "fst m \<in> set acked"
    then have "k < fst (fst m)" and "fst (fst m) \<le> k"
      using ok(2) ref_dropped_ids [OF in_set_takeD] by blast+
    then show False by simp
  qed
  then have "ref_group r s (min (k + n) (length (ref_log r s)), acked) =
      (ref_group r s (k, acked))\<lparr>undelivered := drop n (drop k (ref_entries r s)),
        pel := pel (ref_group r s (k, acked)) @ take n (drop k (ref_entries r s))\<rparr>"
    by (simp add: ref_group_def split rest)
  then show ?thesis
    using Some unfolding x
    by (auto simp: ref_deliver_def raw_view_set_reader deliver_def map_group_def ref_raw_view_def
        ref_group_def fun_eq_iff)
qed

lemma raw_view_fold_deliver:
  "ref_ok r \<Longrightarrow> ref_raw_view (fold (ref_deliver g n) ss r) = fold (deliver g n) ss (ref_raw_view r)"
  by (induction ss arbitrary: r) (auto simp: ref_ok_deliver raw_view_deliver)

lemma raw_view_xack:
  assumes "ref_ok r"
  shows "ref_raw_view (snd (ref_xack s g i r)) = ack_entry s g i (ref_raw_view r)"
proof (cases "map_of (readers r) (s, g)")
  case None
  then show ?thesis by (auto simp: ref_xack_def ref_raw_view_def ack_entry_def map_group_def fun_eq_iff)
next
  case (Some x)
  obtain k acked where x: "x = (k, acked)" by fastforce
  have "filter (\<lambda>e. fst e \<noteq> i) (take k (ref_entries r s)) = take k (ref_entries r s)" if "\<not> fst i \<le> k"
    using that ref_taken_ids [of _ k r s] by (force simp: filter_id_conv)
  then have "filter (\<lambda>e. fst e \<noteq> i \<and> fst e \<notin> set acked) (take k (ref_entries r s)) =
      filter (\<lambda>e. fst e \<notin> set acked) (take k (ref_entries r s))" if "\<not> fst i \<le> k"
    using that by (metis (no_types, lifting) filter_filter filter_cong)
  then show ?thesis
    using Some unfolding x
    by (auto simp: ref_xack_def raw_view_set_reader ack_entry_def map_group_def ref_raw_view_def
        ref_group_def fun_eq_iff conj_commute)
qed

lemma raw_view_add:
  assumes "ref_ok r"
  shows "ref_raw_view (r\<lparr>logs := dict_set (logs r) s (ref_log r s @ [f])\<rparr>) =
    add_entry s ((Suc (length (ref_log r s)), 0), f) (ref_raw_view r)"
proof -
  have "map_option (ref_group (r\<lparr>logs := dict_set (logs r) s (ref_log r s @ [f])\<rparr>) s')
        (map_of (readers r) (s', g)) =
      (if s' = s then map_option (\<lambda>gv. gv\<lparr>undelivered := undelivered gv @ [((Suc (length (ref_log r s)), 0), f)]\<rparr>)
         (map_option (ref_group r s') (map_of (readers r) (s', g)))
       else map_option (ref_group r s') (map_of (readers r) (s', g)))" for s' g
    using ref_ok_reader [OF assms, of s' g]
    by (cases "map_of (readers r) (s', g)") (auto simp: ref_group_def ref_entries_add)
  then show ?thesis by (simp add: ref_raw_view_def add_entry_def fun_eq_iff)
qed

lemma ref_group_order:
  assumes "n \<le> length (ref_log r s)"
  shows "sorted_wrt (<) (map fst (pel (ref_group r s (n, acked)) @ undelivered (ref_group r s (n, acked))))"
proof -
  let ?es = "ref_entries r s"
  have "sorted_wrt (\<lambda>a b. fst a < fst b) (take n ?es @ drop n ?es)"
    using sorted_ref_entries [of r s] by (simp add: sorted_wrt_map)
  then have "sorted_wrt (\<lambda>a b. fst a < fst b) (filter (\<lambda>m. fst m \<notin> set acked) (take n ?es) @ drop n ?es)"
    unfolding sorted_wrt_append by (auto intro: sorted_wrt_filter)
  then show ?thesis by (simp add: ref_group_def sorted_wrt_map sorted_wrt_append)
qed

lemma ref_due_spec:
  "\<exists>ys. distinct ys \<and> set ys = due_members (zset (ref_raw_view r) k) lo hi
     \<and> sorted_wrt (\<lambda>a b. the (zset (ref_raw_view r) k a) \<le> the (zset (ref_raw_view r) k b)) ys
     \<and> ref_due k lo hi n r = take n ys"
proof -
  let ?score = "\<lambda>m. map_of (scores r) (k, m)"
  let ?ms = "remdups (map (\<lambda>p. snd (fst p)) (filter (\<lambda>p. fst (fst p) = k) (scores r)))"
  let ?ys = "sort_key (\<lambda>m. the (?score m)) (filter (\<lambda>m. lo \<le> the (?score m) \<and> the (?score m) \<le> hi) ?ms)"
  have "m \<in> set ?ms \<longleftrightarrow> ?score m \<noteq> None" for m
    by (force simp: map_of_eq_None_iff image_iff)
  then have "set ?ys = due_members (zset (ref_raw_view r) k) lo hi"
    by (auto simp: ref_raw_view_def due_members_def)
  moreover have "sorted (map (\<lambda>m. the (?score m)) ?ys)" by simp
  ultimately show ?thesis
    by (intro exI [of _ ?ys]) (simp add: ref_due_def Let_def ref_raw_view_def sorted_map)
qed

lemma ref_view_simps:
  "group_exists (ref_view r) s g \<longleftrightarrow> map_of (readers (ref_norm r)) (s, g) \<noteq> None"
  "group_exists (ref_raw_view r) s g \<longleftrightarrow> map_of (readers r) (s, g) \<noteq> None"
  by (simp_all add: group_exists_def ref_view_def ref_raw_view_def)

lemma map_of_filter_keys: "map_of (filter (\<lambda>p. P (fst p)) xs) k = (if P k then map_of xs k else None)"
  by (induction xs) auto

lemma ref_view_create:
  "ref_view (snd (xgroup_create ref_redis_ops s g r)) =
     (if group_exists (ref_view r) s g then ref_view r else open_group s g (ref_view r))"
proof (cases "map_of (readers (ref_norm r)) (s, g)")
  case None
  let ?r = "ref_norm r"
  have "ref_group ?r s (length (ref_log ?r s), map fst (ref_entries ?r s)) = \<lparr>undelivered = [], pel = []\<rparr>"
    by (simp add: ref_group_def)
  moreover have "\<forall>e \<in> set (map fst (ref_entries ?r s)). fst e \<le> length (ref_log ?r s)"
    unfolding ref_entries_ids by auto
  ultimately show ?thesis
    using None by (simp add: ref_redis_ops_def Let_def ref_view_simps ref_view_def
        ref_ok_set_reader raw_view_set_reader open_group_def)
qed (simp add: ref_redis_ops_def Let_def ref_view_simps ref_view_def)

lemma ref_resp:
  "fst (xreadgroup ref_redis_ops g c ss n b r) =
     filter (\<lambda>(s, ms). ms \<noteq> []) (map (\<lambda>s. (s, take n (waiting (ref_view r) s g))) ss)"
  by (simp add: ref_redis_ops_def ref_xreadgroup_def Let_def ref_view_def)

lemma subseq_resp: "subseq (map fst (filter P (map (\<lambda>s. (s, f s)) ss))) ss"
  by (induction ss) (auto)

lemma ref_scan:
  assumes "0 < n"
  shows "\<exists>q. let P = filter (\<lambda>m. start \<le> fst m) (in_flight (ref_view r) s g);
                 res = fst (xautoclaim ref_redis_ops s g c t start n r)
             in (P \<noteq> [] \<longrightarrow> 0 < q)
                \<and> snd res = filter (\<lambda>m. t \<le> ref_idle r s g (fst m)) (take q P)
                \<and> fst res = (if q < length P then fst (P ! q) else (0, 0))"
  using assms by (intro exI [of _ n])
    (simp add: ref_redis_ops_def ref_xautoclaim_def Let_def ref_view_def ref_idle_def)

lemma ref_due_view:
  "\<exists>ys. distinct ys \<and> set ys = due_members (zset (ref_view r) k) lo hi
     \<and> sorted_wrt (\<lambda>a b. the (zset (ref_view r) k a) \<le> the (zset (ref_view r) k b)) ys
     \<and> zrangebyscore ref_redis_ops k lo hi n r = take n ys"
  using ref_due_spec [of "ref_norm r"] by (simp add: ref_redis_ops_def ref_view_def)

lemma ref_redis_laws: "redis_server ref_redis_ops ref_view ref_idle"
proof
  fix r s g gv e
  assume gv: "groups (ref_view r) s g = Some gv"
  then obtain n acked where x: "map_of (readers (ref_norm r)) (s, g) = Some (n, acked)"
      "gv = ref_group (ref_norm r) s (n, acked)"
    by (auto simp: ref_view_def ref_raw_view_def)
  then show "sorted_wrt (<) (map fst (pel gv @ undelivered gv))"
    using ref_group_order ref_ok_reader [OF ref_ok_norm] by blast
  show "e \<in> set (pel gv) \<Longrightarrow> (0, 0) < fst e"
    using x ref_taken_ids [of e n "ref_norm r" s]
    by (cases "fst e") (auto simp: ref_group_def less_prod_def)
next
  fix r s g f c ss n b i k m x ms
  show "fst (xgroup_create ref_redis_ops s g r) \<longleftrightarrow> \<not> group_exists (ref_view r) s g"
    by (simp add: ref_redis_ops_def Let_def ref_view_simps)
  show "ref_view (snd (xadd ref_redis_ops s f r)) = add_entry s (fst (xadd ref_redis_ops s f r), f) (ref_view r)"
    by (simp add: ref_redis_ops_def Let_def ref_view_def ref_ok_add raw_view_add)
  show "subseq (map fst (fst (xreadgroup ref_redis_ops g c ss n b r))) ss"
    unfolding ref_resp by (rule subseq_resp)
  show "(s, ms) \<in> set (fst (xreadgroup ref_redis_ops g c ss n b r)) \<Longrightarrow>
      ms = take n (waiting (ref_view r) s g) \<and> ms \<noteq> []"
    unfolding ref_resp by auto
  show "s \<in> set ss \<Longrightarrow> waiting (ref_view r) s g \<noteq> [] \<Longrightarrow> 0 < n \<Longrightarrow>
      fst (xreadgroup ref_redis_ops g c ss n b r) \<noteq> []"
    unfolding ref_resp by (auto simp: filter_empty_conv)
  show "ref_view (snd (xreadgroup ref_redis_ops g c ss n b r)) =
      fold (deliver g n) (map fst (fst (xreadgroup ref_redis_ops g c ss n b r))) (ref_view r)"
    by (simp add: ref_redis_ops_def ref_xreadgroup_def Let_def ref_view_def ref_ok_fold_deliver
        raw_view_fold_deliver)
  show "ref_view (snd (xack ref_redis_ops s g i r)) = ack_entry s g i (ref_view r)"
    by (simp add: ref_redis_ops_def ref_view_def ref_ok_xack raw_view_xack)
  show "ref_view (snd (zadd ref_redis_ops k m x r)) = set_score k m x (ref_view r)"
    by (auto simp: ref_redis_ops_def Let_def ref_view_def ref_raw_view_def set_score_def fun_eq_iff)
  show "ref_view (snd (zrem ref_redis_ops k ss r)) = drop_scores k ss (ref_view r)"
    by (auto simp: ref_redis_ops_def Let_def ref_view_def ref_raw_view_def drop_scores_def fun_eq_iff
        map_of_filter_keys [of "\<lambda>p. fst p = k \<longrightarrow> snd p \<notin> set ss"])
  show "ref_view (snd (xautoclaim ref_redis_ops s g c x i n r)) = ref_view r"
    by (simp add: ref_redis_ops_def ref_xautoclaim_def Let_def ref_view_def)
qed (rule ref_view_create, (rule ref_scan, assumption), rule ref_due_view)

section \<open>The reference backend\<close>

definition ref_services :: "(job list, ref_redis) services" where
  "ref_services = \<lparr>sql = ref_postgres, redis = ref_redis_ops, inject = (\<lambda>_ _ _ fs. fs)\<rparr>"

lemma ref_backend: "backend ref_services ref_tbl ref_view ref_idle"
  using ref_postgres_laws ref_redis_laws
  by (simp add: backend_def backend_axioms_def ref_services_def)

interpretation ref: backend ref_services ref_tbl ref_view ref_idle
  by (rule ref_backend)

definition ref_world :: "job list \<Rightarrow> ref_redis \<Rightarrow> timestamp \<Rightarrow> (job list, ref_redis) world" where
  "ref_world d r t = \<lparr>shared = \<lparr>db = d, rds = r, clock = t\<rparr>, script = [], trace = []\<rparr>"

lemma ref_world_simps [simp]:
  "quiet (ref_world d r t)" "db (shared (ref_world d r t)) = d"
  "rds (shared (ref_world d r t)) = r" "clock (shared (ref_world d r t)) = t"
  by (simp_all add: ref_world_def quiet_def)

text \<open>A small world: one report job of one user, and the consumer groups of the default streams.\<close>

definition sample_job :: "JobStatus \<Rightarrow> job" where
  "sample_job st = new_job 7 report (JDict [(''report_type'', JStr ''sales'')]) st None normal 4
     None None None (Some 1) (Some ''ann'')"

definition sample_redis :: ref_redis where
  "sample_redis = \<lparr>logs = [], readers = [((''jobs:stream:high'', ''workers''), (0, [])),
     ((''jobs:stream:normal'', ''workers''), (0, [])), ((''jobs:stream:low'', ''workers''), (0, []))],
     scores = []\<rparr>"

definition sample_world :: "job list \<Rightarrow> (job list, ref_redis) world" where
  "sample_world d = ref_world d sample_redis 1000000000"

definition sample_cfg :: settings where
  "sample_cfg = default_settings ''postgresql://db'' ''redis://queue''"

lemma sample_simps [simp]:
  "quiet (sample_world d)" "db (shared (sample_world d)) = d"
  "clock (shared (sample_world d)) = 1000000000" "rds (shared (sample_world d)) = sample_redis"
  "ref_tbl [j] (jid j) = Some j"
  by (simp_all add: sample_world_def ref_tbl_def)

lemma sample_job_simps [simp]:
  "jid (sample_job st) = 7" "user_id (sample_job st) = Some 1" "jtype (sample_job st) = report"
  "status (sample_job st) = st" "priority (sample_job st) = normal" "attempts (sample_job st) = 0"
  "max_attempts (sample_job st) = 4" "cancel_requested_at (sample_job st) = None"
  "is_synced_to_redis (sample_job st) = False" "scheduled_at (sample_job st) = None"
  "created_at (sample_job st) = 0" "payload (sample_job st) = JDict [(''report_type'', JStr ''sales'')]"
  "idempotency_key (sample_job st) = None" "trace_context (sample_job st) = None"
  by (simp_all add: sample_job_def new_job_def)

lemma sample_cfg_simps [simp]:
  "retry_backoff_schedule sample_cfg = [0, 30, 120]" "job_handler_timeout_us sample_cfg = 45000000"
  "consumer_group sample_cfg = ''workers''" "delayed_zset sample_cfg = ''jobs:delayed''"
  "stream_high sample_cfg = ''jobs:stream:high''" "stream_normal sample_cfg = ''jobs:stream:normal''"
  "stream_low sample_cfg = ''jobs:stream:low''" "reconcile_grace_us sample_cfg = 10000000"
  "reconcile_batch_size sample_cfg = 500" "reaper_batch_size sample_cfg = 100"
  "ticker_batch_size sample_cfg = 100" "settings_max_attempts sample_cfg = 4"
  "visibility_timeout_us sample_cfg = 60000000"
  by (simp_all add: sample_cfg_def default_settings_def)

lemma sample_row [simp]: "ref_tbl [sample_job st] 7 = Some (sample_job st)"
  using sample_simps(5) [of "sample_job st"] by simp

end
