(* ===== verification/Queue.thy ===== *)
theory Queue
  imports Reference_Backend
begin

text \<open>
  \<open>app/queue\<close>: the producer (\<open>producer.py\<close>), the consumer (\<open>consumer.py\<close>) and the sorted set of
  delayed jobs (\<open>delayed.py\<close>). The span around a message is telemetry; what it leaves in the
  message is the propagator's contribution, the parameter \<open>inject\<close>.
\<close>

section \<open>Producer\<close>

definition message_fields :: "('d, 'r) services \<Rightarrow> string \<Rightarrow> string \<Rightarrow> json option \<Rightarrow> fields" where
  "message_fields S stream job_id carrier = inject S stream job_id carrier [(''job_id'', job_id)]"

definition enqueue ::
  "('d, 'r) services \<Rightarrow> string \<Rightarrow> string \<Rightarrow> json option \<Rightarrow> ('d, 'r, entry_id) io" where
  "enqueue S stream job_id carrier =
     redis_step (xadd (redis S) stream (message_fields S stream job_id carrier))"

section \<open>Consumer\<close>

definition REAPER_NAME :: string where
  "REAPER_NAME = ''reaper''"

text \<open>The reply \<open>BUSYGROUP\<close> (the group is already there) is swallowed.\<close>

definition ensure_group :: "('d, 'r) services \<Rightarrow> string \<Rightarrow> string \<Rightarrow> ('d, 'r, unit) io" where
  "ensure_group S stream grp = do {
     _ \<leftarrow> redis_step (xgroup_create (redis S) stream grp);
     return ()
   }"

definition ack :: "('d, 'r) services \<Rightarrow> string \<Rightarrow> string \<Rightarrow> entry_id \<Rightarrow> ('d, 'r, unit) io" where
  "ack S stream grp message_id = do {
     _ \<leftarrow> redis_step (xack (redis S) stream grp message_id);
     return ()
   }"

type_synonym delivery = "string \<times> entry_id \<times> fields"

definition flatten :: "(string \<times> message list) list \<Rightarrow> delivery list" where
  "flatten resp = concat (map (\<lambda>(stream, messages). map (\<lambda>(i, fs). (stream, i, fs)) messages) resp)"

text \<open>The keys of \<open>{stream: ">" for stream in streams}\<close>.\<close>

definition stream_dict :: "string list \<Rightarrow> (string \<times> string) list" where
  "stream_dict streams = fold (\<lambda>s d. dict_set d s ''>'') streams []"

fun probe_streams ::
  "('d, 'r) services \<Rightarrow> string list \<Rightarrow> string \<Rightarrow> string \<Rightarrow> nat \<Rightarrow> ('d, 'r, delivery list) io" where
  "probe_streams S [] grp consumer count = return []"
| "probe_streams S (stream # streams) grp consumer count = do {
     resp \<leftarrow> redis_step (xreadgroup (redis S) grp consumer [stream] count None);
     let msgs = flatten resp;
     if msgs \<noteq> [] then return msgs else probe_streams S streams grp consumer count
   }"

definition read_priority ::
  "('d, 'r) services \<Rightarrow> string list \<Rightarrow> string \<Rightarrow> string \<Rightarrow> int \<Rightarrow> nat \<Rightarrow> ('d, 'r, delivery list) io" where
  "read_priority S streams grp consumer blk count = do {
     msgs \<leftarrow> probe_streams S streams grp consumer count;
     if msgs \<noteq> [] then return msgs
     else do {
       resp \<leftarrow> redis_step (xreadgroup (redis S) grp consumer (map fst (stream_dict streams)) count (Some blk));
       return (flatten resp)
     }
   }"

text \<open>\<open>UUID(fields["job_id"])\<close>, with the errors the code treats as a poison message.\<close>

definition message_job_uuid :: "fields \<Rightarrow> py_error + uuid" where
  "message_job_uuid fs = (case dict_item fs ''job_id'' of Inl e \<Rightarrow> Inl e | Inr s \<Rightarrow> parse_uuid s)"

section \<open>Delayed jobs\<close>

definition schedule ::
  "('d, 'r) services \<Rightarrow> string \<Rightarrow> string \<Rightarrow> timestamp \<Rightarrow> ('d, 'r, unit) io" where
  "schedule S zset_key job_id score = do {
     _ \<leftarrow> redis_step (zadd (redis S) zset_key job_id score);
     return ()
   }"

definition due_job_ids ::
  "('d, 'r) services \<Rightarrow> string \<Rightarrow> timestamp \<Rightarrow> nat \<Rightarrow> ('d, 'r, string list) io" where
  "due_job_ids S zset_key now_epoch lim =
     redis_query (zrangebyscore (redis S) zset_key 0 now_epoch lim)"

text \<open>The pipeline is not a transaction: every \<open>XADD\<close> is a step of its own.\<close>

definition promote ::
  "('d, 'r) services \<Rightarrow> string \<Rightarrow> (string \<times> fields) list \<Rightarrow> string list \<Rightarrow> ('d, 'r, unit) io" where
  "promote S zset_key routed all_ids =
     (if all_ids = [] then return ()
      else do {
        foreach routed (\<lambda>(stream, fs). do { _ \<leftarrow> redis_step (xadd (redis S) stream fs); return () });
        _ \<leftarrow> redis_step (zrem (redis S) zset_key all_ids);
        return ()
      })"

section \<open>Lemmas\<close>

text \<open>
  Undisturbed, a read serves the first stream in the given order that has an entry, and no other.
\<close>

definition served :: "string list \<Rightarrow> string \<Rightarrow> nat \<Rightarrow> redis_view \<Rightarrow> delivery list \<times> redis_view" where
  "served ss g n v = (case find (\<lambda>s. waiting v s g \<noteq> []) ss of
     None \<Rightarrow> ([], v)
   | Some s \<Rightarrow> (map (\<lambda>(i, fs). (s, i, fs)) (take n (waiting v s g)), deliver g n s v))"

lemma flatten_simps [simp]:
  "flatten [] = []"
  "flatten ((s, ms) # resp) = map (\<lambda>(i, fs). (s, i, fs)) ms @ flatten resp"
  by (simp_all add: flatten_def)

lemma set_subseq: "subseq xs ys \<Longrightarrow> set xs \<subseteq> set ys"
  by (meson subseq_order.trans subseq_singleton_left subsetI)

lemma keys_stream_dict [simp]: "fst ` set (stream_dict streams) = set streams"
proof -
  have "fst ` set (fold (\<lambda>s d. dict_set d s ''>'') streams d) = fst ` set d \<union> set streams" for d
    by (induction streams arbitrary: d) auto
  then show ?thesis by (simp add: stream_dict_def)
qed

lemma stream_dict_distinct: "distinct streams \<Longrightarrow> map fst (stream_dict streams) = streams"
proof -
  have snoc: "k \<notin> fst ` set d \<Longrightarrow> map fst (dict_set d k v) = map fst d @ [k]"
    for d :: "(string \<times> string) list" and k v
    by (induction d k v rule: dict_set.induct) auto
  have "distinct streams \<Longrightarrow> set streams \<inter> fst ` set d = {} \<Longrightarrow>
      map fst (fold (\<lambda>s d. dict_set d s ''>'') streams d) = map fst d @ streams" for d
    by (induction streams arbitrary: d) (auto simp: snoc)
  from this [of "[]"] show "distinct streams \<Longrightarrow> map fst (stream_dict streams) = streams"
    by (simp add: stream_dict_def)
qed

context backend
begin

lemma message_job_id [simp]: "map_of (message_fields S s i c) ''job_id'' = Some i"
  by (simp add: message_fields_def inject_job_id)

text \<open>What an undisturbed call of each operation leaves in Redis.\<close>

lemma wp_enqueue [wp_intros]:
  assumes "quiet w" and "\<And>w' i. quiet w' \<Longrightarrow> db (shared w') = db (shared w) \<Longrightarrow>
     clock (shared w') = clock (shared w) \<Longrightarrow>
     V w' = add_entry s (i, message_fields S s m c) (V w) \<Longrightarrow> Q i w'"
  shows "wp (enqueue S s m c) Q w"
  unfolding enqueue_def by (rule wp_redis_step [OF assms(1)]) (simp add: assms(2))

lemma wp_ack [wp_intros]:
  assumes "quiet w" and "\<And>w'. quiet w' \<Longrightarrow> db (shared w') = db (shared w) \<Longrightarrow>
     clock (shared w') = clock (shared w) \<Longrightarrow> V w' = ack_entry s g m (V w) \<Longrightarrow> Q () w'"
  shows "wp (ack S s g m) Q w"
  unfolding ack_def by (intro wp_intros assms) simp_all

lemma wp_ensure_group [wp_intros]:
  assumes "quiet w" and "\<And>w'. quiet w' \<Longrightarrow> db (shared w') = db (shared w) \<Longrightarrow>
     clock (shared w') = clock (shared w) \<Longrightarrow>
     V w' = (if group_exists (V w) s g then V w else open_group s g (V w)) \<Longrightarrow> Q () w'"
  shows "wp (ensure_group S s g) Q w"
  unfolding ensure_group_def by (intro wp_intros assms) simp_all

lemma wp_schedule [wp_intros]:
  assumes "quiet w" and "\<And>w'. quiet w' \<Longrightarrow> db (shared w') = db (shared w) \<Longrightarrow>
     clock (shared w') = clock (shared w) \<Longrightarrow> V w' = set_score k m x (V w) \<Longrightarrow> Q () w'"
  shows "wp (schedule S k m x) Q w"
  unfolding schedule_def by (intro wp_intros assms) simp_all

lemma wp_promote [wp_intros]:
  assumes "quiet w" and "ids = [] \<Longrightarrow> Q () w"
    and "\<And>w' es. ids \<noteq> [] \<Longrightarrow> quiet w' \<Longrightarrow> db (shared w') = db (shared w) \<Longrightarrow>
     clock (shared w') = clock (shared w) \<Longrightarrow> map (\<lambda>(s, m). (s, snd m)) es = routed \<Longrightarrow>
     V w' = drop_scores k ids (fold (\<lambda>(s, m). add_entry s m) es (V w)) \<Longrightarrow> Q () w'"
  shows "wp (promote S k routed ids) Q w"
proof (cases "ids = []")
  case False
  have "wp (foreach routed (\<lambda>(stream, fs). do { _ \<leftarrow> redis_step (xadd (redis S) stream fs); return () }))
     (\<lambda>_ w'. quiet w' \<and> db (shared w') = db (shared w) \<and> clock (shared w') = clock (shared w) \<and>
        (\<exists>es. map (\<lambda>(s, m). (s, snd m)) es = routed \<and> V w' = fold (\<lambda>(s, m). add_entry s m) es (V w))) w"
    using assms(1)
  proof (induction routed arbitrary: w)
    case (Cons r routed)
    obtain s f where r: "r = (s, f)" by fastforce
    show ?case
      unfolding foreach.simps r prod.case
    proof (intro wp_intros Cons.prems)
      fix w1 :: "('d, 'r) world"
      assume w1: "quiet w1" "db (shared w1) = db (shared w)" "clock (shared w1) = clock (shared w)"
        "rds (shared w1) = snd (xadd (redis S) s f (rds (shared w)))"
      then have v: "V w1 = add_entry s (fst (xadd (redis S) s f (rds (shared w))), f) (V w)" by simp
      show "wp (foreach routed (\<lambda>(stream, fs). do { _ \<leftarrow> redis_step (xadd (redis S) stream fs); return () }))
         (\<lambda>_ w'. quiet w' \<and> db (shared w') = db (shared w) \<and> clock (shared w') = clock (shared w) \<and>
          (\<exists>es. map (\<lambda>(s, m). (s, snd m)) es = (s, f) # routed
             \<and> V w' = fold (\<lambda>(s, m). add_entry s m) es (V w))) w1"
        by (rule wp_conseq [OF Cons.IH [OF w1(1)]], elim conjE exE, intro conjI)
          (use w1 in simp_all, rule_tac x = "(s, (fst (xadd (redis S) s f (rds (shared w))), f)) # es" in exI,
           use v in simp)
    qed
  qed (simp add: wp_return)
  then show ?thesis
    unfolding promote_def if_not_P [OF False]
    by (intro wp_bind, elim wp_conseq, intro wp_intros) (auto intro!: assms(3) [OF False])
qed (simp add: promote_def assms wp_return)

text \<open>None of these operations touches the table.\<close>

lemma guar_queue [guar_intros]:
  "guarantees (lifecycle tbl) (enqueue S s m c)"
  "guarantees (lifecycle tbl) (ensure_group S s g)"
  "guarantees (lifecycle tbl) (ack S s g e)"
  "guarantees (lifecycle tbl) (schedule S k m x)"
  "guarantees (lifecycle tbl) (due_job_ids S k x n)"
  "guarantees (lifecycle tbl) (promote S k routed ids)"
  unfolding enqueue_def ensure_group_def ack_def schedule_def due_job_ids_def promote_def
  by (intro guar_intros)+

text \<open>The identifier the producer wrote, whatever the propagator added, is the one the worker and the reaper read.\<close>

lemma message_uuid: "message_job_uuid (message_fields S s (uuid_str i) carrier) = Inr i"
  using message_job_id [of s "uuid_str i" carrier] by (simp add: message_job_uuid_def dict_item_def parse_uuid_str)

lemma guar_read_priority [guar_intros]:
  "guarantees (lifecycle tbl) (read_priority S ss g c b n)"
proof -
  have "guarantees (lifecycle tbl) (probe_streams S ss g c n)"
    by (induction ss) (auto intro: guar_intros)
  then show ?thesis unfolding read_priority_def by (intro guar_intros)
qed

lemma wp_probe_streams:
  assumes "quiet w" and "0 < n"
  shows "wp (probe_streams S ss g c n) (\<lambda>msgs w'. quiet w' \<and> db (shared w') = db (shared w)
    \<and> clock (shared w') = clock (shared w) \<and> (msgs, V w') = served ss g n (V w)) w"
  using assms(1)
proof (induction ss arbitrary: w)
  case Nil
  then show ?case by (simp add: wp_return served_def)
next
  case (Cons s ss)
  note single = xreadgroup_single [OF assms(2), of g c s None "rds (shared w)"]
    xreadgroup_view [of g c "[s]" n None "rds (shared w)"]
  show ?case
    unfolding probe_streams.simps
  proof (intro wp_intros Cons.prems)
    fix w1 msgs
    assume w1: "quiet w1" "db (shared w1) = db (shared w)" "clock (shared w1) = clock (shared w)"
      "rds (shared w1) = snd (xreadgroup (redis S) g c [s] n None (rds (shared w)))"
      and msgs: "msgs = flatten (fst (xreadgroup (redis S) g c [s] n None (rds (shared w))))"
    show "quiet w1 \<and> db (shared w1) = db (shared w) \<and> clock (shared w1) = clock (shared w)
        \<and> (msgs, V w1) = served (s # ss) g n (V w)" if "msgs \<noteq> []"
      using that w1 msgs single by (auto simp: served_def split: if_splits)
    show "wp (probe_streams S ss g c n) (\<lambda>msgs w'. quiet w' \<and> db (shared w') = db (shared w)
        \<and> clock (shared w') = clock (shared w) \<and> (msgs, V w') = served (s # ss) g n (V w)) w1"
      if "\<not> msgs \<noteq> []"
    proof (rule wp_conseq [OF Cons.IH [OF w1(1)]])
      have "waiting (V w) s g = []" "V w1 = V w"
        using that w1 msgs single assms(2) by (auto split: if_splits)
      then show "quiet w' \<and> db (shared w') = db (shared w) \<and> clock (shared w') = clock (shared w)
          \<and> (a, V w') = served (s # ss) g n (V w)"
        if "quiet w' \<and> db (shared w') = db (shared w1) \<and> clock (shared w') = clock (shared w1)
          \<and> (a, V w') = served ss g n (V w1)" for a w'
        using that w1 by (simp add: served_def)
    qed
  qed
qed

lemma idle_read_is_empty:
  assumes "\<forall>s \<in> set ss. waiting (view r) s g = []"
  shows "fst (xreadgroup (redis S) g c (map fst (stream_dict ss)) n b r) = []"
proof (rule ccontr)
  let ?resp = "fst (xreadgroup (redis S) g c (map fst (stream_dict ss)) n b r)"
  assume "?resp \<noteq> []"
  then obtain s ms where m: "(s, ms) \<in> set ?resp" by (cases ?resp) auto
  then have "s \<in> fst ` set ?resp" by force
  then have "s \<in> set ss"
    using set_subseq [OF xreadgroup_streams [of g c "map fst (stream_dict ss)" n b r]] by auto
  with assms have "waiting (view r) s g = []" by blast
  with xreadgroup_messages [OF m] show False by simp
qed

lemma wp_read_priority:
  assumes "quiet w" and "0 < n"
  shows "wp (read_priority S ss g c b n) (\<lambda>msgs w'. quiet w' \<and> db (shared w') = db (shared w)
    \<and> clock (shared w') = clock (shared w) \<and> (msgs, V w') = served ss g n (V w)) w"
  unfolding read_priority_def
proof (intro wp_bind, rule wp_conseq [OF wp_probe_streams [OF assms]], elim conjE, intro wp_intros)
  fix msgs w1 w2
  assume w1: "quiet w1" "(msgs, V w1) = served ss g n (V w)" "\<not> msgs \<noteq> []"
  then have none: "find (\<lambda>s. waiting (V w) s g \<noteq> []) ss = None"
    using assms(2) by (auto simp: served_def find_Some_iff split: option.splits)
  then have "\<forall>s \<in> set ss. waiting (view (rds (shared w1))) s g = []"
    using w1(2) find_None_iff [THEN iffD1, OF none] by (auto simp: served_def none)
  note empty = idle_read_is_empty [OF this]
  assume "db (shared w1) = db (shared w)" "clock (shared w1) = clock (shared w)"
    and "quiet w2" "db (shared w2) = db (shared w1)" "clock (shared w2) = clock (shared w1)"
    "rds (shared w2) = snd (xreadgroup (redis S) g c (map fst (stream_dict ss)) n (Some b) (rds (shared w1)))"
  then show "quiet w2 \<and> db (shared w2) = db (shared w) \<and> clock (shared w2) = clock (shared w) \<and>
      (flatten (fst (xreadgroup (redis S) g c (map fst (stream_dict ss)) n (Some b) (rds (shared w1)))), V w2)
        = served ss g n (V w)"
    using none w1(2) by (simp add: empty xreadgroup_view served_def)
qed auto

end

section \<open>Properties\<close>

lemma find_Some_split:
  "find P xs = Some x \<Longrightarrow> \<exists>hi lo. xs = hi @ x # lo \<and> P x \<and> (\<forall>h \<in> set hi. \<not> P h)"
proof (induction xs)
  case (Cons y ys)
  show ?case
  proof (cases "P y")
    case False
    with Cons obtain hi lo where "ys = hi @ x # lo" "P x" "\<forall>h \<in> set hi. \<not> P h" by auto
    with False show ?thesis by (intro exI [of _ "y # hi"] exI [of _ lo]) simp
  qed (use Cons.prems in \<open>intro exI [of _ "[]"] exI [of _ ys], simp\<close>)
qed simp

text \<open>
  C29 (read_priority_strict). An undisturbed read delivers from the first stream of the given order that
  has undelivered entries, up to the requested number, in the order of the stream; these entries become
  pending, every other entry of every stream stays as it was, and the answer is empty only when every
  stream is. A lower stream is never served while a higher one has entries.
\<close>

theorem read_priority_strict:
  assumes "backend S tbl view idle" and "quiet w" and "0 < n"
  shows "case run_state (read_priority S streams grp consumer blk n) w of (msgs, w') \<Rightarrow>
     (msgs, view (rds (shared w'))) = served streams grp n (view (rds (shared w)))
     \<and> db (shared w') = db (shared w)
     \<and> (msgs = [] \<longleftrightarrow> (\<forall>s \<in> set streams. waiting (view (rds (shared w))) s grp = []))
     \<and> (\<forall>(s, i, fs) \<in> set msgs. \<exists>hi lo. streams = hi @ s # lo
          \<and> (\<forall>h \<in> set hi. waiting (view (rds (shared w))) h grp = []))"
proof -
  let ?v = "view (rds (shared w))"
  obtain msgs w' where run: "run_state (read_priority S streams grp consumer blk n) w = (msgs, w')" by fastforce
  from wpD [OF backend.wp_read_priority [OF assms] run]
  have s: "(msgs, view (rds (shared w'))) = served streams grp n ?v" "db (shared w') = db (shared w)" by auto
  show ?thesis
  proof (cases "find (\<lambda>s. waiting ?v s grp \<noteq> []) streams")
    case None
    then have "served streams grp n ?v = ([], ?v)" "\<forall>s \<in> set streams. waiting ?v s grp = []"
      by (simp add: served_def) (use None in \<open>simp add: find_None_iff\<close>)
    then show ?thesis using s by (simp add: run)
  next
    case (Some st)
    then obtain hi lo where st: "streams = hi @ st # lo" "waiting ?v st grp \<noteq> []"
      "\<forall>h \<in> set hi. waiting ?v h grp = []"
      by (auto dest: find_Some_split)
    then have "msgs \<noteq> []" using s Some assms(3) by (auto simp: served_def)
    moreover have "set msgs \<subseteq> {st} \<times> UNIV" using s Some by (auto simp: served_def)
    moreover have "\<not> (\<forall>s \<in> set streams. waiting ?v s grp = [])" using st by auto
    ultimately show ?thesis using s st unfolding run prod.case by blast
  qed
qed

theorem read_priority_strict_witness:
  "fst (run_state (read_priority ref_services [''jobs:stream:high'', ''jobs:stream:normal''] ''workers'' ''w1'' 5000 1)
      (ref_world [] (snd (xadd ref_redis_ops ''jobs:stream:normal'' [(''job_id'', ''x'')] sample_redis)) 0)) \<noteq> []"
proof -
  let ?w = "ref_world [] (snd (xadd ref_redis_ops ''jobs:stream:normal'' [(''job_id'', ''x'')] sample_redis)) 0"
  have v: "ref_view (rds (shared ?w)) = add_entry ''jobs:stream:normal''
      (fst (xadd ref_redis_ops ''jobs:stream:normal'' [(''job_id'', ''x'')] sample_redis), [(''job_id'', ''x'')])
      (ref_view sample_redis)"
    using ref.xadd_view [of "''jobs:stream:normal''" "[(''job_id'', ''x'')]" sample_redis]
    unfolding ref_services_def by (simp del: ref.views)
  have g: "group_exists (ref_view sample_redis) ''jobs:stream:normal'' ''workers''"
    by (simp add: group_exists_def ref_view_def ref_raw_view_def ref_norm_def ref_ok_def sample_redis_def)
  show ?thesis
    using read_priority_strict [OF ref_backend, of ?w 1 "[''jobs:stream:high'', ''jobs:stream:normal'']" "''workers''" "''w1''" 5000]
    unfolding v by (auto simp: g split: prod.splits)
qed

text \<open>A step of the pipeline of \<open>promote\<close>: one message added to its stream, the delayed set as it was.\<close>

definition adds_message :: "('r \<Rightarrow> redis_view) \<Rightarrow> ('d, 'r) step \<Rightarrow> string \<times> fields \<Rightarrow> bool" where
  "adds_message view st r \<longleftrightarrow> (\<exists>e. view (rds (snd st)) = add_entry (fst r) (e, snd r) (view (rds (fst st))))"

context backend
begin

lemma emits_adds:
  "emits (foreach routed (\<lambda>(stream, fs). do { _ \<leftarrow> redis_step (xadd (redis S) stream fs); return () }))
     (\<lambda>_ ts. list_all2 (adds_message view) ts routed)"
proof (induction routed)
  case (Cons r routed)
  obtain stream fs where r: "r = (stream, fs)" by fastforce
  have one: "emits (do { _ \<leftarrow> redis_step (xadd (redis S) stream fs); return () })
      (\<lambda>_ ts. \<exists>st. ts = [st] \<and> adds_message view st (stream, fs))"
    by (rule emits_bind [OF emits_redis_step [where Q = "\<lambda>_ ts. \<exists>st. ts = [st] \<and> adds_message view st (stream, fs)"]])
      (auto simp: adds_message_def simp del: split_paired_Ex intro!: emits_return)
  show ?case
    unfolding foreach.simps r prod.case
    by (rule emits_bind [OF one], rule emits_weaken [OF Cons.IH]) auto
qed (simp add: emits_return)

end

text \<open>
  Under any interference, \<open>promote\<close> first adds every routed message, one
  step each and in order, and only its last step removes the identifiers from the delayed set: a crash
  at any earlier point leaves them there for the next tick.
\<close>

lemma promote_adds_before_removing:
  assumes "backend S tbl view idle" and "ids \<noteq> []"
  shows "\<exists>adds last. trace (snd (run_state (promote S zset_key routed ids) w)) = trace w @ adds @ [last]
     \<and> list_all2 (adds_message view) adds routed
     \<and> (\<forall>st \<in> set adds. zset (view (rds (snd st))) = zset (view (rds (fst st))))
     \<and> view (rds (snd last)) = drop_scores zset_key ids (view (rds (fst last)))"
proof -
  have zrem: "emits (redis_step (zrem (redis S) zset_key ids) \<bind> (\<lambda>_. return ()))
      (\<lambda>_ ts. \<exists>st. ts = [st] \<and> view (rds (snd st)) = drop_scores zset_key ids (view (rds (fst st))))"
    by (rule emits_bind [OF emits_redis_step [where Q = "\<lambda>_ ts. \<exists>st. ts = [st]
          \<and> view (rds (snd st)) = drop_scores zset_key ids (view (rds (fst st)))"]])
      (auto simp: redis_server.zrem_view [OF backend.axioms(2) [OF assms(1)]] intro!: emits_return)
  have "emits (promote S zset_key routed ids) (\<lambda>_ ts. \<exists>adds last. ts = adds @ [last]
      \<and> list_all2 (adds_message view) adds routed
      \<and> view (rds (snd last)) = drop_scores zset_key ids (view (rds (fst last))))"
    unfolding promote_def if_not_P [OF assms(2)]
    by (rule emits_bind [OF backend.emits_adds [OF assms(1)]], rule emits_weaken [OF zrem]) auto
  then obtain adds last where t: "trace (snd (run_state (promote S zset_key routed ids) w)) = trace w @ adds @ [last]"
    and a: "list_all2 (adds_message view) adds routed"
    and l: "view (rds (snd last)) = drop_scores zset_key ids (view (rds (fst last)))"
    unfolding emits_def by blast
  have "zset (view (rds (snd st))) = zset (view (rds (fst st)))" if "st \<in> set adds" for st
    using a that by (induction adds routed rule: list_all2_induct) (auto simp: adds_message_def)
  with t a l show ?thesis by blast
qed

end
