(* ===== verification/Idempotency.thy ===== *)
theory Idempotency
  imports Job_Model "HOL-Library.List_Lexorder" "HOL-Library.Char_ord" "HOL-Library.Multiset"
begin

text \<open>
  Text and JSON as the standard library prints them, and \<open>app/idempotency.py\<close>. A character is a
  code point below 256. \<open>json.dumps\<close> is modelled with the options the code uses: the separators,
  \<open>sort_keys\<close>, and the default \<open>ensure_ascii\<close>. SHA-256 is a parameter.
\<close>

section \<open>Strings\<close>

definition py_lower :: "string \<Rightarrow> string" where
  "py_lower = map (\<lambda>c. let n = of_char c :: nat in
     if (65 \<le> n \<and> n \<le> 90) \<or> (192 \<le> n \<and> n \<le> 222 \<and> n \<noteq> 215) then char_of (n + 32) else c)"

definition py_rstrip :: "char \<Rightarrow> string \<Rightarrow> string" where
  "py_rstrip d s = rev (dropWhile (\<lambda>c. c = d) (rev s))"

text \<open>\<open>str(n)\<close> for an integer.\<close>

fun dec_nat :: "nat \<Rightarrow> string" where
  "dec_nat n = (if n < 10 then [char_of (48 + n)] else dec_nat (n div 10) @ [char_of (48 + n mod 10)])"

declare dec_nat.simps [simp del]

definition py_str_int :: "int \<Rightarrow> string" where
  "py_str_int i = (if i < 0 then ''-'' @ dec_nat (nat (- i)) else dec_nat (nat i))"

text \<open>\<open>repr(s)\<close> for a string.\<close>

definition printable :: "nat \<Rightarrow> bool" where
  "printable n \<longleftrightarrow> (32 \<le> n \<and> n \<le> 126) \<or> (161 \<le> n \<and> n \<le> 255 \<and> n \<noteq> 173)"

definition repr_char :: "char \<Rightarrow> char \<Rightarrow> string" where
  "repr_char q c = (let n = of_char c :: nat in
     if c = q \<or> n = 92 then [CHR 0x5C, c]
     else if n = 10 then [CHR 0x5C, CHR ''n'']
     else if n = 13 then [CHR 0x5C, CHR ''r'']
     else if n = 9 then [CHR 0x5C, CHR ''t'']
     else if printable n then [c]
     else [CHR 0x5C, CHR ''x''] @ hex_digits 2 n)"

definition py_repr :: "string \<Rightarrow> string" where
  "py_repr s = (let q = (if CHR 0x27 \<in> set s \<and> CHR 0x22 \<notin> set s then CHR 0x22 else CHR 0x27)
     in [q] @ concat (map (repr_char q) s) @ [q])"

section \<open>Printing JSON\<close>

definition json_escape :: "char \<Rightarrow> string" where
  "json_escape c = (let n = of_char c :: nat in
     if n = 34 then [CHR 0x5C, c]
     else if n = 92 then [CHR 0x5C, c]
     else if n = 10 then [CHR 0x5C, CHR ''n'']
     else if n = 13 then [CHR 0x5C, CHR ''r'']
     else if n = 9 then [CHR 0x5C, CHR ''t'']
     else if n = 12 then [CHR 0x5C, CHR ''f'']
     else if n = 8 then [CHR 0x5C, CHR ''b'']
     else if 32 \<le> n \<and> n \<le> 126 then [c]
     else [CHR 0x5C, CHR ''u''] @ hex_digits 4 n)"

definition json_quote :: "string \<Rightarrow> string" where
  "json_quote s = [CHR 0x22] @ concat (map json_escape s) @ [CHR 0x22]"

definition join :: "string \<Rightarrow> string list \<Rightarrow> string" where
  "join sep xs = (case xs of [] \<Rightarrow> [] | y # ys \<Rightarrow> y @ concat (map (\<lambda>s. sep @ s) ys))"

text \<open>\<open>json.dumps(v, sort_keys=.., separators=(item_sep, key_sep))\<close>.\<close>

fun json_dumps :: "bool \<Rightarrow> string \<Rightarrow> string \<Rightarrow> json \<Rightarrow> string" where
  "json_dumps srt isep ksep JNull = ''null''"
| "json_dumps srt isep ksep (JBool b) = (if b then ''true'' else ''false'')"
| "json_dumps srt isep ksep (JInt i) = py_str_int i"
| "json_dumps srt isep ksep (JFloat t) = t"
| "json_dumps srt isep ksep (JStr s) = json_quote s"
| "json_dumps srt isep ksep (JList vs) = ''['' @ join isep (map (json_dumps srt isep ksep) vs) @ '']''"
| "json_dumps srt isep ksep (JDict kvs) =
     (let items = map (\<lambda>(k, v). (k, json_dumps srt isep ksep v)) kvs;
          ordered = (if srt then sort_key fst items else items)
      in ''{'' @ join isep (map (\<lambda>(k, t). json_quote k @ ksep @ t) ordered) @ ''}'')"

section \<open>The canonical hash\<close>

definition canonical_blob :: "JobType \<Rightarrow> json \<Rightarrow> string" where
  "canonical_blob t p = json_dumps True '','' '':''
     (JDict [(''type'', JStr (JobType_value t)), (''payload'', p)])"

definition canonical_hash :: "(string \<Rightarrow> string) \<Rightarrow> JobType \<Rightarrow> json \<Rightarrow> string" where
  "canonical_hash sha t p = sha (canonical_blob t p)"

text \<open>
  Documents that differ only in the order of the keys of their objects. A parsed object has
  pairwise distinct keys.
\<close>

inductive same_json :: "json \<Rightarrow> json \<Rightarrow> bool" where
  atom: "same_json v v"
| list: "list_all2 same_json vs ws \<Longrightarrow> same_json (JList vs) (JList ws)"
| dict: "distinct (map fst kvs) \<Longrightarrow> mset kvs' = mset lws \<Longrightarrow>
     list_all2 (\<lambda>a b. fst a = fst b \<and> same_json (snd a) (snd b)) kvs lws \<Longrightarrow> same_json (JDict kvs) (JDict kvs')"
monos list_all2_mono

lemma sort_key_mset_distinct:
  assumes "mset xs = mset ys" and "distinct (map f xs)"
  shows "sort_key f xs = sort_key f ys"
proof (rule map_sorted_distinct_set_unique)
  show "inj_on f (set (sort_key f xs) \<union> set (sort_key f ys))"
    using assms by (metis distinct_map mset_eq_setD set_sort sup.idem)
  have "distinct (map f ys)"
    using assms by (metis mset_map mset_eq_imp_distinct_iff)
  then show "distinct (map f (sort_key f ys))"
    by (metis mset_map mset_eq_imp_distinct_iff mset_sort)
  show "distinct (map f (sort_key f xs))"
    using assms(2) by (metis mset_map mset_eq_imp_distinct_iff mset_sort)
qed (use assms(1) in \<open>auto dest: mset_eq_setD\<close>)

lemma dumps_same_json: "same_json v w \<Longrightarrow> json_dumps True isep ksep v = json_dumps True isep ksep w"
proof (induction rule: same_json.induct)
  case (list vs ws)
  then have "map (json_dumps True isep ksep) vs = map (json_dumps True isep ksep) ws"
    by (auto simp: list_all2_conv_all_nth intro!: nth_equalityI)
  then show ?case by simp
next
  case (dict kvs kvs' lws)
  let ?item = "\<lambda>(k, v). (k, json_dumps True isep ksep v)"
  have items: "map ?item kvs = map ?item lws"
    using dict.IH by (auto simp: list_all2_conv_all_nth case_prod_beta intro!: nth_equalityI)
  have "mset (map ?item kvs) = mset (map ?item kvs')"
    unfolding items using dict.hyps(2) by simp
  moreover have "distinct (map fst (map ?item kvs))"
    using dict.hyps(1) by (simp add: comp_def case_prod_beta)
  ultimately have "sort_key fst (map ?item kvs) = sort_key fst (map ?item kvs')"
    by (rule sort_key_mset_distinct)
  then show ?case by (simp only: json_dumps.simps Let_def if_True)
qed simp

text \<open>
  C40 (canonical_hash_key_order). The hash of a submission does not depend on the order in which the
  keys of the payload, or of any object inside it, are written.
\<close>

theorem canonical_hash_key_order:
  assumes "same_json p q"
  shows "canonical_hash sha t p = canonical_hash sha t q"
proof -
  have "same_json (JDict [(''type'', JStr (JobType_value t)), (''payload'', p)])
      (JDict [(''type'', JStr (JobType_value t)), (''payload'', q)])"
    using assms by (auto intro!: same_json.dict same_json.atom)
  from dumps_same_json [OF this] show ?thesis
    by (simp only: canonical_hash_def canonical_blob_def)
qed

theorem canonical_hash_key_order_witness:
  "canonical_hash (\<lambda>s. s) report (JDict [(''b'', JInt 1), (''a'', JList [JNull])])
     = canonical_hash (\<lambda>s. s) report (JDict [(''a'', JList [JNull]), (''b'', JInt 1)])"
  by (rule canonical_hash_key_order, rule same_json.dict [where lws = "[(''b'', JInt 1), (''a'', JList [JNull])]"])
    (auto intro: same_json.atom)

end
