(* ===== verification/Payloads.thy ===== *)
theory Payloads
  imports Idempotency Config "HOL-Library.Sublist"
begin

text \<open>
  \<open>app/schemas/payloads.py\<close>: the payload schemas, the limits on them and the allowlist policy. The
  parsers behind \<open>EmailStr\<close> and \<open>HttpsUrl\<close> (an \<open>AnyUrl\<close> with its constraints) and the text of a
  validation error belong to pydantic and are parameters; the rest of the schemas is spelled out.
\<close>

section \<open>Models\<close>

definition MAX_BATCH_ITEMS :: nat where "MAX_BATCH_ITEMS = 500"
definition MAX_REPORT_PARAMS_KEYS :: nat where "MAX_REPORT_PARAMS_KEYS = 50"
definition MAX_REPORT_PARAMS_BYTES :: nat where "MAX_REPORT_PARAMS_BYTES = 8192"

record https_url =
  url_text :: string
  url_host :: "string option"

record schema_ops =
  email_str :: "nat \<Rightarrow> string \<Rightarrow> string option"
  parse_https_url :: "string \<Rightarrow> https_url option"
  validation_text :: "json \<Rightarrow> string"

datatype item_payload =
    EmailPayload string string "string option"
  | WebhookPayload https_url string
  | ReportPayload ReportType "(string \<times> json) list option"

datatype payload_model = SinglePayload item_payload | BatchPayload "item_payload list"

datatype payload_error = ValidationError string | PayloadPolicyError string | PayloadIndexError

section \<open>Schema validation\<close>

definition bound_params :: "(string \<times> json) list option \<Rightarrow> (string \<times> json) list option option" where
  "bound_params v = (case v of
     None \<Rightarrow> Some None
   | Some d \<Rightarrow>
       if length d > MAX_REPORT_PARAMS_KEYS then None
       else if length (json_dumps False '','' '':'' (JDict d)) > MAX_REPORT_PARAMS_BYTES then None
       else Some (Some d))"

definition only_keys :: "string list \<Rightarrow> (string \<times> json) list \<Rightarrow> bool" where
  "only_keys allowed d \<longleftrightarrow> list_all (\<lambda>(k, _). k \<in> set allowed) d"

definition str_field :: "nat \<Rightarrow> nat \<Rightarrow> json option \<Rightarrow> string option" where
  "str_field lo hi v = (case v of
     Some (JStr s) \<Rightarrow> if lo \<le> length s \<and> length s \<le> hi then Some s else None
   | _ \<Rightarrow> None)"

definition email_payload :: "schema_ops \<Rightarrow> (string \<times> json) list \<Rightarrow> item_payload option" where
  "email_payload P d = (
     if \<not> only_keys [''type'', ''to'', ''subject'', ''body''] d then None
     else case (case dict_get d ''to'' of Some (JStr s) \<Rightarrow> email_str P 320 s | _ \<Rightarrow> None) of
       None \<Rightarrow> None
     | Some to \<Rightarrow> (case str_field 1 500 (dict_get d ''subject'') of
         None \<Rightarrow> None
       | Some subject \<Rightarrow> (case dict_get d ''body'' of
           None \<Rightarrow> Some (EmailPayload to subject None)
         | Some JNull \<Rightarrow> Some (EmailPayload to subject None)
         | Some v \<Rightarrow> map_option (\<lambda>b. EmailPayload to subject (Some b)) (str_field 0 20000 (Some v)))))"

definition webhook_payload :: "schema_ops \<Rightarrow> (string \<times> json) list \<Rightarrow> item_payload option" where
  "webhook_payload P d = (
     if \<not> only_keys [''type'', ''url'', ''method''] d then None
     else case (case dict_get d ''url'' of Some (JStr s) \<Rightarrow> parse_https_url P s | _ \<Rightarrow> None) of
       None \<Rightarrow> None
     | Some u \<Rightarrow> (case dict_get d ''method'' of
         None \<Rightarrow> Some (WebhookPayload u ''POST'')
       | Some v \<Rightarrow> if v = JStr ''GET'' then Some (WebhookPayload u ''GET'')
                   else if v = JStr ''POST'' then Some (WebhookPayload u ''POST'') else None))"

definition report_payload :: "(string \<times> json) list \<Rightarrow> item_payload option" where
  "report_payload d = (
     if \<not> only_keys [''type'', ''report_type'', ''params''] d then None
     else case find (\<lambda>r. dict_get d ''report_type'' = Some (JStr (ReportType_value r)))
                 [sales, ops, weekly_summary] of
       None \<Rightarrow> None
     | Some rt \<Rightarrow> (case dict_get d ''params'' of
         None \<Rightarrow> Some (ReportPayload rt None)
       | Some JNull \<Rightarrow> map_option (ReportPayload rt) (bound_params None)
       | Some (JDict v) \<Rightarrow> map_option (ReportPayload rt) (bound_params (Some v))
       | Some _ \<Rightarrow> None))"

text \<open>The discriminated unions: the member is chosen by the key \<open>type\<close>.\<close>

definition item_model :: "schema_ops \<Rightarrow> json \<Rightarrow> item_payload option" where
  "item_model P v = (case v of
     JDict d \<Rightarrow>
       if dict_get d ''type'' = Some (JStr ''email'') then email_payload P d
       else if dict_get d ''type'' = Some (JStr ''webhook'') then webhook_payload P d
       else if dict_get d ''type'' = Some (JStr ''report'') then report_payload d
       else None
   | _ \<Rightarrow> None)"

definition batch_model :: "schema_ops \<Rightarrow> (string \<times> json) list \<Rightarrow> payload_model option" where
  "batch_model P d = (
     if \<not> only_keys [''type'', ''items''] d then None
     else case dict_get d ''items'' of
       Some (JList vs) \<Rightarrow>
         if length vs > MAX_BATCH_ITEMS then None
         else map_option BatchPayload (those (map (item_model P) vs))
     | _ \<Rightarrow> None)"

definition job_model :: "schema_ops \<Rightarrow> (string \<times> json) list \<Rightarrow> payload_model option" where
  "job_model P d =
     (if dict_get d ''type'' = Some (JStr ''batch'') then batch_model P d
      else map_option SinglePayload (item_model P (JDict d)))"

section \<open>Policy\<close>

definition host_allowed :: "string \<Rightarrow> string list \<Rightarrow> bool" where
  "host_allowed host allowed = (let h = py_rstrip CHR ''.'' (py_lower host) in
     list_ex (\<lambda>entry. let e = strip_chars (\<lambda>c. c = CHR ''.'') (py_lower entry)
                      in h = e \<or> suffix (''.'' @ e) h) allowed)"

text \<open>\<open>s.rsplit("@", 1)[1]\<close>; without an \<open>@\<close> the list has one element and indexing raises.\<close>

definition after_last_at :: "string \<Rightarrow> string option" where
  "after_last_at s =
     (if CHR ''@'' \<in> set s then Some (rev (takeWhile (\<lambda>c. c \<noteq> CHR ''@'') (rev s))) else None)"

definition check_item_policy :: "settings \<Rightarrow> item_payload \<Rightarrow> payload_error option" where
  "check_item_policy cfg p = (case p of
     WebhookPayload u m \<Rightarrow>
       let host = (case url_host u of None \<Rightarrow> '''' | Some h \<Rightarrow> h) in
       if \<not> host_allowed host (webhook_allowed_hosts cfg)
       then Some (PayloadPolicyError (''webhook host '' @ py_repr host @ '' is not allowlisted''))
       else None
   | EmailPayload to subject body \<Rightarrow> (case after_last_at to of
       None \<Rightarrow> Some PayloadIndexError
     | Some d \<Rightarrow>
         let dom = py_lower d in
         if dom \<notin> set (map py_lower (email_allowed_domains cfg))
         then Some (PayloadPolicyError (''email domain '' @ py_repr dom @ '' is not allowlisted''))
         else None)
   | ReportPayload rt ps \<Rightarrow> None)"

fun first_error :: "('a \<Rightarrow> 'e option) \<Rightarrow> 'a list \<Rightarrow> 'e option" where
  "first_error f [] = None"
| "first_error f (x # xs) = (case f x of None \<Rightarrow> first_error f xs | Some e \<Rightarrow> Some e)"

definition check_policy :: "settings \<Rightarrow> payload_model \<Rightarrow> payload_error option" where
  "check_policy cfg p = (case p of
     SinglePayload i \<Rightarrow> check_item_policy cfg i
   | BatchPayload items \<Rightarrow> first_error (check_item_policy cfg) items)"

definition validate_payload ::
  "schema_ops \<Rightarrow> JobType \<Rightarrow> json \<Rightarrow> settings option \<Rightarrow> payload_error + payload_model" where
  "validate_payload P t raw cfg = (case raw of
     JDict kvs \<Rightarrow>
       let d = dict_set kvs ''type'' (JStr (JobType_value t)) in
       (case job_model P d of
          None \<Rightarrow> Inl (ValidationError (validation_text P (JDict d)))
        | Some p \<Rightarrow> (case cfg of
            None \<Rightarrow> Inr p
          | Some c \<Rightarrow> (case check_policy c p of None \<Rightarrow> Inr p | Some e \<Rightarrow> Inl e)))
   | _ \<Rightarrow> Inl (ValidationError (validation_text P raw)))"

section \<open>What a valid payload satisfies\<close>

text \<open>Host names by their labels.\<close>

fun labels :: "string \<Rightarrow> string list" where
  "labels [] = [[]]"
| "labels (c # cs) =
     (if c = CHR ''.'' then [] # labels cs
      else case labels cs of [] \<Rightarrow> [[c]] | l # ls \<Rightarrow> (c # l) # ls)"

definition subdomain_of :: "string \<Rightarrow> string \<Rightarrow> bool" where
  "subdomain_of h e \<longleftrightarrow> suffix (labels e) (labels h)"

lemma labels_not_Nil [simp]: "labels s \<noteq> []"
  by (induction s) (auto split: list.splits)

lemma labels_append: "labels (a @ ''.'' @ b) = labels a @ labels b"
  by (induction a) (auto split: list.splits)

lemma join_labels: "join ''.'' (labels s) = s"
proof (induction s)
  case (Cons c cs)
  then show ?case by (cases "labels cs") (auto simp: join_def split: list.splits)
qed (simp add: join_def)

lemma join_append: "xs \<noteq> [] \<Longrightarrow> ys \<noteq> [] \<Longrightarrow> join sep (xs @ ys) = join sep xs @ sep @ join sep ys"
  by (cases xs; cases ys) (auto simp: join_def)

lemma subdomain_iff: "subdomain_of h e \<longleftrightarrow> h = e \<or> suffix (''.'' @ e) h"
proof
  assume "subdomain_of h e"
  then obtain ls where ls: "labels h = ls @ labels e" by (auto simp: subdomain_of_def suffix_def)
  show "h = e \<or> suffix (''.'' @ e) h"
  proof (cases "ls = []")
    case True
    with ls show ?thesis by (metis append_Nil join_labels)
  next
    case False
    have "h = join ''.'' ls @ ''.'' @ e"
      using arg_cong [OF ls, of "join ''.''"] False by (simp add: join_labels join_append)
    then show ?thesis by (metis suffixI)
  qed
next
  assume "h = e \<or> suffix (''.'' @ e) h"
  then show "subdomain_of h e"
    by (auto simp: subdomain_of_def suffix_def labels_append simp del: append_Cons append_Nil)
qed

definition norm_host :: "string \<Rightarrow> string" where
  "norm_host h = py_rstrip CHR ''.'' (py_lower h)"

definition norm_entry :: "string \<Rightarrow> string" where
  "norm_entry e = strip_chars (\<lambda>c. c = CHR ''.'') (py_lower e)"

lemma host_allowed_iff:
  "host_allowed h allowed \<longleftrightarrow> (\<exists>e \<in> set allowed. subdomain_of (norm_host h) (norm_entry e))"
  by (auto simp: host_allowed_def subdomain_iff norm_host_def norm_entry_def Let_def list_ex_iff)

fun payload_items :: "payload_model \<Rightarrow> item_payload list" where
  "payload_items (SinglePayload i) = [i]"
| "payload_items (BatchPayload is) = is"

lemma first_error_None: "first_error f xs = None \<longleftrightarrow> (\<forall>x \<in> set xs. f x = None)"
  by (induction xs) (auto split: option.splits)

lemma check_policy_None:
  "check_policy cfg p = None \<longleftrightarrow> (\<forall>i \<in> set (payload_items p). check_item_policy cfg i = None)"
  by (cases p) (auto simp: check_policy_def first_error_None)

lemma item_policy_None:
  "check_item_policy cfg (WebhookPayload u m) = None \<longleftrightarrow>
     host_allowed (case url_host u of None \<Rightarrow> '''' | Some h \<Rightarrow> h) (webhook_allowed_hosts cfg)"
  "check_item_policy cfg (EmailPayload to sb bd) = None \<longleftrightarrow>
     (\<exists>d. after_last_at to = Some d \<and> py_lower d \<in> py_lower ` set (email_allowed_domains cfg))"
  "check_item_policy cfg (ReportPayload rt ps) = None"
  by (auto simp: check_item_policy_def Let_def split: option.splits)

lemma validate_Inr:
  assumes "validate_payload P t raw (Some cfg) = Inr p"
  obtains kvs where "raw = JDict kvs"
    and "job_model P (dict_set kvs ''type'' (JStr (JobType_value t))) = Some p"
    and "check_policy cfg p = None"
  using assms by (auto simp: validate_payload_def Let_def split: json.splits option.splits)

lemma those_length: "those xs = Some ys \<Longrightarrow> length ys = length xs"
  by (induction xs arbitrary: ys) (auto split: option.splits)

text \<open>
  C25 (valid_payload_policy). A payload that passes validation under given settings reaches only what the
  settings allow: every webhook, alone or inside a batch, goes to an allowlisted host or a subdomain of
  one by whole labels, every mail to an allowlisted domain; a batch has at most 500 items.
\<close>

theorem valid_payload_policy:
  assumes "validate_payload P t raw (Some cfg) = Inr p"
  shows "(\<forall>u m. WebhookPayload u m \<in> set (payload_items p) \<longrightarrow>
           (\<exists>e \<in> set (webhook_allowed_hosts cfg).
              subdomain_of (norm_host (case url_host u of None \<Rightarrow> '''' | Some h \<Rightarrow> h)) (norm_entry e)))
       \<and> (\<forall>to sb bd. EmailPayload to sb bd \<in> set (payload_items p) \<longrightarrow>
           (\<exists>d. after_last_at to = Some d \<and> py_lower d \<in> py_lower ` set (email_allowed_domains cfg)))
       \<and> length (payload_items p) \<le> 500"
proof -
  from assms obtain kvs where m: "job_model P (dict_set kvs ''type'' (JStr (JobType_value t))) = Some p"
    and pol: "check_policy cfg p = None" by (rule validate_Inr)
  have items: "check_item_policy cfg i = None" if "i \<in> set (payload_items p)" for i
    using pol that by (simp add: check_policy_None)
  have len: "length (payload_items p) \<le> 500"
    using m by (cases p)
      (auto simp: job_model_def batch_model_def MAX_BATCH_ITEMS_def dest: those_length
        split: if_splits option.splits json.splits)
  show ?thesis
    using items len by (fastforce simp: item_policy_None host_allowed_iff)
qed

definition sample_schema :: schema_ops where
  "sample_schema = \<lparr>
     email_str = (\<lambda>n s. if CHR ''@'' \<in> set s \<and> length s \<le> n then Some s else None),
     parse_https_url = (\<lambda>s. if take 8 s = ''https://''
        then Some \<lparr>url_text = s, url_host = Some (takeWhile (\<lambda>c. c \<noteq> CHR ''/'') (drop 8 s))\<rparr> else None),
     validation_text = (\<lambda>_. ''invalid'') \<rparr>"

theorem valid_payload_policy_witness:
  "length (payload_items (SinglePayload (WebhookPayload
     \<lparr>url_text = ''https://api.example.com/x'', url_host = Some ''api.example.com''\<rparr> ''POST''))) \<le> 500"
proof -
  let ?cfg = "(default_settings '''' '''')\<lparr>webhook_allowed_hosts := [''Example.com'']\<rparr>"
  let ?p = "SinglePayload (WebhookPayload
     \<lparr>url_text = ''https://api.example.com/x'', url_host = Some ''api.example.com''\<rparr> ''POST'')"
  have "validate_payload sample_schema webhook (JDict [(''url'', JStr ''https://api.example.com/x'')]) (Some ?cfg) = Inr ?p"
    by code_simp
  from valid_payload_policy [OF this] show ?thesis by blast
qed

end
