(* ===== verification/Handlers.thy ===== *)
theory Handlers
  imports Queue Payloads
begin

text \<open>
  \<open>app/jobs/handlers.py\<close>, \<open>app/jobs/registry.py\<close>, \<open>app/worker/context.py\<close> and
  \<open>app/worker/timeout.py\<close>: the handlers, their registry, the cancel and progress channel, and the
  deadline under which a handler runs. What a handler draws at random is an argument (\<open>draw\<close>):
  how long it sleeps, whether the simulated webhook fails, and the fresh identifier. Sleeping moves
  the clock. A handler that would sleep past its deadline is cancelled there.
\<close>

section \<open>Progress in floating point\<close>

text \<open>
  \<open>int((i + 1) / n * 100)\<close> on IEEE doubles: each operation rounds its exact result to 53 significant
  bits, ties to even. A positive double below \<open>2^53\<close> is \<open>m / 2^e\<close>; \<open>float_exp\<close> finds the exponent that
  brings \<open>a / b\<close> to at least \<open>2^52\<close>.
\<close>

definition round_div :: "nat \<Rightarrow> nat \<Rightarrow> nat" where
  "round_div a b = (let q = a div b; r = a mod b in
     if 2 * r < b then q else if b < 2 * r then q + 1 else if even q then q else q + 1)"

function float_exp :: "nat \<Rightarrow> nat \<Rightarrow> nat \<Rightarrow> nat" where
  "float_exp a b e = (if a = 0 \<or> b * 2 ^ 52 \<le> a * 2 ^ e then e else float_exp a b (Suc e))"
  by auto

termination
proof (relation "measure (\<lambda>(a, b, e). b * 2 ^ 52 - a * 2 ^ e)")
  fix a b e :: nat
  assume "\<not> (a = 0 \<or> b * 2 ^ 52 \<le> a * 2 ^ e)"
  then have "a * 2 ^ e < a * 2 ^ Suc e" "a * 2 ^ e < b * 2 ^ 52" by simp_all
  then show "((a, b, Suc e), (a, b, e)) \<in> measure (\<lambda>(a, b, e). b * 2 ^ 52 - a * 2 ^ e)"
    by (simp only: in_measure prod.case diff_less_mono2)
qed simp

declare float_exp.simps [simp del]

definition to_double :: "nat \<Rightarrow> nat \<Rightarrow> nat \<times> nat" where
  "to_double a b = (let e = float_exp a b 0 in (round_div (a * 2 ^ e) b, e))"

definition progress_percent :: "nat \<Rightarrow> nat \<Rightarrow> int" where
  "progress_percent k n = (if n = 0 then 100 else
     let (m, e) = to_double k n; (m', e') = to_double (m * 100) (2 ^ e) in int (m' div 2 ^ e'))"

section \<open>The cancel and progress channel\<close>

record job_ctx =
  ctx_job :: uuid
  ctx_interval :: int
  pending_pct :: int
  last_written_pct :: "int option"
  last_poll :: "timestamp option"
  ctx_cached :: bool

definition PgJobContext :: "uuid \<Rightarrow> int \<Rightarrow> job_ctx" where
  "PgJobContext job_id poll_interval = \<lparr>ctx_job = job_id, ctx_interval = poll_interval,
     pending_pct = 0, last_written_pct = None, last_poll = None, ctx_cached = False\<rparr>"

definition set_progress :: "int \<Rightarrow> job_ctx \<Rightarrow> job_ctx" where
  "set_progress pct ctx = ctx\<lparr>pending_pct := pct\<rparr>"

text \<open>\<open>UPDATE jobs SET progress ... RETURNING cancel_requested_at\<close>, one statement.\<close>

definition ctx_write :: "('d, 'r) services \<Rightarrow> uuid \<Rightarrow> int \<Rightarrow> ('d, 'r, bool \<times> bool) io" where
  "ctx_write S job_id pct = do {
     rows \<leftarrow> sql_step (\<lambda>d. let u = pg_update (sql S) (\<lambda>j. jid j = job_id \<and> status j = processing)
                                  (\<lambda>j. j\<lparr>progress := Some pct\<rparr>) d
                         in (if fst u = 0 then [] else pg_select (sql S) (\<lambda>j. jid j = job_id) (snd u), snd u));
     case one_or_none rows of
       None \<Rightarrow> return (False, False)
     | Some j \<Rightarrow> return (True, cancel_requested_at j \<noteq> None)
   }"

definition ctx_read :: "('d, 'r) services \<Rightarrow> uuid \<Rightarrow> ('d, 'r, bool \<times> bool) io" where
  "ctx_read S job_id = do {
     rows \<leftarrow> sql_query (pg_select (sql S) (\<lambda>j. jid j = job_id));
     case one_or_none rows of
       None \<Rightarrow> return (False, False)
     | Some j \<Rightarrow> if status j \<noteq> processing then return (False, False)
                 else return (True, cancel_requested_at j \<noteq> None)
   }"

definition ctx_cancelled :: "('d, 'r) services \<Rightarrow> job_ctx \<Rightarrow> ('d, 'r, bool \<times> job_ctx) io" where
  "ctx_cancelled S ctx = do {
     now \<leftarrow> utc_now;
     if (case last_poll ctx of None \<Rightarrow> True | Some t \<Rightarrow> now - t \<ge> ctx_interval ctx) then do {
       res \<leftarrow> (if Some (pending_pct ctx) \<noteq> last_written_pct ctx then do {
                 ar \<leftarrow> ctx_write S (ctx_job ctx) (pending_pct ctx);
                 return (ar, ctx\<lparr>last_written_pct := Some (pending_pct ctx)\<rparr>)
               } else do {
                 ar \<leftarrow> ctx_read S (ctx_job ctx);
                 return (ar, ctx)
               });
       case res of ((alive, requested), ctx) \<Rightarrow> do {
         let c = (requested \<or> \<not> alive);
         return (c, ctx\<lparr>ctx_cached := c, last_poll := Some now\<rparr>)
       }
     }
     else return (ctx_cached ctx, ctx)
   }"

section \<open>Handlers\<close>

datatype exn = Exn string string

datatype handler_outcome = Done json | Raised exn | CancelledWith json | TimedOut

record draw =
  nap :: int
  coin :: bool
  fresh_id :: uuid

text \<open>\<open>await asyncio.sleep(d)\<close> under a deadline: false when the deadline cancels it.\<close>

definition sleep_until_deadline :: "timestamp \<Rightarrow> int \<Rightarrow> ('d, 'r, bool) io" where
  "sleep_until_deadline deadline d = do {
     now \<leftarrow> utc_now;
     if now + d > deadline then do { sleep_by (max 0 (deadline - now)); return False }
     else do { sleep_by d; return True }
   }"

definition handle_email :: "timestamp \<Rightarrow> draw \<Rightarrow> ('d, 'r, handler_outcome) io" where
  "handle_email deadline dr = do {
     slept \<leftarrow> sleep_until_deadline deadline (nap dr);
     if \<not> slept then return TimedOut
     else return (Done (JDict [(''message_id'', JStr (''msg_'' @ take 12 (uuid_hex (fresh_id dr))))]))
   }"

definition handle_webhook :: "timestamp \<Rightarrow> draw \<Rightarrow> https_url \<Rightarrow> ('d, 'r, handler_outcome) io" where
  "handle_webhook deadline dr url = do {
     slept \<leftarrow> sleep_until_deadline deadline (nap dr);
     if \<not> slept then return TimedOut
     else if coin dr
     then return (Raised (Exn ''WebhookFailedError'' (''webhook call to '' @ url_text url @ '' failed'')))
     else return (Done (JDict [(''status'', JInt 200)]))
   }"

definition handle_report :: "timestamp \<Rightarrow> draw \<Rightarrow> ('d, 'r, handler_outcome) io" where
  "handle_report deadline dr = do {
     slept \<leftarrow> sleep_until_deadline deadline (nap dr);
     if \<not> slept then return TimedOut
     else return (Done (JDict [(''file_url'',
       JStr (''https://reports.local/'' @ take 12 (uuid_hex (fresh_id dr)) @ ''.pdf''))]))
   }"

definition run_item :: "timestamp \<Rightarrow> draw \<Rightarrow> item_payload \<Rightarrow> ('d, 'r, handler_outcome) io" where
  "run_item deadline dr item = (case item of
     EmailPayload to subject body \<Rightarrow> handle_email deadline dr
   | WebhookPayload url m \<Rightarrow> handle_webhook deadline dr url
   | ReportPayload rt ps \<Rightarrow> handle_report deadline dr)"

record batch_summary =
  total :: nat
  succeeded :: nat
  failures :: nat
  results :: "(nat \<times> json) list"
  errors :: "(nat \<times> string) list"

definition summary_json :: "batch_summary \<Rightarrow> json" where
  "summary_json s = JDict [(''total'', JInt (int (total s))), (''succeeded'', JInt (int (succeeded s))),
     (''failed'', JInt (int (failures s))),
     (''results'', JList (map (\<lambda>(i, r). JDict [(''index'', JInt (int i)), (''result'', r)]) (results s))),
     (''errors'', JList (map (\<lambda>(i, e). JDict [(''index'', JInt (int i)), (''error'', JStr e)]) (errors s)))]"

definition new_summary :: "nat \<Rightarrow> batch_summary" where
  "new_summary n = \<lparr>total = n, succeeded = 0, failures = 0, results = [], errors = []\<rparr>"

definition add_result :: "nat \<Rightarrow> json \<Rightarrow> batch_summary \<Rightarrow> batch_summary" where
  "add_result i r s = s\<lparr>succeeded := succeeded s + 1, results := results s @ [(i, r)]\<rparr>"

definition add_error :: "nat \<Rightarrow> string \<Rightarrow> batch_summary \<Rightarrow> batch_summary" where
  "add_error i e s = s\<lparr>failures := failures s + 1, errors := errors s @ [(i, e)]\<rparr>"

text \<open>
  The loop of \<open>handle_batch\<close>. Its outcome keeps the summary as a record next to the outcome; an
  item's error is collected, a cancellation at the deadline is not an \<open>Exception\<close> and passes through.
\<close>

datatype batch_end = BatchDone | BatchCancelled | BatchTimedOut

fun batch_loop ::
  "('d, 'r) services \<Rightarrow> timestamp \<Rightarrow> (nat \<Rightarrow> draw) \<Rightarrow> nat \<Rightarrow> nat \<Rightarrow> item_payload list \<Rightarrow> batch_summary
   \<Rightarrow> job_ctx \<Rightarrow> ('d, 'r, batch_end \<times> batch_summary) io" where
  "batch_loop S deadline rnd n i [] sm ctx = return (BatchDone, sm)"
| "batch_loop S deadline rnd n i (item # items) sm ctx = do {
     poll \<leftarrow> ctx_cancelled S ctx;
     if fst poll then return (BatchCancelled, sm)
     else do {
       r \<leftarrow> run_item deadline (rnd i) item;
       let ctx = set_progress (progress_percent (i + 1) n) (snd poll);
       case r of
         TimedOut \<Rightarrow> return (BatchTimedOut, sm)
       | Done v \<Rightarrow> batch_loop S deadline rnd n (i + 1) items (add_result i v sm) ctx
       | Raised e \<Rightarrow> (case e of Exn _ msg \<Rightarrow>
           batch_loop S deadline rnd n (i + 1) items (add_error i msg sm) ctx)
       | CancelledWith s \<Rightarrow>
           batch_loop S deadline rnd n (i + 1) items (add_error i ''job cancelled'' sm) ctx
     }
   }"

definition handle_batch ::
  "('d, 'r) services \<Rightarrow> timestamp \<Rightarrow> (nat \<Rightarrow> draw) \<Rightarrow> item_payload list \<Rightarrow> job_ctx
   \<Rightarrow> ('d, 'r, handler_outcome) io" where
  "handle_batch S deadline rnd items ctx = do {
     let n = length items;
     res \<leftarrow> batch_loop S deadline rnd n 0 items (new_summary n) ctx;
     case res of (e, sm) \<Rightarrow> (case e of
       BatchDone \<Rightarrow> return (Done (summary_json sm))
     | BatchCancelled \<Rightarrow> return (CancelledWith (summary_json sm))
     | BatchTimedOut \<Rightarrow> return TimedOut)
   }"

definition run_handler ::
  "('d, 'r) services \<Rightarrow> timestamp \<Rightarrow> (nat \<Rightarrow> draw) \<Rightarrow> payload_model \<Rightarrow> job_ctx
   \<Rightarrow> ('d, 'r, handler_outcome) io" where
  "run_handler S deadline rnd p ctx = (case p of
     SinglePayload item \<Rightarrow> run_item deadline (rnd 0) item
   | BatchPayload items \<Rightarrow> handle_batch S deadline rnd items ctx)"

definition run_with_timeout ::
  "(timestamp \<Rightarrow> ('d, 'r, handler_outcome) io) \<Rightarrow> int \<Rightarrow> ('d, 'r, handler_outcome) io" where
  "run_with_timeout coro timeout = do {
     now \<leftarrow> utc_now;
     coro (now + timeout)
   }"

section \<open>Progress\<close>

lemma round_div_le:
  assumes "0 < b" and "a \<le> k * b"
  shows "round_div a b \<le> k"
proof -
  have q: "a div b \<le> k" using assms by (metis div_le_mono nonzero_mult_div_cancel_right not_gr_zero)
  show ?thesis
  proof (cases "a div b = k")
    case True
    then have "a mod b = 0" using assms by (metis add_cancel_left_right div_mult_mod_eq le_antisym le_add1)
    with True assms show ?thesis by (simp add: round_div_def Let_def)
  next
    case False
    with q have "a div b + 1 \<le> k" by simp
    with q show ?thesis by (simp add: round_div_def Let_def)
  qed
qed

lemma round_div_exact: "0 < b \<Longrightarrow> round_div (k * b) b = k"
  by (simp add: round_div_def Let_def)

lemma to_double_le:
  assumes "to_double a b = (m, e)" and "0 < b" and "a \<le> c * b"
  shows "m \<le> c * 2 ^ e"
proof -
  from assms(1) have m: "m = round_div (a * 2 ^ e) b" by (auto simp: to_double_def Let_def)
  have "a * 2 ^ e \<le> (c * 2 ^ e) * b" using assms(3) by (metis mult.assoc mult.commute mult_le_mono1)
  then show ?thesis unfolding m by (rule round_div_le [OF assms(2)])
qed

lemma to_double_exact:
  assumes "to_double (c * b) b = (m, e)" and "0 < b"
  shows "m = c * 2 ^ e"
proof -
  from assms(1) have "m = round_div ((c * 2 ^ e) * b) b"
    by (auto simp: to_double_def Let_def mult.assoc mult.commute mult.left_commute)
  then show ?thesis using round_div_exact [OF assms(2)] by simp
qed

lemma progress_percent_range:
  assumes "k \<le> n"
  shows "0 \<le> progress_percent k n \<and> progress_percent k n \<le> 100"
proof (cases "n = 0")
  case False
  obtain m e where d: "to_double k n = (m, e)" by fastforce
  obtain m' e' where d': "to_double (m * 100) (2 ^ e) = (m', e')" by fastforce
  have "m \<le> 1 * 2 ^ e" using to_double_le [OF d, of 1] False assms by simp
  then have "m' \<le> 100 * 2 ^ e'" using to_double_le [OF d', of 100] by simp
  then have "m' div 2 ^ e' \<le> 100" by (metis div_le_mono div_mult_self_is_m zero_less_numeral zero_less_power)
  then show ?thesis using False d d' by (simp add: progress_percent_def)
qed (simp add: progress_percent_def)

lemma progress_percent_full: "progress_percent n n = 100"
proof (cases "n = 0")
  case False
  obtain m e where d: "to_double n n = (m, e)" by fastforce
  obtain m' e' where d': "to_double (m * 100) (2 ^ e) = (m', e')" by fastforce
  have "m = 1 * 2 ^ e" using to_double_exact [of 1 n m e] d False by simp
  then have "m' = 100 * 2 ^ e'" using to_double_exact [of 100 "2 ^ e" m' e'] d' by (simp add: mult.commute)
  then show ?thesis using False d d' by (simp add: progress_percent_def)
qed (simp add: progress_percent_def)

text \<open>The truncation is visible: \<open>int(29 / 100 * 100)\<close> is 28.\<close>

lemma float_exp_eq:
  "0 < a \<Longrightarrow> a * 2 ^ (e + d) < b * 2 ^ 52 \<Longrightarrow> b * 2 ^ 52 \<le> a * 2 ^ Suc (e + d) \<Longrightarrow>
     float_exp a b e = Suc (e + d)"
proof (induction d arbitrary: e)
  case 0
  then show ?case by (simp add: float_exp.simps [of a b e] float_exp.simps [of a b "Suc e"])
next
  case (Suc d)
  have "a * 2 ^ e \<le> a * 2 ^ (e + Suc d)" by (simp add: power_add)
  also have "\<dots> < b * 2 ^ 52" by (rule Suc.prems)
  finally have "\<not> (a = 0 \<or> b * 2 ^ 52 \<le> a * 2 ^ e)" using Suc.prems(1) by simp
  then have "float_exp a b e = float_exp a b (Suc e)"
    by (metis float_exp.simps)
  then show ?case using Suc.IH [of "Suc e"] Suc.prems by simp
qed

lemma progress_29_of_100: "progress_percent 29 100 = 28"
proof -
  have "float_exp 29 100 0 = 54" using float_exp_eq [of 29 0 53 100] by simp
  then have "to_double 29 100 = (5224175567749775, 54)"
    by (simp add: to_double_def round_div_def Let_def)
  moreover have "float_exp 522417556774977500 (2 ^ 54) 0 = 48"
    using float_exp_eq [of 522417556774977500 0 47 "2 ^ 54"] by simp
  then have "to_double 522417556774977500 (2 ^ 54) = (8162774324609023, 48)"
    by (simp add: to_double_def round_div_def Let_def)
  ultimately show ?thesis by (simp add: progress_percent_def)
qed

section \<open>Batches\<close>

text \<open>After \<open>k\<close> items: every index below \<open>k\<close> is accounted for once, in order.\<close>

definition summary_ok :: "nat \<Rightarrow> nat \<Rightarrow> batch_summary \<Rightarrow> bool" where
  "summary_ok n k s \<longleftrightarrow> total s = n \<and> succeeded s = length (results s) \<and> failures s = length (errors s)
     \<and> sorted (map fst (results s)) \<and> sorted (map fst (errors s))
     \<and> mset (map fst (results s) @ map fst (errors s)) = mset [0..<k]"

lemma summary_ok_new: "summary_ok n 0 (new_summary n)"
  by (simp add: summary_ok_def new_summary_def)

lemma summary_ok_indices:
  assumes "summary_ok n k s"
  shows "fst ` set (results s) \<union> fst ` set (errors s) = {0..<k}"
  using arg_cong [where f = set_mset, OF assms [unfolded summary_ok_def, THEN conjunct2, THEN conjunct2,
    THEN conjunct2, THEN conjunct2, THEN conjunct2]] by simp

lemma summary_ok_add:
  assumes "summary_ok n k s"
  shows "summary_ok n (Suc k) (add_result k r s)" and "summary_ok n (Suc k) (add_error k e s)"
proof -
  have "x < k" if "x \<in> fst ` set (results s) \<union> fst ` set (errors s)" for x
    using that summary_ok_indices [OF assms] by simp
  then show "summary_ok n (Suc k) (add_result k r s)" "summary_ok n (Suc k) (add_error k e s)"
    using assms by (auto simp: summary_ok_def add_result_def add_error_def sorted_append less_imp_le)
qed

lemma summary_ok_counts: "summary_ok n k s \<Longrightarrow> succeeded s + failures s = k"
  unfolding summary_ok_def by (metis diff_zero length_append length_map length_upt size_mset)

lemma wp_any: "(\<And>a w'. Q a w') \<Longrightarrow> wp m Q w"
  by (simp add: wp_def split: prod.splits)

text \<open>Whatever happens around it, the loop ends with an exact account of a prefix of the items.\<close>

lemma wp_batch_loop:
  assumes "summary_ok n i sm" and "i + length items = n"
  shows "wp (batch_loop S deadline rnd n i items sm ctx) (\<lambda>res w'. \<exists>k \<le> n. summary_ok n k (snd res)
     \<and> (fst res = BatchDone \<longleftrightarrow> k = n)) w"
  using assms
proof (induction items arbitrary: i sm ctx w)
  case Nil
  then show ?case by (auto intro!: wp_return)
next
  case (Cons item items)
  then have next_ok: "Suc i + length items = n" and "i < n" by simp_all
  note IH = Cons.IH [OF summary_ok_add(1) [OF Cons.prems(1)] next_ok]
    Cons.IH [OF summary_ok_add(2) [OF Cons.prems(1)] next_ok]
  show ?case
    unfolding batch_loop.simps Let_def
  proof (rule wp_bind, rule wp_any, rule wp_if)
    fix poll w1
    show "wp (return (BatchCancelled, sm)) (\<lambda>res w'. \<exists>k \<le> n. summary_ok n k (snd res)
        \<and> (fst res = BatchDone \<longleftrightarrow> k = n)) w1"
      using Cons.prems \<open>i < n\<close> by (intro wp_return) (auto intro!: exI [of _ i])
  next
    fix poll :: "bool \<times> job_ctx" and w1
    show "wp (run_item deadline (rnd i) item \<bind> (\<lambda>r.
        case r of
          Done v \<Rightarrow> batch_loop S deadline rnd n (i + 1) items (add_result i v sm)
            (set_progress (progress_percent (i + 1) n) (snd poll))
        | Raised (Exn t msg) \<Rightarrow> batch_loop S deadline rnd n (i + 1) items (add_error i msg sm)
            (set_progress (progress_percent (i + 1) n) (snd poll))
        | CancelledWith v \<Rightarrow> batch_loop S deadline rnd n (i + 1) items (add_error i ''job cancelled'' sm)
            (set_progress (progress_percent (i + 1) n) (snd poll))
        | TimedOut \<Rightarrow> return (BatchTimedOut, sm)))
      (\<lambda>res w'. \<exists>k \<le> n. summary_ok n k (snd res) \<and> (fst res = BatchDone \<longleftrightarrow> k = n)) w1"
      using IH Cons.prems \<open>i < n\<close>
      by - (rule wp_bind, rule wp_any, auto split: handler_outcome.splits exn.splits intro!: wp_return exI [of _ i])
  qed
qed

section \<open>Single items\<close>

text \<open>What a handler of one item answers, given the time it has.\<close>

definition item_result :: "int \<Rightarrow> draw \<Rightarrow> item_payload \<Rightarrow> handler_outcome" where
  "item_result budget dr item =
     (if nap dr > budget then TimedOut
      else case item of
        EmailPayload to subject body \<Rightarrow>
          Done (JDict [(''message_id'', JStr (''msg_'' @ take 12 (uuid_hex (fresh_id dr))))])
      | WebhookPayload url m \<Rightarrow>
          if coin dr
          then Raised (Exn ''WebhookFailedError'' (''webhook call to '' @ url_text url @ '' failed''))
          else Done (JDict [(''status'', JInt 200)])
      | ReportPayload rt ps \<Rightarrow>
          Done (JDict [(''file_url'',
            JStr (''https://reports.local/'' @ take 12 (uuid_hex (fresh_id dr)) @ ''.pdf''))]))"

definition elapsed :: "int \<Rightarrow> draw \<Rightarrow> int" where
  "elapsed budget dr = (if nap dr > budget then max 0 budget else nap dr)"

lemma guar_run_item [guar_intros]: "guarantees G (run_item deadline dr item)"
  by (cases item)
    (auto simp: run_item_def handle_email_def handle_webhook_def handle_report_def
      sleep_until_deadline_def intro!: guar_intros)

lemma wp_run_item:
  assumes "\<And>w'. db (shared w') = db (shared w) \<Longrightarrow> rds (shared w') = rds (shared w) \<Longrightarrow>
      script w' = script w \<Longrightarrow> clock (shared w') = clock (shared w) + elapsed (deadline - clock (shared w)) dr \<Longrightarrow> Q (item_result (deadline - clock (shared w)) dr item) w'"
  shows "wp (run_item deadline dr item) Q w"
proof -
  have slept: "wp (sleep_until_deadline deadline (nap dr)) (\<lambda>slept w'. slept = (nap dr \<le> deadline - clock (shared w))
     \<and> db (shared w') = db (shared w) \<and> rds (shared w') = rds (shared w) \<and> script w' = script w
     \<and> clock (shared w') = clock (shared w) + elapsed (deadline - clock (shared w)) dr) w"
    by (auto simp: sleep_until_deadline_def wp_def run_simps elapsed_def)
  show ?thesis
    by (cases item; simp only: run_item_def handle_email_def handle_webhook_def handle_report_def
        item_payload.case; rule wp_bind; rule wp_conseq [OF slept]; elim conjE; intro wp_intros)
      (use assms in \<open>simp_all add: item_result_def\<close>)
qed

section \<open>The channel\<close>

context backend
begin

lemma guar_ctx [guar_intros]:
  "guarantees (lifecycle tbl) (ctx_write S i pct)"
  "guarantees (lifecycle tbl) (ctx_read S i)"
  "guarantees (lifecycle tbl) (ctx_cancelled S ctx)"
proof -
  have k: "keeps_keys (\<lambda>j. j\<lparr>progress := Some pct\<rparr>)" for pct by (simp add: keeps_keys_def)
  show w: "guarantees (lifecycle tbl) (ctx_write S i pct)" for i pct
    unfolding ctx_write_def
    by (intro guar_intros guar_sql_step)
      (auto simp: Let_def lifecycle_def update_tbl [OF k] intro!: table_step_update_where row_step.set_progress)
  show r: "guarantees (lifecycle tbl) (ctx_read S i)" for i
    unfolding ctx_read_def by (intro guar_intros)
  show "guarantees (lifecycle tbl) (ctx_cancelled S ctx)"
    unfolding ctx_cancelled_def by (intro guar_intros w r)
qed

lemma guar_batch [guar_intros]:
  "guarantees (lifecycle tbl) (batch_loop S deadline rnd n i items sm ctx)"
proof (induction items arbitrary: i sm ctx)
  case (Cons item items)
  show ?case
    unfolding batch_loop.simps
    by (intro guar_intros) (auto split: handler_outcome.splits exn.splits intro: Cons.IH guar_intros)
qed (simp add: guar_return)

lemma guar_handler [guar_intros]:
  "guarantees (lifecycle tbl) (handle_batch S deadline rnd items ctx)"
  "guarantees (lifecycle tbl) (run_handler S deadline rnd p ctx)"
proof -
  show b: "guarantees (lifecycle tbl) (handle_batch S deadline rnd items ctx)" for items
    unfolding handle_batch_def
    by (intro guar_intros) (auto split: batch_end.splits intro: guar_intros)
  show "guarantees (lifecycle tbl) (run_handler S deadline rnd p ctx)"
    by (cases p) (auto simp: run_handler_def intro!: guar_intros b)
qed

text \<open>An undisturbed poll writes the pending percentage or reads, and tells whether to stop.\<close>

lemma wp_ctx_write:
  assumes "quiet w" and "T w i = Some j" and "status j = processing"
    and "\<And>w'. quiet w' \<Longrightarrow> rds (shared w') = rds (shared w) \<Longrightarrow> clock (shared w') = clock (shared w) \<Longrightarrow>
       T w' = (T w)(i \<mapsto> j\<lparr>progress := Some pct\<rparr>) \<Longrightarrow> Q (True, cancel_requested_at j \<noteq> None) w'"
  shows "wp (ctx_write S i pct) Q w"
proof -
  let ?f = "\<lambda>j :: job. j\<lparr>progress := Some pct\<rparr>" and ?g = "\<lambda>j. jid j = i \<and> status j = processing"
  have k: "keeps_keys ?f" by (simp add: keeps_keys_def)
  let ?u = "pg_update (sql S) ?g ?f (db (shared w))"
  have n: "fst ?u = Suc 0" using update_count_by_id [OF k, of i "\<lambda>j. status j = processing"] assms by auto
  have t: "tbl (snd ?u) = (T w)(i \<mapsto> ?f j)"
    using update_tbl_by_id [OF k, of i "\<lambda>j. status j = processing" "db (shared w)"] assms by auto
  show ?thesis
    unfolding ctx_write_def
    by (intro wp_bind wp_sql_step assms(1))
      (auto simp: Let_def n t one_or_none_by_id intro!: wp_return assms(4) simp del: not_None_eq)
qed

end

section \<open>Properties\<close>

text \<open>Rounding to a double is monotone: a smaller quotient never rounds to a larger double.\<close>

lemma round_div_mono:
  assumes "0 < b" and "a \<le> a'"
  shows "round_div a b \<le> round_div a' b"
proof (cases "a div b = a' div b")
  case True
  then have "a mod b \<le> a' mod b"
    using assms by (metis add_le_cancel_left mult_div_mod_eq)
  with True show ?thesis by (auto simp: round_div_def Let_def)
next
  case False
  with div_le_mono [OF assms(2)] have "a div b + 1 \<le> a' div b"
    by (metis Suc_eq_plus1 Suc_leI le_neq_implies_less)
  then show ?thesis by (auto simp: round_div_def Let_def)
qed

lemma round_div_cross:
  assumes "0 < b" and "0 < b'" and "a * b' \<le> a' * b"
  shows "round_div a b \<le> round_div a' b'"
proof -
  have scale: "round_div (x * c) (y * c) = round_div x y" if "0 < c" for x y c
    using that by (simp add: round_div_def Let_def mult.assoc [symmetric])
  have "round_div a b = round_div (a * b') (b * b')" using scale assms by simp
  also have "\<dots> \<le> round_div (a' * b) (b' * b)"
    using round_div_mono [of "b * b'"] assms by (simp add: mult.commute)
  also have "\<dots> = round_div a' b'" using scale assms by simp
  finally show ?thesis .
qed

lemma float_exp_reaches: "0 < a \<Longrightarrow> b * 2 ^ 52 \<le> a * 2 ^ float_exp a b e"
proof (induction a b e rule: float_exp.induct)
  case (1 a b e)
  then show ?case by (cases "b * 2 ^ 52 \<le> a * 2 ^ e") (simp_all add: float_exp.simps [of a b e])
qed

lemma float_exp_least: "e \<le> k \<Longrightarrow> k < float_exp a b e \<Longrightarrow> a * 2 ^ k < b * 2 ^ 52"
proof (induction a b e rule: float_exp.induct)
  case (1 a b e)
  then show ?case
    by (cases "a = 0 \<or> b * 2 ^ 52 \<le> a * 2 ^ e"; cases "k = e") (auto simp: float_exp.simps [of a b e])
qed

text \<open>Bounds on a mantissa: it reaches \<open>2 ^ 52\<close>, and not before the exponent that was chosen.\<close>

lemma double_lower:
  assumes "0 < a" and "0 < b"
  shows "2 ^ 52 \<le> round_div (a * 2 ^ float_exp a b 0) b"
proof -
  have "2 ^ 52 = round_div (2 ^ 52 * b) b" by (simp only: round_div_exact [OF assms(2)])
  also have "\<dots> \<le> round_div (a * 2 ^ float_exp a b 0) b"
    by (rule round_div_mono [OF assms(2)]) (use float_exp_reaches [OF assms(1), of b 0] in \<open>simp add: mult.commute\<close>)
  finally show ?thesis .
qed

lemma double_upper:
  assumes "0 < b" and "k < float_exp a b 0"
  shows "round_div (a * 2 ^ float_exp a b 0) b \<le> 2 ^ 52 * 2 ^ (float_exp a b 0 - k)"
proof (rule round_div_le [OF assms(1)])
  have "a * 2 ^ k * 2 ^ (float_exp a b 0 - k) \<le> b * 2 ^ 52 * 2 ^ (float_exp a b 0 - k)"
    using float_exp_least [of 0 k a b] assms(2) by simp
  then show "a * 2 ^ float_exp a b 0 \<le> (2 ^ 52 * 2 ^ (float_exp a b 0 - k)) * b"
    using assms(2) by (simp add: algebra_simps flip: power_add)
qed

lemma to_double_mono:
  assumes d: "to_double a b = (m, e)" "to_double a' b' = (m', e')"
    and pos: "0 < b" "0 < b'" and le: "a * b' \<le> a' * b"
  shows "m * 2 ^ e' \<le> m' * 2 ^ e"
proof (cases "a = 0")
  case True
  with d(1) pos have "m = 0" by (auto simp: to_double_def round_div_def Let_def)
  then show ?thesis by simp
next
  case False
  with le pos have a: "0 < a" "0 < a'" by (auto intro: Nat.gr0I)
  from d have e: "e = float_exp a b 0" "e' = float_exp a' b' 0"
    and m: "m = round_div (a * 2 ^ e) b" "m' = round_div (a' * 2 ^ e') b'"
    by (auto simp: to_double_def Let_def)
  have reach: "b * 2 ^ 52 \<le> a * 2 ^ e" "b' * 2 ^ 52 \<le> a' * 2 ^ e'"
    using float_exp_reaches a e by simp_all
  consider "e < e'" | "e = e'" | "e' < e" by linarith
  then show ?thesis
  proof cases
    case 1
    then have "a' * 2 ^ e < b' * 2 ^ 52" using float_exp_least [of 0 e a' b'] e by simp
    then have "a' * 2 ^ e * b < b' * 2 ^ 52 * b" using pos by simp
    moreover have "b * 2 ^ 52 * b' \<le> a * 2 ^ e * b'" using reach(1) by simp
    moreover have "a * 2 ^ e * b' \<le> a' * 2 ^ e * b"
      using mult_le_mono1 [OF le, of "2 ^ e"] by (simp add: algebra_simps)
    ultimately have "b * 2 ^ 52 * b' < b' * 2 ^ 52 * b" by (meson le_less_trans)
    then show ?thesis by (simp add: algebra_simps)
  next
    case 2
    have "a * 2 ^ e * b' \<le> a' * 2 ^ e * b" using mult_le_mono1 [OF le, of "2 ^ e"] by (simp add: algebra_simps)
    then show ?thesis using 2 round_div_cross [OF pos] m by simp
  next
    case 3
    then have "m \<le> 2 ^ 52 * 2 ^ (e - e')"
      unfolding m e(1) using double_upper [OF pos(1), of e' a] e(1) by simp
    then have "m * 2 ^ e' \<le> 2 ^ 52 * 2 ^ (e - e') * 2 ^ e'" by (rule mult_le_mono1)
    also have "\<dots> = 2 ^ 52 * 2 ^ e" using 3 by (simp add: mult.assoc flip: power_add)
    also have "\<dots> \<le> m' * 2 ^ e"
      unfolding m e(2) by (rule mult_le_mono1) (rule double_lower [OF a(2) pos(2)])
    finally show ?thesis .
  qed
qed

lemma div_cross_mono:
  fixes p q :: nat
  assumes "0 < b" and "0 < c" and "p * c \<le> q * b"
  shows "p div b \<le> q div c"
proof -
  have "p div b = (p * c) div (b * c)" using assms by simp
  also have "\<dots> \<le> (q * b) div (b * c)" using assms(3) by (rule div_le_mono)
  also have "\<dots> = q div c" using assms by (simp add: mult.commute)
  finally show ?thesis .
qed

lemma progress_percent_mono:
  assumes "k \<le> k'"
  shows "progress_percent k n \<le> progress_percent k' n"
proof (cases "n = 0")
  case False
  obtain m e m' e' where d: "to_double k n = (m, e)" "to_double k' n = (m', e')" by fastforce
  obtain p f p' f' where d2: "to_double (m * 100) (2 ^ e) = (p, f)" "to_double (m' * 100) (2 ^ e') = (p', f')"
    by fastforce
  have "m * 2 ^ e' \<le> m' * 2 ^ e" using to_double_mono [OF d] False assms by simp
  then have "p * 2 ^ f' \<le> p' * 2 ^ f" using to_double_mono [OF d2] by simp
  then have "p div 2 ^ f \<le> p' div 2 ^ f'" by (intro div_cross_mono) simp_all
  then show ?thesis using False d d2 by (simp add: progress_percent_def)
qed (simp add: progress_percent_def)

text \<open>
  C28 (progress_bounds). The percentage a batch reports, computed in floating point as the code does it,
  stays between 0 and 100, never decreases from item to item, and is 100 after the last item.
\<close>

theorem progress_bounds:
  assumes "k \<le> k'" and "k' \<le> n"
  shows "0 \<le> progress_percent k n \<and> progress_percent k n \<le> progress_percent k' n
     \<and> progress_percent k' n \<le> 100 \<and> progress_percent n n = 100"
  using assms progress_percent_mono [OF assms(1)] progress_percent_range [of k n]
    progress_percent_range [of k' n] progress_percent_full by simp

theorem progress_bounds_witness:
  "progress_percent 29 100 = 28 \<and> progress_percent 29 100 \<le> progress_percent 30 100"
  using progress_bounds [of 29 30 100] progress_29_of_100 by simp

text \<open>
  C27 (batch_accounts). A batch, whatever other processes do and whatever its items do: it either times
  out, or answers a summary that accounts for every index of a prefix of the items exactly once, as a
  result or as an error, each list in order and counted; the summary is complete exactly when the
  handler returns it, and partial exactly when a cancellation carries it. An item never makes it raise.
\<close>

theorem batch_accounts:
  "case run_state (handle_batch S deadline rnd items ctx) w of (r, w') \<Rightarrow>
     r = TimedOut \<or> (\<exists>k sm. k \<le> length items \<and> summary_ok (length items) k sm
       \<and> succeeded sm + failures sm = k
       \<and> r = (if k = length items then Done (summary_json sm) else CancelledWith (summary_json sm)))"
proof -
  let ?n = "length items"
  let ?Q = "\<lambda>r (w' :: ('a, 'b) world). r = TimedOut \<or> (\<exists>k sm. k \<le> ?n \<and> summary_ok ?n k sm \<and> succeeded sm + failures sm = k
      \<and> r = (if k = ?n then Done (summary_json sm) else CancelledWith (summary_json sm)))"
  have "wp (handle_batch S deadline rnd items ctx) ?Q w"
    unfolding handle_batch_def Let_def
  proof (intro wp_bind, rule wp_conseq [OF wp_batch_loop [OF summary_ok_new]])
    fix res :: "batch_end \<times> batch_summary" and w'
    assume "\<exists>k \<le> ?n. summary_ok ?n k (snd res) \<and> (fst res = BatchDone \<longleftrightarrow> k = ?n)"
    then show "wp (case res of (e, sm) \<Rightarrow> (case e of BatchDone \<Rightarrow> return (Done (summary_json sm))
        | BatchCancelled \<Rightarrow> return (CancelledWith (summary_json sm)) | BatchTimedOut \<Rightarrow> return TimedOut)) ?Q w'"
      by (cases res; cases "fst res") (auto intro!: wp_return dest: summary_ok_counts)
  qed simp
  then show ?thesis unfolding wp_def .
qed

text \<open>Under an undisturbed run only the handlers' own sleeping moves the clock, and never past the deadline.\<close>

context backend
begin

lemma wp_poll_clock:
  assumes "quiet w"
  shows "wp (ctx_cancelled S ctx) (\<lambda>_ w'. quiet w' \<and> clock (shared w') = clock (shared w)
     \<and> rds (shared w') = rds (shared w)) w"
proof -
  let ?K = "\<lambda>_ w'. quiet w' \<and> clock (shared w') = clock (shared w) \<and> rds (shared w') = rds (shared w)"
  have wr: "wp (ctx_write S i pct) ?K w" for i pct
    unfolding ctx_write_def
    by (intro wp_bind wp_sql_step assms) (auto split: option.split intro!: wp_return)
  have rd: "wp (ctx_read S i) ?K w" for i
    unfolding ctx_read_def
    by (intro wp_bind wp_sql_query assms) (auto split: option.split intro!: wp_return)
  show ?thesis
    unfolding ctx_cancelled_def Let_def
    by (intro wp_bind wp_utc_now wp_if; (rule wp_conseq [OF wr] wp_conseq [OF rd])?)
      (auto split: prod.split intro!: wp_return assms)
qed

lemma wp_item_clock:
  assumes "quiet w" and "clock (shared w) \<le> deadline"
  shows "wp (run_item deadline dr item) (\<lambda>_ w'. quiet w' \<and> clock (shared w') \<le> deadline
     \<and> rds (shared w') = rds (shared w)) w"
  by (rule wp_run_item) (use assms in \<open>auto simp: quiet_def elapsed_def\<close>)

lemma wp_batch_clock:
  assumes "quiet w" and "clock (shared w) \<le> deadline"
  shows "wp (batch_loop S deadline rnd n i items sm ctx) (\<lambda>_ w'. clock (shared w') \<le> deadline
     \<and> rds (shared w') = rds (shared w)) w"
  using assms
proof (induction items arbitrary: i sm ctx w)
  case (Cons item items)
  show ?case
    unfolding batch_loop.simps
  proof (intro wp_bind, rule wp_conseq [OF wp_poll_clock [OF Cons.prems(1)]], elim conjE, intro wp_if wp_return wp_bind)
    fix poll :: "bool \<times> job_ctx" and w1 :: "('d, 'r) world"
    assume w1: "quiet w1" "clock (shared w1) = clock (shared w)" "rds (shared w1) = rds (shared w)"
    then have "clock (shared w1) \<le> deadline" using Cons.prems by simp
    note item = wp_item_clock [OF w1(1) this]
    show "wp (run_item deadline (rnd i) item) (\<lambda>r. wp (let ctx = set_progress (progress_percent (i + 1) n) (snd poll) in
        case r of Done v \<Rightarrow> batch_loop S deadline rnd n (i + 1) items (add_result i v sm) ctx
        | Raised e \<Rightarrow> (case e of Exn _ msg \<Rightarrow> batch_loop S deadline rnd n (i + 1) items (add_error i msg sm) ctx)
        | CancelledWith s \<Rightarrow> batch_loop S deadline rnd n (i + 1) items (add_error i ''job cancelled'' sm) ctx
        | TimedOut \<Rightarrow> return (BatchTimedOut, sm))
      (\<lambda>_ w'. clock (shared w') \<le> deadline \<and> rds (shared w') = rds (shared w))) w1"
    proof (rule wp_conseq [OF item], elim conjE, unfold Let_def)
      fix r and w2 :: "('d, 'r) world"
      assume w2: "quiet w2" "clock (shared w2) \<le> deadline" "rds (shared w2) = rds (shared w1)"
      have "wp (batch_loop S deadline rnd n j items sm' ctx')
          (\<lambda>_ w'. clock (shared w') \<le> deadline \<and> rds (shared w') = rds (shared w)) w2" for j sm' ctx'
        using Cons.IH [OF w2(1,2)] w2(3) w1(3) by simp
      then show "wp (case r of
          Done v \<Rightarrow> batch_loop S deadline rnd n (i + 1) items (add_result i v sm) (set_progress (progress_percent (i + 1) n) (snd poll))
        | Raised e \<Rightarrow> (case e of Exn _ msg \<Rightarrow> batch_loop S deadline rnd n (i + 1) items (add_error i msg sm) (set_progress (progress_percent (i + 1) n) (snd poll)))
        | CancelledWith s \<Rightarrow> batch_loop S deadline rnd n (i + 1) items (add_error i ''job cancelled'' sm) (set_progress (progress_percent (i + 1) n) (snd poll))
        | TimedOut \<Rightarrow> return (BatchTimedOut, sm))
        (\<lambda>_ w'. clock (shared w') \<le> deadline \<and> rds (shared w') = rds (shared w)) w2"
        using w2 w1 by (auto split: handler_outcome.split exn.split intro!: wp_return)
    qed
  qed (use Cons.prems in auto)
qed (simp add: wp_return)

lemma wp_handler_clock:
  assumes "quiet w" and "clock (shared w) \<le> deadline"
  shows "wp (run_handler S deadline rnd p ctx) (\<lambda>_ w'. clock (shared w') \<le> deadline
     \<and> rds (shared w') = rds (shared w)) w"
proof (cases p)
  case (SinglePayload item)
  then show ?thesis
    using wp_conseq [OF wp_item_clock [OF assms]] by (simp add: run_handler_def)
next
  case (BatchPayload items)
  then show ?thesis
    by (auto simp: run_handler_def handle_batch_def Let_def split: batch_end.split
        intro!: wp_intros wp_conseq [OF wp_batch_clock [OF assms]])
qed

end



definition poll_due :: "timestamp \<Rightarrow> job_ctx \<Rightarrow> bool" where
  "poll_due now ctx \<longleftrightarrow> (case last_poll ctx of None \<Rightarrow> True | Some t \<Rightarrow> now - t \<ge> ctx_interval ctx)"

definition runs_on :: "table \<Rightarrow> uuid \<Rightarrow> bool" where
  "runs_on t i \<longleftrightarrow> (\<exists>j. t i = Some j \<and> status j = processing \<and> cancel_requested_at j = None)"

text \<open>The table after a poll: the percentage is written when it changed and the job still runs.\<close>

definition with_progress :: "job_ctx \<Rightarrow> table \<Rightarrow> table" where
  "with_progress ctx t = (case t (ctx_job ctx) of
     Some j \<Rightarrow> if status j = processing \<and> Some (pending_pct ctx) \<noteq> last_written_pct ctx
               then t(ctx_job ctx \<mapsto> j\<lparr>progress := Some (pending_pct ctx)\<rparr>) else t
   | None \<Rightarrow> t)"

context backend
begin

lemma wp_ctx_write_any:
  assumes "quiet w"
    and "\<And>w'. clock (shared w') = clock (shared w) \<Longrightarrow> rds (shared w') = rds (shared w) \<Longrightarrow>
       T w' = (case T w i of Some j \<Rightarrow> if status j = processing then (T w)(i \<mapsto> j\<lparr>progress := Some pct\<rparr>) else T w
               | None \<Rightarrow> T w) \<Longrightarrow>
       Q (has_status processing (T w i), \<exists>j. T w i = Some j \<and> status j = processing \<and> cancel_requested_at j \<noteq> None) w'"
  shows "wp (ctx_write S i pct) Q w"
proof (cases "has_status processing (T w i)")
  case True
  then obtain j where j: "T w i = Some j" "status j = processing" by (auto simp: has_status_def split: option.splits)
  show ?thesis by (rule wp_ctx_write [OF assms(1) j]) (use assms(2) j in \<open>simp del: not_None_eq\<close>)
next
  case False
  let ?f = "\<lambda>j :: job. j\<lparr>progress := Some pct\<rparr>" and ?g = "\<lambda>j. jid j = i \<and> status j = processing"
  have k: "keeps_keys ?f" by (simp add: keeps_keys_def)
  let ?u = "pg_update (sql S) ?g ?f (db (shared w))"
  have none: "\<not> (\<exists>j. T w i = Some j \<and> status j = processing)" using False by (auto simp: has_status_def)
  then have "matching ?g (T w) = {}" by (auto simp: matching_by_id split: option.splits)
  then have n: "fst ?u = 0" by (simp add: update_count [OF k])
  have t: "tbl (snd ?u) = T w"
    using update_tbl_by_id [OF k, of i "\<lambda>j. status j = processing" "db (shared w)"] none by (auto split: option.splits)
  have row: "(case T w i of Some j \<Rightarrow> if status j = processing then (T w)(i \<mapsto> j\<lparr>progress := Some pct\<rparr>) else T w
      | None \<Rightarrow> T w) = T w"
    using none by (auto split: option.split)
  have no_request: "(\<exists>j. T w i = Some j \<and> status j = processing \<and> cancel_requested_at j \<noteq> None) = False"
    using none by blast
  have Q: "Q (False, False) w'"
    if "clock (shared w') = clock (shared w)" "rds (shared w') = rds (shared w)" "T w' = T w" for w'
    using assms(2) [of w', unfolded row no_request] that False by simp
  show ?thesis
    unfolding ctx_write_def
    by (intro wp_bind wp_sql_step assms(1)) (simp add: Let_def n t one_or_none_def wp_return Q)
qed

lemma wp_ctx_read:
  assumes "quiet w"
    and "\<And>w'. shared w' = shared w \<Longrightarrow>
       Q (has_status processing (T w i), \<exists>j. T w i = Some j \<and> status j = processing \<and> cancel_requested_at j \<noteq> None) w'"
  shows "wp (ctx_read S i) Q w"
  unfolding ctx_read_def
  by (intro wp_bind wp_sql_query assms(1))
    (use assms(2) in \<open>auto simp: one_or_none_by_id has_status_def split: option.split intro!: wp_return\<close>)

end

text \<open>
  An undisturbed \<open>cancelled()\<close>: between two polls it answers what the last poll found
  and touches nothing. When a poll is due it answers whether to stop, that is, whether the row is gone, is
  not being processed any more or carries a cancel request; it writes the pending percentage when that
  changed and the job is still being processed, and remembers what it found, when, and what it wrote.
\<close>

lemma poll_outcomes:
  assumes "backend S tbl view idle" and "quiet w"
  shows "case run_state (ctx_cancelled S ctx) w of ((stop, ctx'), w') \<Rightarrow>
     if poll_due (clock (shared w)) ctx
     then (stop \<longleftrightarrow> \<not> runs_on (tbl (db (shared w))) (ctx_job ctx))
        \<and> ctx' = ctx\<lparr>ctx_cached := stop, last_poll := Some (clock (shared w)), last_written_pct := Some (pending_pct ctx)\<rparr>
        \<and> tbl (db (shared w')) = with_progress ctx (tbl (db (shared w)))
     else stop = ctx_cached ctx \<and> ctx' = ctx \<and> shared w' = shared w"
proof -
  let ?Q = "\<lambda>(stop, ctx') (w' :: ('a, 'b) world).
     if poll_due (clock (shared w)) ctx
     then (stop \<longleftrightarrow> \<not> runs_on (tbl (db (shared w))) (ctx_job ctx))
        \<and> ctx' = ctx\<lparr>ctx_cached := stop, last_poll := Some (clock (shared w)), last_written_pct := Some (pending_pct ctx)\<rparr>
        \<and> tbl (db (shared w')) = with_progress ctx (tbl (db (shared w)))
     else stop = ctx_cached ctx \<and> ctx' = ctx \<and> shared w' = shared w"
  note wr = backend.wp_ctx_write_any [OF assms] and rd = backend.wp_ctx_read [OF assms]
  have "wp (ctx_cancelled S ctx) ?Q w"
    unfolding ctx_cancelled_def Let_def poll_due_def [symmetric]
    by (intro wp_bind wp_utc_now wp_if; (rule wr rd)?)
      (auto simp: runs_on_def with_progress_def has_status_def split: option.splits if_splits intro!: wp_return)
  then show ?thesis by (auto simp: wp_def split: prod.splits)
qed

end
