(* ===== verification/Retry.thy ===== *)
theory Retry
  imports Queue
begin

text \<open>
  \<open>app/retry.py\<close>: the backoff schedule and the decision after an attempt that did not complete.
  The job is the copy of the row the caller holds; metrics and log lines are not modelled.
\<close>

section \<open>Definitions\<close>

definition backoff_delay :: "int \<Rightarrow> int list \<Rightarrow> py_error + int" where
  "backoff_delay n sched = (let idx = min (n - 1) (int (length sched) - 1) in py_index sched idx)"

definition schedule_retry_or_fail ::
  "('d, 'r) services \<Rightarrow> settings \<Rightarrow> job \<Rightarrow> json \<Rightarrow> json option \<Rightarrow> ('d, 'r, py_error + bool) io" where
  "schedule_retry_or_fail S cfg job err carrier = (
     let n = attempts job + 1 in
     if n \<ge> max_attempts job then do {
       won \<leftarrow> fail_job S (jid job) err;
       return (Inr won)
     }
     else case backoff_delay n (retry_backoff_schedule cfg) of
       Inl e \<Rightarrow> return (Inl e)
     | Inr delay \<Rightarrow>
         if delay \<le> 0 then do {
           won \<leftarrow> retry_to_pending S (jid job);
           if won then do {
             _ \<leftarrow> enqueue S (stream_for_priority cfg (priority job)) (uuid_str (jid job)) carrier;
             mark_synced S (jid job);
             return (Inr won)
           } else return (Inr won)
         }
         else do {
           now \<leftarrow> utc_now;
           let at = now + delay * second;
           won \<leftarrow> retry_to_scheduled S (jid job) at;
           if won then do {
             schedule S (delayed_zset cfg) (uuid_str (jid job)) at;
             mark_synced S (jid job);
             return (Inr won)
           } else return (Inr won)
         })"

section \<open>The backoff schedule\<close>

lemma backoff_delay_clamped:
  assumes "0 < n" and "sched \<noteq> []"
  shows "backoff_delay n sched = Inr (sched ! min (nat n - 1) (length sched - 1))"
proof -
  let ?i = "min (n - 1) (int (length sched) - 1)"
  from assms have "0 \<le> ?i" "?i < int (length sched)" by auto
  moreover from assms have "nat ?i = min (nat n - 1) (length sched - 1)"
    by (cases sched) (auto simp: min_def nat_diff_distrib)
  ultimately show ?thesis by (simp add: backoff_delay_def Let_def py_index_in_range)
qed

lemma backoff_delay_empty [simp]: "backoff_delay n [] = Inl IndexError"
  by (simp add: backoff_delay_def)

text \<open>The schedule is applied to an attempt number that is at least one.\<close>

definition retry_plan :: "settings \<Rightarrow> job \<Rightarrow> int option" where
  "retry_plan cfg job =
     (if attempts job + 1 \<ge> max_attempts job then None
      else Some (retry_backoff_schedule cfg !
        min (nat (attempts job)) (length (retry_backoff_schedule cfg) - 1)))"

lemma plan_delay:
  assumes "0 \<le> attempts job" and "retry_backoff_schedule cfg \<noteq> []" and "retry_plan cfg job = Some d"
  shows "backoff_delay (attempts job + 1) (retry_backoff_schedule cfg) = Inr d"
  using assms backoff_delay_clamped [of "attempts job + 1" "retry_backoff_schedule cfg"]
  by (auto simp: retry_plan_def nat_add_distrib split: if_splits)

section \<open>Retry or fail\<close>

text \<open>
  What an undisturbed call does to the row and to Redis, by the plan: give up, go back to the
  queue at once, or wait in the delayed set.
\<close>

definition retry_outcome ::
  "('d, 'r) services \<Rightarrow> settings \<Rightarrow> job \<Rightarrow> json \<Rightarrow> json option \<Rightarrow> timestamp
   \<Rightarrow> job \<Rightarrow> redis_view \<Rightarrow> job \<Rightarrow> redis_view \<Rightarrow> bool" where
  "retry_outcome S cfg job err carrier now row v row' v' = (case retry_plan cfg job of
     None \<Rightarrow> row' = row\<lparr>status := failed, error := Some err, completed_at := Some now,
                       attempts := attempts row + 1\<rparr> \<and> v' = v
   | Some d \<Rightarrow>
       if d \<le> 0
       then row' = row\<lparr>status := pending, attempts := attempts row + 1, is_synced_to_redis := True,
                       started_at := None\<rparr>
         \<and> (let s = stream_for_priority cfg (priority job) in
            \<exists>i. v' = add_entry s (i, message_fields S s (uuid_str (jid job)) carrier) v)
       else row' = row\<lparr>status := scheduled, scheduled_at := Some (now + d * second),
                       attempts := attempts row + 1, is_synced_to_redis := True, started_at := None\<rparr>
         \<and> v' = set_score (delayed_zset cfg) (uuid_str (jid job)) (now + d * second) v)"

context backend
begin

lemma guar_retry [guar_intros]:
  "guarantees (lifecycle tbl) (schedule_retry_or_fail S cfg job err carrier)"
  unfolding schedule_retry_or_fail_def by (intro guar_intros)

lemma wp_retry:
  assumes "quiet w" and "0 \<le> attempts job" and "retry_backoff_schedule cfg \<noteq> []"
  shows "wp (schedule_retry_or_fail S cfg job err carrier) (\<lambda>r w'. quiet w' \<and>
      clock (shared w') = clock (shared w) \<and>
      (case T w (jid job) of
         Some row \<Rightarrow>
           if status row = processing
           then r = Inr True \<and> (\<exists>row'. T w' = (T w)(jid job \<mapsto> row') \<and>
                  retry_outcome S cfg job err carrier (clock (shared w)) row (V w) row' (V w'))
           else r = Inr False \<and> T w' = T w \<and> V w' = V w
       | None \<Rightarrow> r = Inr False \<and> T w' = T w \<and> V w' = V w)) w"
proof (cases "retry_plan cfg job")
  case None
  then have "max_attempts job \<le> attempts job + 1" by (auto simp: retry_plan_def split: if_splits)
  then show ?thesis
    unfolding schedule_retry_or_fail_def Let_def
    by (simp, intro wp_intros assms(1)) (auto simp: retry_outcome_def None split: option.splits)
next
  case (Some d)
  note delay = plan_delay [OF assms(2,3) Some]
  from Some have "\<not> max_attempts job \<le> attempts job + 1" by (auto simp: retry_plan_def split: if_splits)
  with delay show ?thesis
    unfolding schedule_retry_or_fail_def Let_def
    by (simp split del: if_split, intro wp_intros assms(1))
      (auto simp: retry_outcome_def Some Let_def split: option.splits)
qed

end

section \<open>Winning a transition releases the row\<close>

text \<open>One of the program's own steps took the row out of \<open>processing\<close>.\<close>

definition released :: "('d \<Rightarrow> table) \<Rightarrow> uuid \<Rightarrow> ('d, 'r) step list \<Rightarrow> bool" where
  "released tbl i ts \<longleftrightarrow> (\<exists>(s, s') \<in> set ts. has_status processing (tbl (db s) i)
     \<and> (\<exists>j. tbl (db s') i = Some j \<and> status j \<noteq> processing))"

lemma released_append [simp]: "released tbl i (ts @ us) \<longleftrightarrow> released tbl i ts \<or> released tbl i us"
  by (auto simp: released_def)

lemma emits_any: "guarantees G m \<Longrightarrow> emits m (\<lambda>_ _. True)"
  unfolding guarantees_def by (erule emits_weaken) simp

lemma emits_release_mid:
  assumes "emits m (\<lambda>a _. A a)" and "\<And>a. A a \<Longrightarrow> emits (f a) (\<lambda>b us. C b \<longrightarrow> released tbl i us)"
  shows "emits (m \<bind> f) (\<lambda>b us. C b \<longrightarrow> released tbl i us)"
  by (rule emits_bind [OF assms(1)], rule emits_weaken [OF assms(2)]) simp_all

lemma emits_release_last:
  assumes "guarantees G m" and "\<And>a. emits (f a) (\<lambda>b us. C b \<longrightarrow> released tbl i us)"
  shows "emits (m \<bind> f) (\<lambda>b us. C b \<longrightarrow> released tbl i us)"
  by (rule emits_bind [OF emits_any [OF assms(1)]], rule emits_weaken [OF assms(2)]) simp

lemma emits_release_first:
  fixes m :: "('d, 'r, 'a) io"
  assumes "emits m (\<lambda>a ts. W a \<longrightarrow> released tbl i ts)"
    and "\<And>a. guarantees G (f a)" and "\<And>a. \<not> W a \<Longrightarrow> emits (f a) (\<lambda>b _. \<not> C b)"
  shows "emits (m \<bind> f) (\<lambda>b us. C b \<longrightarrow> released tbl i us)"
proof (rule emits_bind [OF assms(1)])
  fix a ts assume "W a \<longrightarrow> released tbl i (ts :: ('d, 'r) step list)"
  then show "emits (f a) (\<lambda>b us. C b \<longrightarrow> released tbl i (ts @ us))"
    by (cases "W a") (auto intro: emits_weaken [OF emits_any [OF assms(2)]] emits_weaken [OF assms(3)])
qed

context guarded_transition
begin

lemma emits_released:
  assumes "\<And>j. guard j \<Longrightarrow> status j = processing" and "\<And>t j. status (eff t j) \<noteq> processing"
  shows "emits (op i) (\<lambda>won ts. won \<longrightarrow> released tbl i ts)"
  by (rule emits_weaken [OF one_step]) (use assms in \<open>force simp: released_def\<close>)

end

context backend
begin

lemma released_transitions:
  "emits (fail_job S i err) (\<lambda>won ts. won \<longrightarrow> released tbl i ts)"
  "emits (complete_job S i res pct) (\<lambda>won ts. won \<longrightarrow> released tbl i ts)"
  "emits (cancel_job S i summary) (\<lambda>won ts. won \<longrightarrow> released tbl i ts)"
  "emits (retry_to_pending S i) (\<lambda>won ts. won \<longrightarrow> released tbl i ts)"
  "emits (retry_to_scheduled S i at) (\<lambda>won ts. won \<longrightarrow> released tbl i ts)"
  by (rule fail.emits_released complete.emits_released cancel_run.emits_released
      retry_now.emits_released retry_later.emits_released; simp)+

lemma released_retry:
  "emits (schedule_retry_or_fail S cfg job err carrier) (\<lambda>r ts. r = Inr True \<longrightarrow> released tbl (jid job) ts)"
  unfolding schedule_retry_or_fail_def Let_def
  by (auto split: sum.split intro!: emits_return emits_release_first [OF released_transitions(1)]
      emits_release_first [OF released_transitions(4)] emits_release_last [OF guar_utc_now]
      emits_release_first [OF released_transitions(5)] guar_intros)

end

section \<open>Properties\<close>

text \<open>
  The delay after an attempt number that is at least one is the entry of the schedule
  at that position, the last entry from then on; an empty schedule raises \<open>IndexError\<close>.
\<close>

lemma backoff_total:
  assumes "0 < n"
  shows "backoff_delay n sched =
     (if sched = [] then Inl IndexError
      else Inr (if nat n \<le> length sched then sched ! (nat n - 1) else last sched))"
proof (cases "sched = []")
  case False
  then show ?thesis
    using backoff_delay_clamped [OF assms False] by (auto simp: min_def last_conv_nth)
qed simp

text \<open>
  C20 (retry_or_fail_outcomes). An undisturbed \<open>schedule_retry_or_fail\<close>: when the row is still being
  processed, the caller wins and the row fails for good at its last attempt, goes back to \<open>pending\<close> with a
  message on the stream of its priority, or is scheduled at now plus the delay and stands in the delayed
  set with that time; the attempt is counted and the row marked as handed over. When the row is not
  being processed any more, the caller loses and nothing changes anywhere.
\<close>

theorem retry_or_fail_outcomes:
  assumes "backend S tbl view idle" and "quiet w" and "0 \<le> attempts job"
    and "retry_backoff_schedule cfg \<noteq> []"
  shows "case run_state (schedule_retry_or_fail S cfg job err carrier) w of (r, w') \<Rightarrow>
     if has_status processing (tbl (db (shared w)) (jid job))
     then r = Inr True \<and> (\<exists>row row'. tbl (db (shared w)) (jid job) = Some row
            \<and> tbl (db (shared w')) = (tbl (db (shared w)))(jid job \<mapsto> row')
            \<and> retry_outcome S cfg job err carrier (clock (shared w)) row (view (rds (shared w)))
                row' (view (rds (shared w'))))
     else r = Inr False \<and> tbl (db (shared w')) = tbl (db (shared w))
            \<and> view (rds (shared w')) = view (rds (shared w))"
proof -
  obtain r w' where run: "run_state (schedule_retry_or_fail S cfg job err carrier) w = (r, w')" by fastforce
  show ?thesis
    using wpD [OF backend.wp_retry [OF assms] run] unfolding run
    by (auto simp: has_status_def split: option.splits if_splits)
qed

theorem retry_or_fail_outcomes_witness:
  "case run_state (schedule_retry_or_fail ref_services sample_cfg (sample_job processing) JNull None)
       (sample_world [sample_job processing]) of (r, w') \<Rightarrow>
     r = Inr True \<and> (\<exists>row'. ref_tbl (db (shared w')) = (ref_tbl [sample_job processing])(7 \<mapsto> row')
       \<and> status row' = pending \<and> attempts row' = 1)"
  using retry_or_fail_outcomes [OF ref_backend, of "sample_world [sample_job processing]" "sample_job processing"
      sample_cfg JNull None]
  by (auto simp: retry_outcome_def retry_plan_def split: prod.splits)

end
