(* ===== verification/Worker.thy ===== *)
theory Worker
  imports Handlers Retry
begin

text \<open>
  \<open>app/worker/runner.py\<close> and \<open>app/worker/recycler.py\<close>: one delivered message from the claim to the
  acknowledgement, the polling loop, and the memory threshold that ends it. Spans, metrics and log
  lines are not modelled. The cancellation of a task from outside (shutdown) is a crash: it ends the
  program between two atomic steps.
\<close>

section \<open>Processing one job\<close>

record Outcome =
  out_ack :: bool
  label :: string

text \<open>
  \<open>f">{settings.job_handler_timeout_s}s"\<close>: a number of seconds with at most six decimals prints as
  itself, with at least one decimal.
\<close>

definition seconds_repr :: "int \<Rightarrow> string" where
  "seconds_repr us =
     (let frac = drop 1 (dec_nat (nat (us mod second) + 1000000));
          cut = py_rstrip CHR ''0'' frac
      in py_str_int (us div second) @ ''.'' @ (if cut = [] then ''0'' else cut))"

definition error_json :: "string \<Rightarrow> string \<Rightarrow> json" where
  "error_json t msg = JDict [(''type'', JStr t), (''message'', JStr msg)]"

definition timeout_error :: "settings \<Rightarrow> json" where
  "timeout_error cfg = error_json ''HandlerTimeout'' (''>'' @ seconds_repr (job_handler_timeout_us cfg) @ ''s'')"

definition retry_outcome_label ::
  "('d, 'r) services \<Rightarrow> settings \<Rightarrow> job \<Rightarrow> json \<Rightarrow> string \<Rightarrow> ('d, 'r, py_error + Outcome) io" where
  "retry_outcome_label S cfg job err lab = do {
     r \<leftarrow> schedule_retry_or_fail S cfg job err None;
     case r of
       Inl e \<Rightarrow> return (Inl e)
     | Inr won \<Rightarrow> return (Inr \<lparr>out_ack = won, label = lab\<rparr>)
   }"

text \<open>
  What follows the handler: the \<open>except\<close> clauses and the completion. \<open>run_payload\<close> is the \<open>try\<close> block
  with the clauses for a payload that does not validate.
\<close>

definition settle ::
  "('d, 'r) services \<Rightarrow> settings \<Rightarrow> job \<Rightarrow> handler_outcome \<Rightarrow> ('d, 'r, py_error + Outcome) io" where
  "settle S cfg job r = (case r of
     CancelledWith summary \<Rightarrow> do {
       won \<leftarrow> cancel_job S (jid job) summary;
       return (Inr \<lparr>out_ack = won, label = ''cancelled''\<rparr>)
     }
   | TimedOut \<Rightarrow> retry_outcome_label S cfg job (timeout_error cfg) ''timeout''
   | Raised e \<Rightarrow> (case e of Exn t msg \<Rightarrow>
       retry_outcome_label S cfg job (error_json t msg) ''retried'')
   | Done res \<Rightarrow> do {
       won \<leftarrow> complete_job S (jid job) res (if jtype job = batch then Some 100 else None);
       if \<not> won then return (Inr \<lparr>out_ack = False, label = ''lost''\<rparr>)
       else return (Inr \<lparr>out_ack = True, label = ''completed''\<rparr>)
     })"

definition run_payload ::
  "('d, 'r) services \<Rightarrow> schema_ops \<Rightarrow> settings \<Rightarrow> (nat \<Rightarrow> draw) \<Rightarrow> job \<Rightarrow> ('d, 'r, py_error + Outcome) io" where
  "run_payload S P cfg rnd job = (
     let ctx = PgJobContext (jid job) (cancel_poll_interval_us cfg) in
     case validate_payload P (jtype job) (payload job) (Some cfg) of
       Inl e \<Rightarrow> (case e of
         PayloadPolicyError msg \<Rightarrow> do {
           won \<leftarrow> fail_job S (jid job) (error_json ''PayloadPolicyError'' msg);
           return (Inr \<lparr>out_ack = won, label = ''policy_rejected''\<rparr>)
         }
       | ValidationError msg \<Rightarrow>
           retry_outcome_label S cfg job (error_json ''ValidationError'' msg) ''retried''
       | PayloadIndexError \<Rightarrow>
           retry_outcome_label S cfg job (error_json ''IndexError'' ''list index out of range'') ''retried'')
     | Inr p \<Rightarrow> do {
         r \<leftarrow> run_with_timeout (\<lambda>deadline. run_handler S deadline rnd p ctx) (job_handler_timeout_us cfg);
         settle S cfg job r
       })"

definition process_job ::
  "('d, 'r) services \<Rightarrow> schema_ops \<Rightarrow> settings \<Rightarrow> (nat \<Rightarrow> draw) \<Rightarrow> uuid \<Rightarrow> ('d, 'r, py_error + Outcome) io" where
  "process_job S P cfg rnd job_id = do {
     claimed \<leftarrow> claim_job S job_id;
     if \<not> claimed then return (Inr \<lparr>out_ack = True, label = ''skipped''\<rparr>)
     else do {
       got \<leftarrow> get_job S job_id None;
       case got of
         None \<Rightarrow> return (Inl AttributeError)
       | Some job \<Rightarrow>
           if user_id job = None then do {
             won \<leftarrow> fail_job S (jid job) (JDict [(''reason'', JStr ''ownerless job dropped'')]);
             return (Inr \<lparr>out_ack = won, label = ''dropped_ownerless''\<rparr>)
           }
           else do {
             _ \<leftarrow> (if jtype job = batch then init_progress S (jid job) else return False);
             run_payload S P cfg rnd job
           }
     }
   }"

section \<open>Handling one message\<close>

definition handle_message ::
  "('d, 'r) services \<Rightarrow> schema_ops \<Rightarrow> settings \<Rightarrow> (nat \<Rightarrow> draw) \<Rightarrow> delivery \<Rightarrow> ('d, 'r, py_error + Outcome) io" where
  "handle_message S P cfg rnd msg = (case msg of (stream, message_id, fs) \<Rightarrow>
     case message_job_uuid fs of
       Inl e \<Rightarrow> do {
         ack S stream (consumer_group cfg) message_id;
         return (Inr \<lparr>out_ack = True, label = ''poison''\<rparr>)
       }
     | Inr job_id \<Rightarrow> do {
         r \<leftarrow> process_job S P cfg rnd job_id;
         case r of
           Inl e \<Rightarrow> return (Inl e)
         | Inr outcome \<Rightarrow> do {
             _ \<leftarrow> (if out_ack outcome then ack S stream (consumer_group cfg) message_id else return ());
             return (Inr outcome)
           }
       })"

section \<open>The polling loop\<close>

text \<open>\<open>MemoryRecycler\<close>: \<open>rss\<close> is what the process would report if asked.\<close>

record recycler =
  max_bytes :: "int option"
  triggered :: bool

definition MemoryRecycler :: "int option \<Rightarrow> recycler" where
  "MemoryRecycler max_rss_mb = \<lparr>max_bytes = map_option (\<lambda>m. m * (1024 * 1024)) max_rss_mb, triggered = False\<rparr>"

definition should_recycle :: "int \<Rightarrow> recycler \<Rightarrow> bool \<times> recycler" where
  "should_recycle rss rc = (case max_bytes rc of
     None \<Rightarrow> (triggered rc, rc)
   | Some cap \<Rightarrow>
       if triggered rc then (triggered rc, rc)
       else let rc = (if rss > cap then rc\<lparr>triggered := True\<rparr> else rc) in (triggered rc, rc))"

text \<open>
  The pull half of the loop: the messages handed to tasks in one round. Of the batch that
  \<open>read_priority\<close> answers, the code takes the first message.
\<close>

definition pull_one ::
  "('d, 'r) services \<Rightarrow> settings \<Rightarrow> string \<Rightarrow> ('d, 'r, delivery option) io" where
  "pull_one S cfg consumer = do {
     batch \<leftarrow> read_priority S (ordered_streams cfg) (consumer_group cfg) consumer (block_ms cfg) 1;
     case batch of [] \<Rightarrow> return None | m # _ \<Rightarrow> return (Some m)
   }"

text \<open>
  One round of the loop with the task it starts run to its end, and the whole loop for a given
  sequence of rounds: for each, whether a stop was requested and what the memory gauge reads. A task
  that ends with an exception ends the task group, and with it the loop.
\<close>

definition work_round ::
  "('d, 'r) services \<Rightarrow> schema_ops \<Rightarrow> settings \<Rightarrow> string \<Rightarrow> (nat \<Rightarrow> draw) \<Rightarrow> ('d, 'r, (py_error + Outcome) option) io" where
  "work_round S P cfg consumer rnd = do {
     m \<leftarrow> pull_one S cfg consumer;
     case m of
       None \<Rightarrow> return None
     | Some msg \<Rightarrow> do { r \<leftarrow> handle_message S P cfg rnd msg; return (Some r) }
   }"

fun run_rounds ::
  "('d, 'r) services \<Rightarrow> schema_ops \<Rightarrow> settings \<Rightarrow> string \<Rightarrow> (bool \<times> int \<times> (nat \<Rightarrow> draw)) list \<Rightarrow> recycler
   \<Rightarrow> ('d, 'r, py_error + recycler) io" where
  "run_rounds S P cfg consumer [] rc = return (Inr rc)"
| "run_rounds S P cfg consumer ((stop, rss, rnd) # rounds) rc =
     (if stop then return (Inr rc)
      else case should_recycle rss rc of (recycle, rc') \<Rightarrow>
        if recycle then return (Inr rc')
        else do {
          r \<leftarrow> work_round S P cfg consumer rnd;
          case r of
            Some (Inl e) \<Rightarrow> return (Inl e)
          | _ \<Rightarrow> run_rounds S P cfg consumer rounds rc'
        })"

definition worker_run_forever ::
  "('d, 'r) services \<Rightarrow> schema_ops \<Rightarrow> settings \<Rightarrow> string \<Rightarrow> (bool \<times> int \<times> (nat \<Rightarrow> draw)) list
   \<Rightarrow> ('d, 'r, py_error + recycler) io" where
  "worker_run_forever S P cfg consumer rounds = do {
     foreach (ordered_streams cfg) (\<lambda>stream. ensure_group S stream (consumer_group cfg));
     run_rounds S P cfg consumer rounds (MemoryRecycler (worker_max_rss_mb cfg))
   }"

section \<open>Every step keeps to the life cycle\<close>

context backend
begin

lemma guar_run_with_timeout [guar_intros]:
  "(\<And>d. guarantees G (coro d)) \<Longrightarrow> guarantees G (run_with_timeout coro t)"
  unfolding run_with_timeout_def by (intro guar_intros)

lemma guar_process_job [guar_intros]: "guarantees (lifecycle tbl) (process_job S P cfg rnd i)"
proof -
  have r: "guarantees (lifecycle tbl) (retry_outcome_label S cfg job err lab)" for job err lab
    unfolding retry_outcome_label_def by (intro guar_intros)
  have s: "guarantees (lifecycle tbl) (settle S cfg job out)" for job out
    by (cases out) (auto simp: settle_def intro!: guar_intros r split: exn.split)
  have "guarantees (lifecycle tbl) (run_payload S P cfg rnd job)" for job
    by (auto simp: run_payload_def Let_def intro!: guar_intros r s split: payload_error.split sum.split)
  then show ?thesis
    unfolding process_job_def by (intro guar_intros)
qed

lemma guar_handle_message [guar_intros]: "guarantees (lifecycle tbl) (handle_message S P cfg rnd msg)"
  unfolding handle_message_def by (intro guar_intros)

lemma guar_work_round [guar_intros]: "guarantees (lifecycle tbl) (work_round S P cfg consumer rnd)"
  unfolding work_round_def pull_one_def by (intro guar_intros)

lemma guar_run_rounds [guar_intros]: "guarantees (lifecycle tbl) (run_rounds S P cfg consumer rounds rc)"
proof (induction rounds arbitrary: rc)
  case (Cons r rounds)
  then show ?case by (cases r) (auto intro!: guar_intros split: option.split sum.split)
qed (simp add: guar_return)

lemma guar_worker: "guarantees (lifecycle tbl) (worker_run_forever S P cfg consumer rounds)"
  unfolding worker_run_forever_def by (intro guar_intros)

end

section \<open>Acknowledging\<close>

text \<open>An outcome that lets the message go although the row was claimed.\<close>

fun lets_go :: "py_error + Outcome \<Rightarrow> bool" where
  "lets_go (Inl e) = False"
| "lets_go (Inr out) = (out_ack out \<and> label out \<noteq> ''skipped'')"

context backend
begin

lemma emits_get_job_id: "emits (get_job S i None) (\<lambda>g _. \<forall>j. g = Some j \<longrightarrow> jid j = i)"
  unfolding get_job_def
  by (simp, rule emits_bind [OF emits_sql_query [where Q = "\<lambda>rows _. \<forall>j. one_or_none rows = Some j \<longrightarrow> jid j = i"]])
    (auto simp: one_or_none_by_id intro!: emits_return dest: tbl_id)

lemma released_retry_label:
  "emits (retry_outcome_label S cfg job err lab) (\<lambda>r ts. lets_go r \<longrightarrow> released tbl (jid job) ts)"
  unfolding retry_outcome_label_def
  by (rule emits_release_first [OF released_retry]) (auto split: sum.split intro!: emits_return guar_intros)

lemma released_fail:
  "emits (fail_job S i err \<bind> (\<lambda>won. return (Inr \<lparr>out_ack = won, label = lab\<rparr>)))
     (\<lambda>r ts. lets_go r \<longrightarrow> released tbl i ts)"
  by (rule emits_release_first [OF released_transitions(1)]) (auto intro!: emits_return guar_intros)

lemma released_settle: "emits (settle S cfg job out) (\<lambda>r ts. lets_go r \<longrightarrow> released tbl (jid job) ts)"
proof (cases out)
  case (Done res)
  then show ?thesis
    by (auto simp: settle_def intro!: emits_release_first [OF released_transitions(2)] emits_return guar_intros)
next
  case (CancelledWith sm)
  then show ?thesis
    by (auto simp: settle_def intro!: emits_release_first [OF released_transitions(3)] emits_return guar_intros)
qed (auto simp: settle_def intro!: released_retry_label split: exn.split)

lemma released_run_payload:
  "emits (run_payload S P cfg rnd job) (\<lambda>r ts. lets_go r \<longrightarrow> released tbl (jid job) ts)"
  by (auto simp: run_payload_def Let_def split: sum.split payload_error.split
      intro!: released_retry_label released_fail
        emits_release_last [OF guar_run_with_timeout [OF guar_handler(2)]] released_settle)

lemma released_process_job:
  "emits (process_job S P cfg rnd i) (\<lambda>r ts. lets_go r \<longrightarrow> released tbl i ts)"
  unfolding process_job_def
proof (rule emits_release_last [OF guar_transitions(1)])
  fix claimed
  show "emits (if \<not> claimed then return (Inr \<lparr>out_ack = True, label = ''skipped''\<rparr>)
     else get_job S i None \<bind> (\<lambda>got. case got of None \<Rightarrow> return (Inl AttributeError)
       | Some job \<Rightarrow> if user_id job = None
           then fail_job S (jid job) (JDict [(''reason'', JStr ''ownerless job dropped'')]) \<bind>
                  (\<lambda>won. return (Inr \<lparr>out_ack = won, label = ''dropped_ownerless''\<rparr>))
           else (if jtype job = batch then init_progress S (jid job) else return False) \<bind>
                  (\<lambda>_. run_payload S P cfg rnd job)))
    (\<lambda>r ts. lets_go r \<longrightarrow> released tbl i ts)"
  proof (cases claimed)
    case True
    have "emits (run_payload S P cfg rnd job) (\<lambda>r ts. lets_go r \<longrightarrow> released tbl i ts)" if "jid job = i" for job
      using released_run_payload [of P cfg rnd job] that by simp
    with True show ?thesis
      by (auto intro!: emits_release_mid [OF emits_get_job_id] emits_return released_fail
          emits_release_last [OF guar_transitions(7)] emits_release_last [OF guar_return]
          split: option.split)
  qed (simp add: emits_return)
qed

lemma released_handle_message:
  assumes "message_job_uuid fs = Inr i"
  shows "emits (handle_message S P cfg rnd (stream, message_id, fs)) (\<lambda>r ts. lets_go r \<longrightarrow> released tbl i ts)"
  unfolding handle_message_def prod.case assms sum.case
  by (rule emits_release_first [OF released_process_job])
    (auto split: sum.split intro!: guar_intros emits_return emits_bind [OF emits_any [OF guar_queue(3)]]
       emits_bind [OF emits_return])

end

section \<open>A single job, undisturbed\<close>

text \<open>What becomes of a claimed job that is not a batch, from its payload and what its handler draws.\<close>

datatype fate = Complete json int | Retry json string int | Reject json

definition job_fate :: "schema_ops \<Rightarrow> settings \<Rightarrow> draw \<Rightarrow> job \<Rightarrow> fate" where
  "job_fate P cfg dr job = (case validate_payload P (jtype job) (payload job) (Some cfg) of
     Inl (PayloadPolicyError msg) \<Rightarrow> Reject (error_json ''PayloadPolicyError'' msg)
   | Inl (ValidationError msg) \<Rightarrow> Retry (error_json ''ValidationError'' msg) ''retried'' 0
   | Inl PayloadIndexError \<Rightarrow> Retry (error_json ''IndexError'' ''list index out of range'') ''retried'' 0
   | Inr p \<Rightarrow>
       let budget = job_handler_timeout_us cfg; spent = elapsed budget dr in
       (case item_result budget dr (hd (payload_items p)) of
          Done v \<Rightarrow> Complete v spent
        | Raised (Exn t msg) \<Rightarrow> Retry (error_json t msg) ''retried'' spent
        | _ \<Rightarrow> Retry (timeout_error cfg) ''timeout'' spent))"

definition settled ::
  "('d, 'r) services \<Rightarrow> settings \<Rightarrow> timestamp \<Rightarrow> fate \<Rightarrow> job \<Rightarrow> redis_view \<Rightarrow> py_error + Outcome \<Rightarrow> job \<Rightarrow> redis_view \<Rightarrow> bool" where
  "settled S cfg now f job v r row' v' = (case f of
     Complete res d \<Rightarrow> r = Inr \<lparr>out_ack = True, label = ''completed''\<rparr> \<and> v' = v
       \<and> row' = job\<lparr>status := completed, result := Some res, completed_at := Some (now + d),
                    attempts := attempts job + 1\<rparr>
   | Reject err \<Rightarrow> r = Inr \<lparr>out_ack = True, label = ''policy_rejected''\<rparr> \<and> v' = v
       \<and> row' = job\<lparr>status := failed, error := Some err, completed_at := Some now,
                    attempts := attempts job + 1\<rparr>
   | Retry err lab d \<Rightarrow> r = Inr \<lparr>out_ack = True, label = lab\<rparr>
       \<and> retry_outcome S cfg job err None (now + d) job v row' v')"

lemma single_payload:
  assumes "validate_payload P t raw cfg = Inr p" and "t \<noteq> batch"
  obtains item where "p = SinglePayload item"
  using assms by (cases t) (auto simp: validate_payload_def job_model_def Let_def split: json.splits option.splits if_splits)

context backend
begin

lemma wp_retry_label:
  assumes "quiet w" and "T w (jid job) = Some job" and "status job = processing"
    and "0 \<le> attempts job" and "retry_backoff_schedule cfg \<noteq> []"
  shows "wp (retry_outcome_label S cfg job err lab) (\<lambda>r w'. \<exists>row'. T w' = (T w)(jid job \<mapsto> row')
     \<and> r = Inr \<lparr>out_ack = True, label = lab\<rparr>
     \<and> retry_outcome S cfg job err None (clock (shared w)) job (V w) row' (V w')) w"
  unfolding retry_outcome_label_def
  by (intro wp_bind, rule wp_conseq [OF wp_retry [OF assms(1,4,5)]])
    (use assms in \<open>auto intro!: wp_return\<close>)

lemma wp_settle_item:
  assumes "quiet w" and "T w (jid job) = Some job" and "status job = processing" and "jtype job \<noteq> batch"
    and "0 \<le> attempts job" and "retry_backoff_schedule cfg \<noteq> []"
    and valid: "validate_payload P (jtype job) (payload job) (Some cfg) = Inr (SinglePayload item)"
    and w1: "db (shared w1) = db (shared w)" "rds (shared w1) = rds (shared w)" "script w1 = script w"
      "clock (shared w1) = clock (shared w) + elapsed (job_handler_timeout_us cfg) (rnd 0)"
  shows "wp (settle S cfg job (item_result (job_handler_timeout_us cfg) (rnd 0) item))
     (\<lambda>r w'. \<exists>row'. T w' = (T w)(jid job \<mapsto> row')
       \<and> settled S cfg (clock (shared w)) (job_fate P cfg (rnd 0) job) job (V w) r row' (V w')) w1"
proof -
  have q: "quiet w1" using w1(3) assms(1) by (simp add: quiet_def)
  have row: "T w1 (jid job) = Some job" using w1(1) assms(2) by simp
  note retry = wp_conseq [OF wp_retry_label [OF q row assms(3,5,6)]]
  show ?thesis
  proof (cases "item_result (job_handler_timeout_us cfg) (rnd 0) item")
    case (Done v)
    then show ?thesis
      unfolding settle_def Done handler_outcome.case
      by (intro wp_intros q) (use row assms w1 in \<open>auto simp: settled_def job_fate_def valid Let_def Done\<close>)
  next
    case (Raised e)
    then show ?thesis
      by (cases e) (auto simp: settle_def settled_def job_fate_def valid w1 Let_def intro!: retry)
  next
    case TimedOut
    then show ?thesis
      by (auto simp: settle_def settled_def job_fate_def valid w1 Let_def intro!: retry)
  next
    case (CancelledWith v)
    then show ?thesis by (auto simp: item_result_def split: if_splits item_payload.splits)
  qed
qed

lemma wp_run_payload:
  assumes "quiet w" and "T w (jid job) = Some job" and "status job = processing" and "jtype job \<noteq> batch"
    and "0 \<le> attempts job" and "retry_backoff_schedule cfg \<noteq> []"
  shows "wp (run_payload S P cfg rnd job) (\<lambda>r w'. \<exists>row'. T w' = (T w)(jid job \<mapsto> row')
     \<and> settled S cfg (clock (shared w)) (job_fate P cfg (rnd 0) job) job (V w) r row' (V w')) w"
proof (cases "validate_payload P (jtype job) (payload job) (Some cfg)")
  case (Inl e)
  note retry = wp_conseq [OF wp_retry_label [OF assms(1,2,3,5,6)]]
  show ?thesis
    unfolding run_payload_def Let_def Inl sum.case
    by (cases e; simp; (rule retry | intro wp_intros assms(1)))
      (use assms(2,3) in \<open>auto simp: settled_def job_fate_def Inl\<close>)
next
  case (Inr p)
  obtain item where p: "p = SinglePayload item" using single_payload [OF Inr assms(4)] .
  let ?budget = "job_handler_timeout_us cfg"
  note settle = wp_settle_item [OF assms Inr [unfolded p]]
  show ?thesis
    unfolding run_payload_def Let_def Inr sum.case run_with_timeout_def run_handler_def p payload_model.case
    by (intro wp_bind wp_utc_now wp_run_item) (use settle in simp)
qed

end

context backend
begin

lemma wp_process_single:
  assumes "quiet w" and "T w i = Some j" and "claimable (status j)" and "user_id j \<noteq> None"
    and "jtype j \<noteq> batch" and "0 \<le> attempts j" and "retry_backoff_schedule cfg \<noteq> []"
  shows "wp (process_job S P cfg rnd i) (\<lambda>r w'. \<exists>row'. T w' = (T w)(i \<mapsto> row')
     \<and> settled S cfg (clock (shared w)) (job_fate P cfg (rnd 0) j)
         (j\<lparr>status := processing, started_at := Some (clock (shared w))\<rparr>) (V w) r row' (V w')) w"
proof -
  let ?c = "j\<lparr>status := processing, started_at := Some (clock (shared w))\<rparr>"
  have i: "jid j = i" using tbl_id assms(2) by blast
  have fate: "job_fate P cfg (rnd 0) ?c = job_fate P cfg (rnd 0) j" by (simp add: job_fate_def)
  have run: "wp (run_payload S P cfg rnd ?c) (\<lambda>r w'. \<exists>row'. T w' = (T w)(i \<mapsto> row')
      \<and> settled S cfg (clock (shared w)) (job_fate P cfg (rnd 0) j) ?c (V w) r row' (V w')) w2"
    if "quiet w2" "T w2 = (T w)(i \<mapsto> ?c)" "rds (shared w2) = rds (shared w)" "clock (shared w2) = clock (shared w)" for w2
    by (rule wp_conseq [OF wp_run_payload [of w2 ?c cfg P rnd]]) (use that i assms fate in auto)
  show ?thesis
    unfolding process_job_def
    by (intro wp_intros assms(1))
      (use assms in \<open>auto simp: claimable_def split: option.splits intro!: run wp_return\<close>)
qed

end

text \<open>
  C2 (process_job_single). A claimable job that has an owner and is not a batch, processed without
  interference: it completes with the handler's result; or, when the payload violates the policy, it
  fails at once; or, when validation or the handler fails or the handler exceeds its time, it is
  retried or failed as the retry rules say. The attempt is counted, no other row changes, and the
  message is acknowledged.
\<close>

theorem process_job_single:
  assumes "backend S tbl view idle" and "quiet w" and "tbl (db (shared w)) i = Some j"
    and "claimable (status j)" and "user_id j \<noteq> None" and "jtype j \<noteq> batch" and "0 \<le> attempts j"
    and "retry_backoff_schedule cfg \<noteq> []"
  shows "case run_state (process_job S P cfg rnd i) w of (r, w') \<Rightarrow>
     \<exists>row'. tbl (db (shared w')) = (tbl (db (shared w)))(i \<mapsto> row')
       \<and> settled S cfg (clock (shared w)) (job_fate P cfg (rnd 0) j)
           (j\<lparr>status := processing, started_at := Some (clock (shared w))\<rparr>)
           (view (rds (shared w))) r row' (view (rds (shared w')))"
  using backend.wp_process_single [OF assms(1-8), of P rnd] by (simp add: wp_def)

theorem process_job_single_witness:
  "case run_state (process_job ref_services sample_schema sample_cfg
       (\<lambda>_. \<lparr>nap = 4000000, coin = False, fresh_id = 5\<rparr>) 7) (sample_world [sample_job pending]) of (r, w') \<Rightarrow>
     \<exists>row'. ref_tbl (db (shared w')) = (ref_tbl [sample_job pending])(7 \<mapsto> row')
       \<and> r = Inr \<lparr>out_ack = True, label = ''completed''\<rparr> \<and> status row' = completed \<and> attempts row' = 1"
  using process_job_single [OF ref_backend, of "sample_world [sample_job pending]" 7 "sample_job pending" sample_cfg
      sample_schema "\<lambda>_. \<lparr>nap = 4000000, coin = False, fresh_id = 5\<rparr>"]
  by (auto simp: settled_def job_fate_def validate_payload_def job_model_def item_model_def
      report_payload_def only_keys_def check_policy_def check_item_policy_def Let_def item_result_def
      split: prod.splits)


lemma sample_fate:
  "job_fate sample_schema sample_cfg \<lparr>nap = 4000000, coin = False, fresh_id = 5\<rparr> (sample_job st) =
     Complete (JDict [(''file_url'', JStr (''https://reports.local/'' @ take 12 (uuid_hex 5) @ ''.pdf''))]) 4000000"
  by (simp add: job_fate_def validate_payload_def job_model_def item_model_def report_payload_def
      only_keys_def check_policy_def check_item_policy_def Let_def item_result_def elapsed_def bound_params_def)


context backend
begin

lemma wp_process_skipped:
  assumes "quiet w" and "\<And>j. T w i = Some j \<Longrightarrow> \<not> claimable (status j)"
  shows "wp (process_job S P cfg rnd i) (\<lambda>r w'. r = Inr \<lparr>out_ack = True, label = ''skipped''\<rparr>
     \<and> T w' = T w \<and> V w' = V w) w"
  unfolding process_job_def
  by (intro wp_bind claim.wp_op assms(1)) (use assms(2) in \<open>simp_all add: claimable_def wp_return\<close>)

lemma wp_process_ownerless:
  assumes "quiet w" and row: "T w i = Some j" and "claimable (status j)" and "user_id j = None"
  shows "wp (process_job S P cfg rnd i) (\<lambda>r w'. r = Inr \<lparr>out_ack = True, label = ''dropped_ownerless''\<rparr>
     \<and> T w' = (T w)(i \<mapsto> j\<lparr>started_at := Some (clock (shared w)), status := failed,
          error := Some (JDict [(''reason'', JStr ''ownerless job dropped'')]), completed_at := Some (clock (shared w)), attempts := attempts j + 1\<rparr>)
     \<and> V w' = V w) w"
proof -
  have i: "jid j = i" using row by (rule tbl_id)
  show ?thesis
    unfolding process_job_def
    by (intro wp_bind claim.wp_op assms(1), simp_all add: row, intro wp_bind wp_get_job)
      (use assms(3,4) i in \<open>auto simp: claimable_def intro!: wp_bind fail.wp_op wp_return\<close>)
qed

end

text \<open>
  C21 (process_job_guards). Deliveries that do not run a handler, undisturbed: for a row that is absent or
  not waiting (a duplicate message, a cancelled job) nothing changes and the message is let go; a job
  without an owner fails at once with a reason, its attempt counted, and its message is let go.
\<close>

theorem process_job_guards:
  assumes "backend S tbl view idle" and "quiet w"
    and "\<forall>j. tbl (db (shared w)) i = Some j \<longrightarrow> claimable (status j) \<longrightarrow> user_id j = None"
  shows "case run_state (process_job S P cfg rnd i) w of (r, w') \<Rightarrow>
     view (rds (shared w')) = view (rds (shared w)) \<and>
     (case tbl (db (shared w)) i of
        Some j \<Rightarrow> if claimable (status j)
          then r = Inr \<lparr>out_ack = True, label = ''dropped_ownerless''\<rparr>
            \<and> tbl (db (shared w')) = (tbl (db (shared w)))(i \<mapsto> j\<lparr>started_at := Some (clock (shared w)), status := failed,
                error := Some (JDict [(''reason'', JStr ''ownerless job dropped'')]), completed_at := Some (clock (shared w)),
                attempts := attempts j + 1\<rparr>)
          else r = Inr \<lparr>out_ack = True, label = ''skipped''\<rparr> \<and> tbl (db (shared w')) = tbl (db (shared w))
      | None \<Rightarrow> r = Inr \<lparr>out_ack = True, label = ''skipped''\<rparr> \<and> tbl (db (shared w')) = tbl (db (shared w)))"
proof -
  obtain r w' where run: "run_state (process_job S P cfg rnd i) w = (r, w')" by fastforce
  show ?thesis
  proof (cases "\<exists>j. tbl (db (shared w)) i = Some j \<and> claimable (status j)")
    case True
    then obtain j where j: "tbl (db (shared w)) i = Some j" "claimable (status j)" by blast
    with assms(3) have "user_id j = None" by blast
    from wpD [OF backend.wp_process_ownerless [OF assms(1,2) j this] run] j show ?thesis
      unfolding run by simp
  next
    case False
    then have "\<not> claimable (status j)" if "tbl (db (shared w)) i = Some j" for j using that by blast
    from wpD [OF backend.wp_process_skipped [OF assms(1,2) this] run] False show ?thesis
      unfolding run by (auto split: option.split)
  qed
qed

theorem process_job_guards_witness:
  "fst (run_state (process_job ref_services sample_schema sample_cfg (\<lambda>_. \<lparr>nap = 0, coin = False, fresh_id = 5\<rparr>) 7) (sample_world [sample_job completed]))
     = Inr \<lparr>out_ack = True, label = ''skipped''\<rparr>"
  using process_job_guards [OF ref_backend, of "sample_world [sample_job completed]" 7 sample_schema sample_cfg "\<lambda>_. \<lparr>nap = 0, coin = False, fresh_id = 5\<rparr>"]
  by (auto split: prod.splits)

text \<open>
  The memory recycler, asked once per round: it answers yes exactly when some reading
  so far, the current one included, exceeded the configured number of megabytes; without a limit it
  never does. Once it has answered yes it keeps doing so, whatever the readings.
\<close>

lemma recycler_latch:
  "fst (should_recycle rss (fold (\<lambda>x rc. snd (should_recycle x rc)) readings (MemoryRecycler limit)))
     \<longleftrightarrow> (\<exists>mb x. limit = Some mb \<and> x \<in> set (readings @ [rss]) \<and> x > mb * (1024 * 1024))"
proof -
  have state: "fold (\<lambda>x rc. snd (should_recycle x rc)) xs \<lparr>max_bytes = Some cap, triggered = t\<rparr>
      = \<lparr>max_bytes = Some cap, triggered = t \<or> (\<exists>x \<in> set xs. x > cap)\<rparr>" for xs cap t
    by (induction xs arbitrary: t) (auto simp: should_recycle_def Let_def)
  have never: "fold (\<lambda>x rc. snd (should_recycle x rc)) xs \<lparr>max_bytes = None, triggered = False\<rparr>
      = \<lparr>max_bytes = None, triggered = False\<rparr>" for xs
    by (induction xs) (auto simp: should_recycle_def)
  have ask: "fst (should_recycle x \<lparr>max_bytes = c, triggered = t\<rparr>) \<longleftrightarrow> t \<or> (\<exists>cap. c = Some cap \<and> x > cap)" for x c t
    by (cases c) (auto simp: should_recycle_def Let_def)
  show ?thesis
    by (cases limit) (auto simp: MemoryRecycler_def state never ask)
qed

end
