(* ===== verification/Ticker.thy ===== *)
theory Ticker
  imports Retry
begin

text \<open>
  \<open>app/ticker/runner.py\<close>: promotion of due jobs, reconciliation of rows that never reached Redis, the
  reaper of stale messages, and the tick that drives the three. The two \<open>while True\<close> loops take fuel;
  \<open>None\<close> means that the fuel did not suffice. An exception that escapes a pass is an \<open>Inl\<close> result.
\<close>

section \<open>Promotion\<close>

fun parse_uuids :: "string list \<Rightarrow> py_error + uuid list" where
  "parse_uuids [] = Inr []"
| "parse_uuids (s # ss) = (case parse_uuid s of
     Inl e \<Rightarrow> Inl e
   | Inr u \<Rightarrow> (case parse_uuids ss of Inl e \<Rightarrow> Inl e | Inr us \<Rightarrow> Inr (u # us)))"

definition route ::
  "('d, 'r) services \<Rightarrow> settings \<Rightarrow> (uuid \<times> (JobPriority \<times> json option)) list
   \<Rightarrow> string \<times> uuid \<Rightarrow> (string \<times> fields) option" where
  "route S cfg info x = (case x of (i, u) \<Rightarrow> case dict_get info u of
     None \<Rightarrow> None
   | Some (prio, carrier) \<Rightarrow>
       let stream = stream_for_priority cfg prio in Some (stream, message_fields S stream i carrier))"

definition promote_due :: "('d, 'r) services \<Rightarrow> settings \<Rightarrow> ('d, 'r, py_error + nat) io" where
  "promote_due S cfg = do {
     now_epoch \<leftarrow> utc_now;
     ids \<leftarrow> due_job_ids S (delayed_zset cfg) now_epoch (ticker_batch_size cfg);
     if ids = [] then return (Inr 0)
     else case parse_uuids ids of
       Inl e \<Rightarrow> return (Inl e)
     | Inr us \<Rightarrow> do {
         info \<leftarrow> get_promotion_info S us;
         let routed = List.map_filter (route S cfg info) (zip ids us);
         promote S (delayed_zset cfg) routed ids;
         _ \<leftarrow> promote_scheduled_to_pending S us;
         return (Inr (length ids))
       }
   }"

section \<open>Reconciliation\<close>

definition reconcile_one :: "('d, 'r) services \<Rightarrow> settings \<Rightarrow> job \<Rightarrow> nat \<Rightarrow> ('d, 'r, nat) io" where
  "reconcile_one S cfg job tot =
     (if status job = scheduled then
        (case scheduled_at job of
           None \<Rightarrow> return tot
         | Some at \<Rightarrow> do {
             schedule S (delayed_zset cfg) (uuid_str (jid job)) at;
             mark_synced S (jid job);
             return (tot + 1)
           })
      else do {
        _ \<leftarrow> enqueue S (stream_for_priority cfg (priority job)) (uuid_str (jid job)) (trace_context job);
        mark_synced S (jid job);
        return (tot + 1)
      })"

fun reconcile_loop ::
  "nat \<Rightarrow> ('d, 'r) services \<Rightarrow> settings \<Rightarrow> timestamp \<Rightarrow> nat \<Rightarrow> ('d, 'r, nat option) io" where
  "reconcile_loop 0 S cfg cutoff tot = return None"
| "reconcile_loop (Suc fuel) S cfg cutoff tot = do {
     rows \<leftarrow> list_unsynced S cutoff (reconcile_batch_size cfg);
     if rows = [] then return (Some tot)
     else do {
       tot \<leftarrow> forfold rows tot (reconcile_one S cfg);
       if length rows < reconcile_batch_size cfg then return (Some tot)
       else reconcile_loop fuel S cfg cutoff tot
     }
   }"

definition reconcile_orphans ::
  "nat \<Rightarrow> ('d, 'r) services \<Rightarrow> settings \<Rightarrow> ('d, 'r, nat option) io" where
  "reconcile_orphans fuel S cfg = do {
     now \<leftarrow> utc_now;
     let cutoff = now - reconcile_grace_us cfg;
     reconcile_loop fuel S cfg cutoff 0
   }"

section \<open>The reaper\<close>

definition worker_lost :: json where
  "worker_lost = JDict [(''type'', JStr ''WorkerLost''), (''message'', JStr ''reclaimed by reaper'')]"

definition reap_recover :: "('d, 'r) services \<Rightarrow> settings \<Rightarrow> job \<Rightarrow> ('d, 'r, py_error + unit) io" where
  "reap_recover S cfg job =
     (if status job = completed \<or> status job = failed \<or> status job = cancelled then return (Inr ())
      else if status job = processing then do {
        won \<leftarrow> schedule_retry_or_fail S cfg job worker_lost (trace_context job);
        (case won of Inl e \<Rightarrow> return (Inl e) | Inr _ \<Rightarrow> return (Inr ()))
      }
      else if \<not> is_synced_to_redis job then do {
        _ \<leftarrow> (case (if status job = scheduled then scheduled_at job else None) of
           Some at \<Rightarrow> schedule S (delayed_zset cfg) (uuid_str (jid job)) at
         | None \<Rightarrow> do {
             _ \<leftarrow> enqueue S (stream_for_priority cfg (priority job)) (uuid_str (jid job)) (trace_context job);
             return ()
           });
        mark_synced S (jid job);
        return (Inr ())
      }
      else return (Inr ()))"

definition reap_one ::
  "('d, 'r) services \<Rightarrow> settings \<Rightarrow> string \<Rightarrow> entry_id \<Rightarrow> uuid \<Rightarrow> ('d, 'r, py_error + unit) io" where
  "reap_one S cfg stream message_id job_id = do {
     got \<leftarrow> get_job S job_id None;
     r \<leftarrow> (case got of None \<Rightarrow> return (Inr ()) | Some job \<Rightarrow> reap_recover S cfg job);
     case r of
       Inl e \<Rightarrow> return (Inl e)
     | Inr _ \<Rightarrow> do {
         ack S stream (consumer_group cfg) message_id;
         return (Inr ())
       }
   }"

fun reap_messages ::
  "('d, 'r) services \<Rightarrow> settings \<Rightarrow> string \<Rightarrow> message list \<Rightarrow> nat \<Rightarrow> ('d, 'r, py_error + nat) io" where
  "reap_messages S cfg stream [] handled = return (Inr handled)"
| "reap_messages S cfg stream ((message_id, fs) # ms) handled =
     (case message_job_uuid fs of
        Inl e \<Rightarrow> do {
          ack S stream (consumer_group cfg) message_id;
          reap_messages S cfg stream ms (handled + 1)
        }
      | Inr job_id \<Rightarrow> do {
          r \<leftarrow> reap_one S cfg stream message_id job_id;
          case r of
            Inl e \<Rightarrow> return (Inl e)
          | Inr _ \<Rightarrow> reap_messages S cfg stream ms (handled + 1)
        })"

fun reap_stream ::
  "nat \<Rightarrow> ('d, 'r) services \<Rightarrow> settings \<Rightarrow> string \<Rightarrow> entry_id \<Rightarrow> nat \<Rightarrow> ('d, 'r, (py_error + nat) option) io" where
  "reap_stream 0 S cfg stream cursor handled = return None"
| "reap_stream (Suc fuel) S cfg stream cursor handled = do {
     resp \<leftarrow> redis_step (xautoclaim (redis S) stream (consumer_group cfg) REAPER_NAME
               (visibility_timeout_us cfg div 1000) cursor (reaper_batch_size cfg));
     r \<leftarrow> reap_messages S cfg stream (snd resp) handled;
     case r of
       Inl e \<Rightarrow> return (Some (Inl e))
     | Inr handled \<Rightarrow>
         if fst resp = (0, 0) then return (Some (Inr handled))
         else reap_stream fuel S cfg stream (fst resp) handled
   }"

fun reap_streams ::
  "nat \<Rightarrow> ('d, 'r) services \<Rightarrow> settings \<Rightarrow> string list \<Rightarrow> nat \<Rightarrow> ('d, 'r, (py_error + nat) option) io" where
  "reap_streams fuel S cfg [] handled = return (Some (Inr handled))"
| "reap_streams fuel S cfg (stream # streams) handled = do {
     ensure_group S stream (consumer_group cfg);
     r \<leftarrow> reap_stream fuel S cfg stream (0, 0) handled;
     case r of
       Some (Inr handled) \<Rightarrow> reap_streams fuel S cfg streams handled
     | _ \<Rightarrow> return r
   }"

definition reap_stale :: "nat \<Rightarrow> ('d, 'r) services \<Rightarrow> settings \<Rightarrow> ('d, 'r, (py_error + nat) option) io" where
  "reap_stale fuel S cfg = reap_streams fuel S cfg (ordered_streams cfg) 0"

section \<open>The tick\<close>

record ticker_state =
  last_reconcile :: timestamp
  last_reap :: timestamp

definition ticker_init :: ticker_state where
  "ticker_init = \<lparr>last_reconcile = 0, last_reap = 0\<rparr>"

text \<open>
  One round of \<open>run_forever\<close>: the new state, and whether the round sleeps before the next. The bound
  \<open>fuel\<close> is the one of the two loops; \<open>None\<close> again means that it did not suffice.
\<close>

definition tick ::
  "nat \<Rightarrow> ('d, 'r) services \<Rightarrow> settings \<Rightarrow> ticker_state \<Rightarrow> ('d, 'r, (ticker_state \<times> bool) option) io" where
  "tick fuel S cfg st = do {
     promoted \<leftarrow> promote_due S cfg;
     case promoted of
       Inl e \<Rightarrow> return (Some (st, True))
     | Inr n \<Rightarrow> do {
         now \<leftarrow> utc_now;
         rec \<leftarrow> (if now - last_reconcile st \<ge> reconcile_interval_us cfg then do {
                  r \<leftarrow> reconcile_orphans fuel S cfg;
                  return (map_option (\<lambda>_. st\<lparr>last_reconcile := now\<rparr>) r)
                } else return (Some st));
         case rec of
           None \<Rightarrow> return None
         | Some st \<Rightarrow>
             if now - last_reap st \<ge> reaper_interval_us cfg then do {
               r \<leftarrow> reap_stale fuel S cfg;
               case r of
                 None \<Rightarrow> return None
               | Some (Inl e) \<Rightarrow> return (Some (st, True))
               | Some (Inr _) \<Rightarrow> return (Some (st\<lparr>last_reap := now\<rparr>, n < ticker_batch_size cfg))
             }
             else return (Some (st, n < ticker_batch_size cfg))
       }
   }"

definition run_tick ::
  "nat \<Rightarrow> ('d, 'r) services \<Rightarrow> settings \<Rightarrow> ticker_state \<Rightarrow> ('d, 'r, ticker_state option) io" where
  "run_tick fuel S cfg st = do {
     r \<leftarrow> tick fuel S cfg st;
     case r of
       None \<Rightarrow> return None
     | Some (st, pause) \<Rightarrow> do {
         _ \<leftarrow> (if pause then sleep_by (ticker_interval_us cfg) else return ());
         return (Some st)
       }
   }"

fun run_ticks ::
  "nat \<Rightarrow> nat \<Rightarrow> ('d, 'r) services \<Rightarrow> settings \<Rightarrow> ticker_state \<Rightarrow> ('d, 'r, ticker_state option) io" where
  "run_ticks 0 fuel S cfg st = return (Some st)"
| "run_ticks (Suc n) fuel S cfg st = do {
     r \<leftarrow> run_tick fuel S cfg st;
     case r of None \<Rightarrow> return None | Some st \<Rightarrow> run_ticks n fuel S cfg st
   }"

definition ticker_run_forever ::
  "nat \<Rightarrow> nat \<Rightarrow> ('d, 'r) services \<Rightarrow> settings \<Rightarrow> ('d, 'r, ticker_state option) io" where
  "ticker_run_forever n fuel S cfg = do {
     foreach (ordered_streams cfg) (\<lambda>stream. ensure_group S stream (consumer_group cfg));
     run_ticks n fuel S cfg ticker_init
   }"

section \<open>Every step keeps to the life cycle\<close>

context backend
begin

lemma guar_promote_due [guar_intros]: "guarantees (lifecycle tbl) (promote_due S cfg)"
  unfolding promote_due_def by (intro guar_intros)

lemma guar_reconcile_loop [guar_intros]: "guarantees (lifecycle tbl) (reconcile_loop fuel S cfg cutoff tot)"
proof -
  have one: "guarantees (lifecycle tbl) (reconcile_one S cfg job tot)" for job tot
    unfolding reconcile_one_def by (intro guar_intros)
  show ?thesis
    by (induction fuel arbitrary: tot) (auto intro!: guar_intros one)
qed

lemma guar_reconcile [guar_intros]: "guarantees (lifecycle tbl) (reconcile_orphans fuel S cfg)"
  unfolding reconcile_orphans_def by (intro guar_intros)

lemma guar_reap_one [guar_intros]: "guarantees (lifecycle tbl) (reap_one S cfg stream m i)"
  unfolding reap_one_def reap_recover_def by (intro guar_intros)

lemma guar_reap_messages [guar_intros]: "guarantees (lifecycle tbl) (reap_messages S cfg stream ms handled)"
proof (induction ms arbitrary: handled)
  case (Cons m ms)
  then show ?case by (cases m) (auto intro!: guar_intros split: sum.split)
qed (simp add: guar_return)

lemma guar_reap_stream [guar_intros]: "guarantees (lifecycle tbl) (reap_stream fuel S cfg stream cursor handled)"
  by (induction fuel arbitrary: cursor handled) (auto intro!: guar_intros)

lemma guar_reap_streams [guar_intros]: "guarantees (lifecycle tbl) (reap_streams fuel S cfg streams handled)"
  by (induction streams arbitrary: handled) (auto intro!: guar_intros)

lemma guar_reap_stale [guar_intros]: "guarantees (lifecycle tbl) (reap_stale fuel S cfg)"
  unfolding reap_stale_def by (intro guar_intros)

lemma guar_tick [guar_intros]: "guarantees (lifecycle tbl) (run_tick fuel S cfg st)"
  unfolding run_tick_def tick_def by (intro guar_intros)

lemma guar_run_ticks [guar_intros]: "guarantees (lifecycle tbl) (run_ticks n fuel S cfg st)"
  by (induction n arbitrary: st) (auto intro!: guar_intros)

lemma guar_ticker: "guarantees (lifecycle tbl) (ticker_run_forever n fuel S cfg)"
  unfolding ticker_run_forever_def by (intro guar_intros)

end

section \<open>Promotion, undisturbed\<close>

lemma option_ext: "(\<And>j. x = Some j \<longleftrightarrow> y = Some j) \<Longrightarrow> x = y"
  by (cases x; cases y) auto

context backend
begin

lemma wp_due_job_ids [wp_intros]:
  assumes "quiet w" and "\<And>w' ids. quiet w' \<Longrightarrow> shared w' = shared w \<Longrightarrow>
      set ids \<subseteq> due_members (zset (V w) k) 0 now \<Longrightarrow> distinct ids \<Longrightarrow> length ids \<le> n \<Longrightarrow>
      (ids = [] \<longleftrightarrow> n = 0 \<or> due_members (zset (V w) k) 0 now = {}) \<Longrightarrow> Q ids w'"
  shows "wp (due_job_ids S k now n) Q w"
proof -
  let ?ids = "zrangebyscore (redis S) k 0 now n (rds (shared w))"
  obtain ys where "set ys = due_members (zset (V w) k) 0 now" "?ids = take n ys"
    using zrangebyscore_due [of "rds (shared w)" k 0 now n] by blast
  then have "?ids = [] \<longleftrightarrow> n = 0 \<or> due_members (zset (V w) k) 0 now = {}" by (cases ys) auto
  then show ?thesis
    unfolding due_job_ids_def
    by (intro wp_redis_query assms(1)) (intro assms(2); simp add: zrangebyscore_subset
      zrangebyscore_distinct zrangebyscore_length)
qed

lemma promotion_info_lookup:
  "dict_get (map (\<lambda>j. (jid j, (priority j, trace_context j))) (pg_select (sql S) (\<lambda>j. jid j \<in> set us) d)) u =
     (if u \<in> set us then map_option (\<lambda>j. (priority j, trace_context j)) (tbl d u) else None)"
proof -
  let ?rows = "pg_select (sql S) (\<lambda>j. jid j \<in> set us) d"
  have rows: "j \<in> set ?rows \<longleftrightarrow> tbl d (jid j) = Some j \<and> jid j \<in> set us" for j
    by (simp add: select_set matching_tbl)
  have "distinct (map jid ?rows)"
    using select_distinct [of "\<lambda>j. jid j \<in> set us" d] rows
    by (auto simp: distinct_map inj_on_def)
  then have "map_of (map (\<lambda>j. (jid j, j)) ?rows) u = Some j \<longleftrightarrow> tbl d u = Some j \<and> u \<in> set us" for j
    unfolding map_of_map_key_eq [OF \<open>distinct (map jid ?rows)\<close>] rows using tbl_id [of d u j] by auto
  then have "map_of (map (\<lambda>j. (jid j, j)) ?rows) u = (if u \<in> set us then tbl d u else None)"
    by (intro option_ext) simp
  moreover have "map_of (map (\<lambda>j. (jid j, f j)) xs) u = map_option f (map_of (map (\<lambda>j. (jid j, j)) xs) u)"
    for f :: "job \<Rightarrow> JobPriority \<times> json option" and xs
    by (induction xs) auto
  ultimately show ?thesis by simp
qed

lemma wp_get_promotion_info [wp_intros]:
  assumes "quiet w" and "us \<noteq> []" and "\<And>w' info. quiet w' \<Longrightarrow> shared w' = shared w \<Longrightarrow>
     (\<And>u. u \<in> set us \<Longrightarrow> dict_get info u = map_option (\<lambda>j. (priority j, trace_context j)) (T w u)) \<Longrightarrow> Q info w'"
  shows "wp (get_promotion_info S us) Q w"
  unfolding get_promotion_info_def if_not_P [OF assms(2)]
  by (intro wp_intros assms(1)) (intro assms(3); simp add: promotion_info_lookup)

lemma wp_promote_scheduled [wp_intros]:
  assumes "quiet w" and "us \<noteq> []" and "\<And>w' n. quiet w' \<Longrightarrow> rds (shared w') = rds (shared w) \<Longrightarrow>
     clock (shared w') = clock (shared w) \<Longrightarrow>
     T w' = update_where (\<lambda>j. jid j \<in> set us \<and> status j = scheduled) (\<lambda>j. j\<lparr>status := pending\<rparr>) (T w) \<Longrightarrow> Q n w'"
  shows "wp (promote_scheduled_to_pending S us) Q w"
proof -
  have "keeps_keys (\<lambda>j. j\<lparr>status := pending\<rparr>)" by (simp add: keeps_keys_def)
  from update_tbl [OF this] show ?thesis
    unfolding promote_scheduled_to_pending_def if_not_P [OF assms(2)]
    by (intro wp_sql_step assms(1)) (intro assms(3); simp)
qed

end

lemma parse_uuids_map: "parse_uuids (map uuid_str us) = Inr us"
  by (induction us) (simp_all add: parse_uuid_str)

text \<open>The message each promoted job with a row gets, on the stream of its priority.\<close>

definition promotion_messages ::
  "('d, 'r) services \<Rightarrow> settings \<Rightarrow> table \<Rightarrow> uuid list \<Rightarrow> (string \<times> fields) list" where
  "promotion_messages S cfg t us = List.map_filter (\<lambda>u. map_option (\<lambda>j.
     let s = stream_for_priority cfg (priority j) in (s, message_fields S s (uuid_str u) (trace_context j))) (t u)) us"

lemma routed_messages:
  assumes "\<And>u. u \<in> set us \<Longrightarrow> dict_get info u = map_option (\<lambda>j. (priority j, trace_context j)) (t u)"
  shows "List.map_filter (route S cfg info) (zip (map uuid_str us) us) = promotion_messages S cfg t us"
  using assms
  by (induction us)
    (auto simp: promotion_messages_def map_filter_simps route_def Let_def split: option.splits)

context backend
begin

lemma wp_promote_due:
  assumes "quiet w" and "\<forall>m x. zset (V w) (delayed_zset cfg) m = Some x \<longrightarrow> (\<exists>u. m = uuid_str u)"
  shows "wp (promote_due S cfg) (\<lambda>r w'. quiet w' \<and> clock (shared w') = clock (shared w) \<and>
     (\<exists>us es. r = Inr (length us) \<and> distinct us \<and> length us \<le> ticker_batch_size cfg
       \<and> uuid_str ` set us \<subseteq> due_members (zset (V w) (delayed_zset cfg)) 0 (clock (shared w))
       \<and> (us = [] \<longleftrightarrow> ticker_batch_size cfg = 0
             \<or> due_members (zset (V w) (delayed_zset cfg)) 0 (clock (shared w)) = {})
       \<and> T w' = update_where (\<lambda>j. jid j \<in> set us \<and> status j = scheduled) (\<lambda>j. j\<lparr>status := pending\<rparr>) (T w)
       \<and> map (\<lambda>(s, m). (s, snd m)) es = promotion_messages S cfg (T w) us
       \<and> V w' = drop_scores (delayed_zset cfg) (map uuid_str us) (fold (\<lambda>(s, m). add_entry s m) es (V w)))) w"
  (is "wp _ ?Q w")
  unfolding promote_due_def
proof (rule wp_bind, rule wp_utc_now, rule wp_bind, rule wp_due_job_ids [OF assms(1)])
  fix w1 ids
  assume w1: "quiet w1" "shared w1 = shared w" "distinct ids" "length ids \<le> ticker_batch_size cfg"
    "set ids \<subseteq> due_members (zset (V w) (delayed_zset cfg)) 0 (clock (shared w))"
    "ids = [] \<longleftrightarrow> ticker_batch_size cfg = 0 \<or> due_members (zset (V w) (delayed_zset cfg)) 0 (clock (shared w)) = {}"
  have "\<forall>m \<in> set ids. \<exists>u. m = uuid_str u"
    using w1(5) assms(2) by (auto simp: due_members_def)
  then obtain us where ids: "ids = map uuid_str us" by (metis ex_map_conv)
  have us: "distinct us" using w1(3) ids by (simp add: distinct_map)
  show "wp (if ids = [] then return (Inr 0) else case parse_uuids ids of Inl e \<Rightarrow> return (Inl e)
      | Inr us \<Rightarrow> get_promotion_info S us \<bind> (\<lambda>info.
          let routed = List.map_filter (route S cfg info) (zip ids us) in
          promote S (delayed_zset cfg) routed ids \<bind> (\<lambda>_.
          promote_scheduled_to_pending S us \<bind> (\<lambda>_. return (Inr (length ids)))))) ?Q w1"
  proof (cases "us = []")
    case True
    then show ?thesis
      using w1 ids by (auto simp: update_where_def drop_scores_def promotion_messages_def map_filter_simps
          option.map_ident intro!: wp_return)
  next
    case False
    then have ne: "ids \<noteq> []" by (simp add: ids)
    show ?thesis
      unfolding if_not_P [OF ne] unfolding ids parse_uuids_map sum.case Let_def
      by (intro wp_intros w1(1); (use False in simp)?)
        (use w1 ids us False in \<open>auto simp: routed_messages [where t = "T w"]\<close>)
  qed
qed

end

section \<open>The reaper, undisturbed\<close>

text \<open>
  What the reaper does with a stale message of job \<open>i\<close>: nothing but the acknowledgement if the job is
  gone, finished, or back in the queue and handed to Redis; a retry if it is still being processed;
  the missing handoff if it went back but never reached Redis.
\<close>

definition reap_spec ::
  "('d, 'r) services \<Rightarrow> settings \<Rightarrow> timestamp \<Rightarrow> table \<Rightarrow> redis_view \<Rightarrow> uuid \<Rightarrow> table \<Rightarrow> redis_view \<Rightarrow> bool" where
  "reap_spec S cfg now t v i t' v' = (case t i of
     None \<Rightarrow> t' = t \<and> v' = v
   | Some j \<Rightarrow>
       if status j = processing
       then \<exists>row'. t' = t(i \<mapsto> row') \<and> retry_outcome S cfg j worker_lost (trace_context j) now j v row' v'
       else if terminal (status j) \<or> is_synced_to_redis j then t' = t \<and> v' = v
       else t' = t(i \<mapsto> j\<lparr>is_synced_to_redis := True\<rparr>)
         \<and> (case (if status j = scheduled then scheduled_at j else None) of
              Some at \<Rightarrow> v' = set_score (delayed_zset cfg) (uuid_str i) at v
            | None \<Rightarrow> let s = stream_for_priority cfg (priority j) in
                \<exists>e. v' = add_entry s (e, message_fields S s (uuid_str i) (trace_context j)) v))"

context backend
begin

lemma wp_reap_recover:
  assumes "quiet w" and "T w (jid j) = Some j" and "0 \<le> attempts j" and "retry_backoff_schedule cfg \<noteq> []"
  shows "wp (reap_recover S cfg j) (\<lambda>r w'. r = Inr () \<and> quiet w' \<and>
     reap_spec S cfg (clock (shared w)) (T w) (V w) (jid j) (T w') (V w')) w"
proof (cases "status j = processing")
  case True
  have "wp (schedule_retry_or_fail S cfg j worker_lost (trace_context j)) (\<lambda>r w'. quiet w' \<and> r = Inr True \<and>
      (\<exists>row'. T w' = (T w)(jid j \<mapsto> row') \<and>
         retry_outcome S cfg j worker_lost (trace_context j) (clock (shared w)) j (V w) row' (V w'))) w"
    by (rule wp_conseq [OF wp_retry [OF assms(1,3,4)]]) (use assms(2) True in auto)
  then show ?thesis
    using True assms(2) unfolding reap_recover_def
    by (simp, intro wp_bind, elim wp_conseq) (auto simp: reap_spec_def intro!: wp_return)
next
  case False
  then show ?thesis
    unfolding reap_recover_def
    by (intro wp_intros assms(1))
      (use assms(1,2) False in \<open>auto simp: reap_spec_def Let_def terminal_def split: option.splits if_splits\<close>)
qed

lemma wp_get_any:
  assumes "quiet w" and "\<And>w'. quiet w' \<Longrightarrow> shared w' = shared w \<Longrightarrow> Q (T w i) w'"
  shows "wp (get_job S i None) Q w"
  by (rule wp_get_job [OF assms(1)]) (use assms(2) in \<open>auto split: option.split\<close>)

lemma wp_reap_one:
  assumes "quiet w" and "\<And>j. T w i = Some j \<Longrightarrow> 0 \<le> attempts j" and "retry_backoff_schedule cfg \<noteq> []"
  shows "wp (reap_one S cfg stream m i) (\<lambda>r w'. r = Inr () \<and> quiet w' \<and> (\<exists>v'.
     reap_spec S cfg (clock (shared w)) (T w) (V w) i (T w') v'
     \<and> V w' = ack_entry stream (consumer_group cfg) m v')) w"
proof -
  have base: "wp (case T w i of None \<Rightarrow> return (Inr ()) | Some job \<Rightarrow> reap_recover S cfg job) (\<lambda>r w'. r = Inr () \<and> quiet w' \<and>
      reap_spec S cfg (clock (shared w)) (T w) (V w) i (T w') (V w')) w1"
    if "quiet w1" "shared w1 = shared w" for w1
  proof (cases "T w i")
    case None
    with that show ?thesis by (auto simp: reap_spec_def intro!: wp_return)
  next
    case (Some j)
    have "jid j = i" by (rule tbl_id [OF Some])
    with wp_reap_recover [of w1 j cfg] that assms(2,3) Some show ?thesis by simp
  qed
  have recover: "wp (case T w i of None \<Rightarrow> return (Inr ()) | Some job \<Rightarrow> reap_recover S cfg job) Q w1"
    if "quiet w1" "shared w1 = shared w" "\<And>r w'. r = Inr () \<Longrightarrow> quiet w' \<Longrightarrow>
      reap_spec S cfg (clock (shared w)) (T w) (V w) i (T w') (V w') \<Longrightarrow> Q r w'" for w1 Q
    by (rule wp_conseq [OF base [OF that(1,2)]]) (use that(3) in blast)
  show ?thesis
    unfolding reap_one_def
    by (rule wp_bind, rule wp_get_any [OF assms(1)], rule wp_bind, erule (1) recover)
      (auto intro!: wp_intros)
qed

end

subsection \<open>Termination of the scan\<close>

text \<open>A pass only takes entries out of the pending lists; it never removes a group.\<close>

definition shrinks :: "redis_view \<Rightarrow> redis_view \<Rightarrow> bool" where
  "shrinks v v' \<longleftrightarrow> (\<forall>s g. (\<exists>F. in_flight v' s g = filter F (in_flight v s g))
     \<and> (group_exists v s g \<longrightarrow> group_exists v' s g))"

lemma shrinksI:
  assumes "\<And>s g. in_flight v' s g = filter (F s g) (in_flight v s g)"
    and "\<And>s g. group_exists v s g \<Longrightarrow> group_exists v' s g"
  shows "shrinks v v'"
  unfolding shrinks_def using assms by blast

lemma shrinks_refl [simp]: "shrinks v v"
  by (rule shrinksI [where F = "\<lambda>_ _ _. True"]) simp_all

lemma shrinks_trans: "shrinks u v \<Longrightarrow> shrinks v w \<Longrightarrow> shrinks u w"
  unfolding shrinks_def by (metis filter_filter)

lemma shrinks_views [simp]:
  "shrinks v (add_entry s m v)" "shrinks v (ack_entry s g e v)" "shrinks v (set_score k n x v)"
proof -
  show "shrinks v (add_entry s m v)" "shrinks v (set_score k n x v)"
    by (rule shrinksI [where F = "\<lambda>_ _ _. True"];
        auto simp: in_flight_def group_exists_def split: option.splits)+
  show "shrinks v (ack_entry s g e v)"
    by (rule shrinksI [where F = "\<lambda>s' g' m. \<not> (s' = s \<and> g' = g \<and> fst m = e)"])
      (auto simp: in_flight_def group_exists_def split: option.splits)
qed

lemma shrinks_open: "\<not> group_exists v s g \<Longrightarrow> shrinks v (open_group s g v)"
  by (rule shrinksI [where F = "\<lambda>_ _ _. True"]) (auto simp: in_flight_def group_exists_def)

lemma length_filter_filter: "length (filter A (filter F xs)) \<le> length (filter A xs)"
  by (induction xs) auto

text \<open>After a scanned piece, the rest of the list from its first identifier on is shorter.\<close>

lemma rest_shorter:
  assumes "sorted_wrt (<) (map fst (P :: message list))" and "0 < q" and "q < length P"
  shows "length (filter (\<lambda>m. fst (P ! q) \<le> fst m) P) < length P"
proof (rule length_filter_less)
  show "P ! 0 \<in> set P" using assms by (auto intro: nth_mem)
  show "\<not> fst (P ! q) \<le> fst (P ! 0)"
    using assms by (auto simp: sorted_wrt_iff_nth_less not_le)
qed

context backend
begin

lemma wp_retry_shrinks:
  "quiet w \<Longrightarrow> wp (schedule_retry_or_fail S cfg job err c) (\<lambda>_ w'. quiet w' \<and> shrinks (V w) (V w')) w"
  unfolding schedule_retry_or_fail_def by (intro wp_intros) auto

lemma wp_recover_shrinks:
  "quiet w \<Longrightarrow> wp (reap_recover S cfg job) (\<lambda>_ w'. quiet w' \<and> shrinks (V w) (V w')) w"
  unfolding reap_recover_def
  by (intro wp_if wp_bind, simp_all add: wp_return)
    (auto intro!: wp_intros wp_conseq [OF wp_retry_shrinks] split: option.splits)

lemma wp_reap_one_shrinks:
  assumes "quiet w"
  shows "wp (reap_one S cfg stream m i) (\<lambda>_ w'. quiet w' \<and> shrinks (V w) (V w')) w"
  unfolding reap_one_def
proof (rule wp_bind, rule wp_get_any [OF assms], rule wp_bind)
  fix w1 assume w1: "quiet w1" "shared w1 = shared w"
  have acked: "wp (case r of Inl e \<Rightarrow> return (Inl e)
      | Inr x \<Rightarrow> ack S stream (consumer_group cfg) m \<bind> (\<lambda>_. return (Inr ())))
      (\<lambda>_ w'. quiet w' \<and> shrinks (V w) (V w')) w2" if "quiet w2" "shrinks (V w) (V w2)" for r w2
    using that by (auto split: sum.split intro!: wp_intros elim: shrinks_trans)
  show "wp (case T w i of None \<Rightarrow> return (Inr ()) | Some job \<Rightarrow> reap_recover S cfg job)
     (\<lambda>r. wp (case r of Inl e \<Rightarrow> return (Inl e)
      | Inr x \<Rightarrow> ack S stream (consumer_group cfg) m \<bind> (\<lambda>_. return (Inr ())))
      (\<lambda>_ w'. quiet w' \<and> shrinks (V w) (V w'))) w1"
    using w1 by (auto split: option.split intro!: wp_return acked wp_conseq [OF wp_recover_shrinks])
qed

lemma wp_reap_messages_shrinks:
  "quiet w \<Longrightarrow> wp (reap_messages S cfg stream ms handled) (\<lambda>_ w'. quiet w' \<and> shrinks (V w) (V w')) w"
proof (induction ms arbitrary: handled w)
  case (Cons m ms)
  obtain i fs where m: "m = (i, fs)" by fastforce
  have rest: "wp (reap_messages S cfg stream ms (Suc handled)) (\<lambda>_ w'. quiet w' \<and> shrinks (V w) (V w')) w1"
    if "quiet w1" "shrinks (V w) (V w1)" for w1
    by (rule wp_conseq [OF Cons.IH [OF that(1)]]) (use that(2) in \<open>auto intro: shrinks_trans\<close>)
  show ?case
    unfolding m reap_messages.simps
    by (auto split: sum.split intro!: wp_bind wp_ack Cons.prems rest wp_return
        wp_conseq [OF wp_reap_one_shrinks])
qed (simp add: wp_return)

text \<open>From a later cursor, and with some messages acknowledged, fewer messages are ahead.\<close>

lemma scan_advances:
  assumes "group_exists (V w) stream g" and "in_flight v' stream g = filter F (in_flight (V w) stream g)"
    and "0 < q" and "q < length (filter (\<lambda>m. cursor \<le> fst m) (in_flight (V w) stream g))"
  shows "length (filter (\<lambda>m. fst (filter (\<lambda>m. cursor \<le> fst m) (in_flight (V w) stream g) ! q) \<le> fst m) (in_flight v' stream g))
    < length (filter (\<lambda>m. cursor \<le> fst m) (in_flight (V w) stream g))"
proof -
  let ?all = "in_flight (V w) stream g"
  let ?P = "filter (\<lambda>m. cursor \<le> fst m) ?all"
  let ?next = "fst (?P ! q)"
  obtain gv where gv: "groups (V w) stream g = Some gv" using assms(1) by (auto simp: group_exists_def)
  have "sorted_wrt (<) (map fst (pel gv))" using entry_order [OF gv] by (simp add: sorted_wrt_append)
  then have "sorted_wrt (<) (map fst ?P)" using gv by (simp add: in_flight_def sorted_wrt_map sorted_wrt_filter)
  from rest_shorter [OF this assms(3,4)] have less: "length (filter (\<lambda>m. ?next \<le> fst m) ?P) < length ?P" .
  have ge: "cursor \<le> ?next" using nth_mem [OF assms(4)] by auto
  have "length (filter (\<lambda>m. ?next \<le> fst m) (filter F ?all)) \<le> length (filter (\<lambda>m. ?next \<le> fst m) ?all)"
    by (rule length_filter_filter)
  also have "filter (\<lambda>m. ?next \<le> fst m) ?all = filter (\<lambda>m. ?next \<le> fst m) ?P"
    unfolding filter_filter by (rule filter_cong) (use ge in \<open>auto intro: order_trans\<close>)
  finally show ?thesis using less assms(2) by simp
qed

lemma wp_reap_stream_ends:
  assumes "quiet w" and "0 < reaper_batch_size cfg" and "group_exists (V w) stream (consumer_group cfg)"
    and "length (filter (\<lambda>m. cursor \<le> fst m) (in_flight (V w) stream (consumer_group cfg))) < fuel"
  shows "wp (reap_stream fuel S cfg stream cursor handled)
     (\<lambda>r w'. quiet w' \<and> shrinks (V w) (V w') \<and> r \<noteq> None) w"
  using assms(1,3,4)
proof (induction fuel arbitrary: w cursor handled)
  case (Suc fuel)
  let ?g = "consumer_group cfg" and ?t = "visibility_timeout_us cfg div 1000" and ?n = "reaper_batch_size cfg"
  let ?P = "filter (\<lambda>m. cursor \<le> fst m) (in_flight (V w) stream ?g)"
  let ?resp = "fst (xautoclaim (redis S) stream ?g REAPER_NAME ?t cursor ?n (rds (shared w)))"
  obtain q where q: "?P \<noteq> [] \<longrightarrow> 0 < q" "fst ?resp = (if q < length ?P then fst (?P ! q) else (0, 0))"
    using xautoclaim_scan [OF assms(2) Suc.prems(2), of cursor REAPER_NAME ?t] unfolding Let_def by blast
  show ?case
    unfolding reap_stream.simps
  proof (rule wp_bind, rule wp_redis_step [OF Suc.prems(1)], rule wp_bind, rule wp_conseq [OF wp_reap_messages_shrinks], assumption)
    fix w1 r w2
    assume "rds (shared w1) = snd (xautoclaim (redis S) stream ?g REAPER_NAME ?t cursor ?n (rds (shared w)))"
      and w2: "quiet w2 \<and> shrinks (V w1) (V w2)"
    then have sh: "shrinks (V w) (V w2)" by simp
    then obtain F where F: "in_flight (V w2) stream ?g = filter F (in_flight (V w) stream ?g)"
      and ex: "group_exists (V w2) stream ?g"
      using Suc.prems(2) unfolding shrinks_def by blast
    have "length (filter (\<lambda>m. fst ?resp \<le> fst m) (in_flight (V w2) stream ?g)) < fuel" if "fst ?resp \<noteq> (0, 0)"
      using scan_advances [OF Suc.prems(2) F, of q cursor] that q Suc.prems(3) by (auto split: if_splits)
    note IH = Suc.IH [OF _ ex this]
    show "wp (case r of Inl e \<Rightarrow> return (Some (Inl e))
        | Inr handled \<Rightarrow> if fst ?resp = (0, 0) then return (Some (Inr handled))
            else reap_stream fuel S cfg stream (fst ?resp) handled)
        (\<lambda>r w'. quiet w' \<and> shrinks (V w) (V w') \<and> r \<noteq> None) w2"
      using w2 sh by (cases r) (auto intro!: wp_return wp_conseq [OF IH] elim: shrinks_trans)
  qed
qed simp

end

lemma shrinks_length: "shrinks v v' \<Longrightarrow> length (in_flight v' s g) \<le> length (in_flight v s g)"
  unfolding shrinks_def by (metis length_filter_le)

context backend
begin

lemma wp_reap_streams_ends:
  assumes "quiet w" and "0 < reaper_batch_size cfg"
    and "\<forall>s \<in> set streams. length (in_flight (V w) s (consumer_group cfg)) < fuel"
  shows "wp (reap_streams fuel S cfg streams handled) (\<lambda>r w'. r \<noteq> None) w"
  using assms(1,3)
proof (induction streams arbitrary: w handled)
  case (Cons stream streams)
  let ?g = "consumer_group cfg"
  show ?case
    unfolding reap_streams.simps
  proof (rule wp_bind, rule wp_ensure_group [OF Cons.prems(1)], rule wp_bind)
    fix w1 assume w1: "quiet w1" "V w1 = (if group_exists (V w) stream ?g then V w else open_group stream ?g (V w))"
    then have sh: "shrinks (V w) (V w1)" and ex: "group_exists (V w1) stream ?g"
      by (auto simp: shrinks_open) (simp add: group_exists_def)
    have "length (filter (\<lambda>m. (0, 0) \<le> fst m) (in_flight (V w1) stream ?g)) < fuel"
      using Cons.prems(2) shrinks_length [OF sh, of stream ?g]
        length_filter_le [of "\<lambda>m. (0, 0) \<le> fst m" "in_flight (V w1) stream ?g"]
      by (meson le_less_trans list.set_intros(1))
    note ends = wp_reap_stream_ends [OF w1(1) assms(2) ex this]
    have next_ok: "\<forall>s \<in> set streams. length (in_flight (V w2) s ?g) < fuel"
      if "shrinks (V w1) (V w2)" for w2 :: "('d, 'r) world"
      using Cons.prems(2) shrinks_length [OF shrinks_trans [OF sh that]] by (auto intro: le_less_trans)
    show "wp (reap_stream fuel S cfg stream (0, 0) handled) (\<lambda>r. wp (case r of None \<Rightarrow> return r
        | Some (Inl e) \<Rightarrow> return r | Some (Inr handled) \<Rightarrow> reap_streams fuel S cfg streams handled)
        (\<lambda>r w'. r \<noteq> None)) w1"
      by (rule wp_conseq [OF ends], elim conjE)
        (auto simp del: not_None_eq split: option.split sum.split intro!: wp_return Cons.IH next_ok)
  qed
qed (simp add: wp_return)

end

section \<open>Reconciliation, undisturbed\<close>

text \<open>
  The rows the pass looks at, those among them it skips (scheduled, but without a time), and what
  it means that a row was handed to Redis.
\<close>

definition orphan :: "timestamp \<Rightarrow> job \<Rightarrow> bool" where
  "orphan cutoff j \<longleftrightarrow> \<not> is_synced_to_redis j \<and> (status j = pending \<or> status j = scheduled) \<and> created_at j < cutoff"

definition stuck :: "job \<Rightarrow> bool" where
  "stuck j \<longleftrightarrow> status j = scheduled \<and> scheduled_at j = None"

definition handed_off :: "settings \<Rightarrow> redis_view \<Rightarrow> job \<Rightarrow> bool" where
  "handed_off cfg v j =
     (if status j = scheduled then zset v (delayed_zset cfg) (uuid_str (jid j)) = scheduled_at j
      else \<forall>g. group_exists v (stream_for_priority cfg (priority j)) g \<longrightarrow>
             list_ex (\<lambda>m. dict_get (snd m) ''job_id'' = Some (uuid_str (jid j)))
               (waiting v (stream_for_priority cfg (priority j)) g))"

abbreviation synced :: "job \<Rightarrow> job" where
  "synced j \<equiv> j\<lparr>is_synced_to_redis := True\<rparr>"

lemma handed_off_add: "handed_off cfg v j \<Longrightarrow> handed_off cfg (add_entry s m v) j"
  by (auto simp: handed_off_def)

lemma handed_off_score:
  "handed_off cfg v j \<Longrightarrow> jid j \<noteq> i \<Longrightarrow> handed_off cfg (set_score k (uuid_str i) x v) j"
  by (auto simp: handed_off_def)

context backend
begin

lemma handed_off_enqueued:
  assumes "status j \<noteq> scheduled"
  shows "handed_off cfg (add_entry (stream_for_priority cfg (priority j))
     (e, message_fields S (stream_for_priority cfg (priority j)) (uuid_str (jid j)) c) v) j"
  using assms by (simp add: handed_off_def)

lemma wp_reconcile_one:
  assumes "quiet w" and "T w (jid j) = Some j" and "\<forall>k \<in> D. handed_off cfg (V w) k \<and> jid k \<noteq> jid j"
  shows "wp (reconcile_one S cfg j tot) (\<lambda>tot' w'. quiet w' \<and> clock (shared w') = clock (shared w)
     \<and> (if stuck j then tot' = tot \<and> T w' = T w \<and> (\<forall>k \<in> D. handed_off cfg (V w') k)
        else tot' = Suc tot \<and> T w' = (T w)(jid j \<mapsto> synced j)
          \<and> (\<forall>k \<in> insert j D. handed_off cfg (V w') k))) w"
  unfolding reconcile_one_def
  by (intro wp_intros assms(1))
    (use assms in \<open>auto simp: stuck_def handed_off_score handed_off_add handed_off_enqueued\<close>,
     auto simp: handed_off_def)

end

lemma update_where_cong: "(\<And>i j. t i = Some j \<Longrightarrow> g j = g' j) \<Longrightarrow> update_where g f t = update_where g' f t"
  by (auto simp: update_where_def fun_eq_iff intro!: option.map_cong0)

context backend
begin

text \<open>Marking a row first and the others of the list then is marking them all.\<close>

lemma mark_rest:
  assumes "T w (jid j) = Some j" and "distinct (map jid (j # rows))"
    and "T w1 = (if stuck j then T w else (T w)(jid j \<mapsto> synced j))"
  shows "update_where (\<lambda>k. k \<in> set rows \<and> \<not> stuck k) synced (T w1) =
    update_where (\<lambda>k. k \<in> set (j # rows) \<and> \<not> stuck k) synced (T w)"
proof (rule ext)
  fix i
  have notin: "k \<notin> set rows" if "jid k = jid j" for k
    using that assms(2) imageI [of k "set rows" jid] by auto
  show "update_where (\<lambda>k. k \<in> set rows \<and> \<not> stuck k) synced (T w1) i =
      update_where (\<lambda>k. k \<in> set (j # rows) \<and> \<not> stuck k) synced (T w) i"
  proof (cases "i = jid j")
    case True
    then show ?thesis using assms(1,3) notin [of "synced j"] notin [of j] by (auto simp: update_where_def)
  next
    case False
    have "k \<noteq> j" if "T w i = Some k" for k using tbl_id [OF that] False by auto
    with False assms(3) show ?thesis by (cases "T w i") (auto simp: update_where_def split: if_splits)
  qed
qed

lemma wp_reconcile_rows:
  assumes "quiet w" and "\<forall>j \<in> set rows. T w (jid j) = Some j" and "distinct (map jid rows)"
    and "\<forall>k \<in> D. handed_off cfg (V w) k \<and> jid k \<notin> jid ` set rows"
  shows "wp (forfold rows tot (reconcile_one S cfg)) (\<lambda>tot' w'. quiet w'
     \<and> tot' = tot + length (filter (\<lambda>j. \<not> stuck j) rows)
     \<and> T w' = update_where (\<lambda>j. j \<in> set rows \<and> \<not> stuck j) synced (T w)
     \<and> (\<forall>k \<in> D \<union> {j \<in> set rows. \<not> stuck j}. handed_off cfg (V w') k)) w"
  using assms
proof (induction rows arbitrary: w tot D)
  case Nil
  then show ?case by (auto simp: update_where_def option.map_ident intro!: wp_return)
next
  case (Cons j rows)
  have tj: "T w (jid j) = Some j" using Cons.prems(2) by simp
  have dj: "\<forall>k \<in> D. handed_off cfg (V w) k \<and> jid k \<noteq> jid j" using Cons.prems(4) by auto
  show ?case
    unfolding forfold.simps
  proof (rule wp_bind, rule wp_conseq [OF wp_reconcile_one [OF Cons.prems(1) tj dj]])
    fix tot1 w1
    let ?D = "if stuck j then D else insert j D"
    assume one: "quiet w1 \<and> clock (shared w1) = clock (shared w)
       \<and> (if stuck j then tot1 = tot \<and> T w1 = T w \<and> (\<forall>k \<in> D. handed_off cfg (V w1) k)
          else tot1 = Suc tot \<and> T w1 = (T w)(jid j \<mapsto> synced j)
            \<and> (\<forall>k \<in> insert j D. handed_off cfg (V w1) k))"
    have keep: "\<forall>k \<in> set rows. T w1 (jid k) = Some k"
    proof
      fix k assume k: "k \<in> set rows"
      then have "T w (jid k) = Some k" using Cons.prems(2) by simp
      moreover have "jid k \<noteq> jid j" using imageI [OF k, of jid] Cons.prems(3) by auto
      ultimately show "T w1 (jid k) = Some k" using one by (cases "stuck j") simp_all
    qed
    have D1: "\<forall>k \<in> ?D. handed_off cfg (V w1) k \<and> jid k \<notin> jid ` set rows"
      using one Cons.prems(3,4) by (auto split: if_splits)
    have upd: "update_where (\<lambda>k. k \<in> set rows \<and> \<not> stuck k) synced (T w1) =
        update_where (\<lambda>k. k \<in> set (j # rows) \<and> \<not> stuck k) synced (T w)"
      by (rule mark_rest [OF tj Cons.prems(3)]) (use one in auto)
    show "wp (forfold rows tot1 (reconcile_one S cfg)) (\<lambda>tot' w'. quiet w'
       \<and> tot' = tot + length (filter (\<lambda>j. \<not> stuck j) (j # rows))
       \<and> T w' = update_where (\<lambda>k. k \<in> set (j # rows) \<and> \<not> stuck k) synced (T w)
       \<and> (\<forall>k \<in> D \<union> {k \<in> set (j # rows). \<not> stuck k}. handed_off cfg (V w') k)) w1"
      by (rule wp_conseq [OF Cons.IH [OF _ keep _ D1]])
        (use one Cons.prems(3) upd in \<open>auto split: if_splits\<close>)
  qed
qed

end

definition movable :: "timestamp \<Rightarrow> table \<Rightarrow> job set" where
  "movable c t = {j \<in> matching (orphan c) t. \<not> stuck j}"

context backend
begin

lemma orphan_rows:
  fixes w :: "('d, 'r) world"
  obtains ys where "set ys = matching (orphan c) (T w)" and "distinct (map jid ys)"
    and "pg_select_ordered (sql S) (\<lambda>j. \<not> is_synced_to_redis j \<and> (status j = pending \<or> status j = scheduled)
           \<and> created_at j < c) False n (db (shared w)) = take n ys"
    and "\<forall>j \<in> set ys. T w (jid j) = Some j"
proof -
  have g: "(\<lambda>j. \<not> is_synced_to_redis j \<and> (status j = pending \<or> status j = scheduled) \<and> created_at j < c) = orphan c"
    by (simp add: orphan_def fun_eq_iff)
  obtain ys where ys: "set ys = matching (orphan c) (T w)"
      "sorted_wrt (\<lambda>a b. row_key a < row_key b) ys"
      "pg_select_ordered (sql S) (orphan c) False n (db (shared w)) = take n ys"
    using select_ordered [of "orphan c" "db (shared w)" False n] by auto
  have rows: "\<forall>j \<in> set ys. T w (jid j) = Some j" using ys(1) by (simp add: matching_tbl)
  have "distinct ys"
    using ys(2) by (induction ys) (auto simp: less_prod_def)
  moreover have "inj_on jid (set ys)"
  proof (rule inj_onI)
    fix a b assume "a \<in> set ys" "b \<in> set ys" and eq: "jid a = jid b"
    then have "T w (jid a) = Some a" "T w (jid b) = Some b" using rows by blast+
    then show "a = b" unfolding eq by simp
  qed
  ultimately have "distinct (map jid ys)" by (simp add: distinct_map)
  then show thesis
    by (rule that [OF ys(1) _ _ rows]) (unfold g, rule ys(3))
qed

lemma movable_step:
  assumes "R \<subseteq> movable c (T w)"
    and "T w' = update_where (\<lambda>j. j \<in> R) synced (T w)"
  shows "matching (orphan c) (T w') = matching (orphan c) (T w) - R"
    and "movable c (T w') = movable c (T w) - R"
    and "update_where (\<lambda>j. orphan c j \<and> \<not> stuck j) synced (T w') =
         update_where (\<lambda>j. orphan c j \<and> \<not> stuck j) synced (T w)"
proof -
  have ns: "\<not> orphan c (synced j)" for j by (simp add: orphan_def)
  have mv: "j \<in> R \<Longrightarrow> orphan c j \<and> \<not> stuck j" for j
    using assms(1) by (auto simp: movable_def matching_def)
  show m: "matching (orphan c) (T w') = matching (orphan c) (T w) - R"
  proof (intro equalityI subsetI)
    fix j assume "j \<in> matching (orphan c) (T w')"
    then have "T w' (jid j) = Some j" "orphan c j" by (simp_all add: matching_tbl)
    then obtain k where k: "T w (jid j) = Some k" "j = (if k \<in> R then synced k else k)"
      by (auto simp: assms(2) update_where_def)
    have "k \<notin> R" using ns [of k] \<open>orphan c j\<close> k(2) by metis
    moreover from this have "j = k" using k(2) by simp
    ultimately show "j \<in> matching (orphan c) (T w) - R"
      using k(1) \<open>orphan c j\<close> by (simp add: matching_tbl)
  next
    fix j assume "j \<in> matching (orphan c) (T w) - R"
    then have "T w (jid j) = Some j" "orphan c j" "j \<notin> R" by (simp_all add: matching_tbl)
    then show "j \<in> matching (orphan c) (T w')"
      unfolding matching_tbl unfolding assms(2) by (simp add: update_where_def)
  qed
  then show "movable c (T w') = movable c (T w) - R" by (auto simp: movable_def)
  show "update_where (\<lambda>j. orphan c j \<and> \<not> stuck j) synced (T w') =
      update_where (\<lambda>j. orphan c j \<and> \<not> stuck j) synced (T w)"
  proof (rule ext)
    fix i
    show "update_where (\<lambda>j. orphan c j \<and> \<not> stuck j) synced (T w') i =
        update_where (\<lambda>j. orphan c j \<and> \<not> stuck j) synced (T w) i"
    proof (cases "T w i")
      case (Some k)
      then show ?thesis
        unfolding assms(2) by (cases "k \<in> R") (simp_all add: update_where_def ns mv)
    qed (simp add: assms(2) update_where_def)
  qed
qed

end

context backend
begin

lemma finite_matching: "finite (matching g (tbl d))"
  by (metis List.finite_set select_set)

text \<open>A full batch contains rows that can move, so that fewer are left after it.\<close>

lemma full_batch_moves:
  assumes "set ys = matching (orphan c) (T w)" and "distinct (map jid ys)"
    and "card {j \<in> matching (orphan c) (T w). stuck j} < n" and "n \<le> length (take n ys)"
    and "R = {j \<in> set (take n ys). \<not> stuck j}" and "T w' = update_where (\<lambda>j. j \<in> R) synced (T w)"
  shows "0 < card R" and "card (movable c (T w')) + card R = card (movable c (T w))"
    and "card {j \<in> matching (orphan c) (T w'). stuck j} < n"
proof -
  have R: "R \<subseteq> movable c (T w)" using assms(1,5) by (auto simp: movable_def dest: in_set_takeD)
  have fin: "finite (movable c (T w))" using finite_matching by (simp add: movable_def)
  note step = movable_step [OF R assms(6)]
  have "R \<noteq> {}"
  proof
    assume "R = {}"
    then have "set (take n ys) \<subseteq> {j \<in> matching (orphan c) (T w). stuck j}"
      using assms(1,5) by (auto dest: in_set_takeD)
    from card_mono [OF _ this] have "length (take n ys) \<le> card {j \<in> matching (orphan c) (T w). stuck j}"
      using finite_matching distinct_card [of "take n ys"] assms(2) by (simp add: distinct_map)
    with assms(3,4) show False by simp
  qed
  then show "0 < card R" using finite_subset [OF R fin] by (simp add: card_gt_0_iff)
  show "card (movable c (T w')) + card R = card (movable c (T w))"
    unfolding step(2) using card_Diff_subset [OF finite_subset [OF R fin] R] card_mono [OF fin R] by simp
  have "{j \<in> matching (orphan c) (T w'). stuck j} = {j \<in> matching (orphan c) (T w). stuck j}"
    unfolding step(1) using assms(5) by auto
  then show "card {j \<in> matching (orphan c) (T w'). stuck j} < n" using assms(3) by simp
qed

text \<open>After a batch that was not full, everything that could move has moved.\<close>

lemma short_batch:
  assumes "set ys = matching (orphan c) (T w)" and "length (take n ys) < n"
    and "T w' = update_where (\<lambda>j. j \<in> {j \<in> set (take n ys). \<not> stuck j}) synced (T w)"
  shows "movable c (T w) = {j \<in> set (take n ys). \<not> stuck j}"
    and "T w' = update_where (\<lambda>j. orphan c j \<and> \<not> stuck j) synced (T w)"
proof -
  show mv: "movable c (T w) = {j \<in> set (take n ys). \<not> stuck j}" using assms(1,2) by (auto simp: movable_def)
  show "T w' = update_where (\<lambda>j. orphan c j \<and> \<not> stuck j) synced (T w)"
    unfolding assms(3) mv [symmetric]
    by (intro update_where_cong) (auto simp: movable_def matching_def ran_def)
qed

text \<open>The rows of one batch: those that can move, \<open>R\<close>, are handed over and marked.\<close>

lemma wp_move_batch:
  assumes "quiet w" and "distinct (map jid rows)" and "\<forall>j \<in> set rows. T w (jid j) = Some j"
    and "\<forall>k \<in> D. handed_off cfg (V w) k \<and> jid k \<notin> jid ` set rows" and R: "R = {j \<in> set rows. \<not> stuck j}"
  shows "wp (forfold rows tot (reconcile_one S cfg)) (\<lambda>tot1 w'. quiet w' \<and> tot1 = tot + card R
     \<and> T w' = update_where (\<lambda>j. j \<in> R) synced (T w) \<and> (\<forall>k \<in> D \<union> R. handed_off cfg (V w') k)) w"
proof -
  have "distinct rows" using assms(2) by (simp add: distinct_map)
  then have "length (filter (\<lambda>j. \<not> stuck j) rows) = card R"
    unfolding R using distinct_card [OF distinct_filter [of rows "\<lambda>j. \<not> stuck j"]] by simp
  then show ?thesis
    using wp_reconcile_rows [OF assms(1,3,2,4), of tot] unfolding R by (elim wp_conseq) simp
qed

text \<open>
  One pass of the loop: either it was the last and everything that could move has moved, or a full batch
  \<open>R\<close> has moved and the loop goes on with fewer rows before it.
\<close>

lemma wp_reconcile_batch:
  assumes "quiet w" and "card {j \<in> matching (orphan c) (T w). stuck j} < reconcile_batch_size cfg"
    and "\<forall>k \<in> D. handed_off cfg (V w) k \<and> jid k \<notin> jid ` matching (orphan c) (T w)"
    and last: "\<And>w'. T w' = update_where (\<lambda>j. orphan c j \<and> \<not> stuck j) synced (T w) \<Longrightarrow>
        \<forall>k \<in> D \<union> movable c (T w). handed_off cfg (V w') k \<Longrightarrow> Q (Some (tot + card (movable c (T w)))) w'"
    and more: "\<And>R w'. quiet w' \<Longrightarrow> R \<subseteq> movable c (T w) \<Longrightarrow> T w' = update_where (\<lambda>j. j \<in> R) synced (T w) \<Longrightarrow>
        0 < card R \<Longrightarrow> card (movable c (T w')) + card R = card (movable c (T w)) \<Longrightarrow>
        card {j \<in> matching (orphan c) (T w'). stuck j} < reconcile_batch_size cfg \<Longrightarrow>
        \<forall>k \<in> D \<union> R. handed_off cfg (V w') k \<Longrightarrow> wp (reconcile_loop fuel S cfg c (tot + card R)) Q w'"
  shows "wp (reconcile_loop (Suc fuel) S cfg c tot) Q w"
proof -
  let ?n = "reconcile_batch_size cfg"
  obtain ys where ys: "set ys = matching (orphan c) (T w)" "distinct (map jid ys)"
    "pg_select_ordered (sql S) (\<lambda>j. \<not> is_synced_to_redis j \<and> (status j = pending \<or> status j = scheduled)
        \<and> created_at j < c) False ?n (db (shared w)) = take ?n ys"
    "\<forall>j \<in> set ys. T w (jid j) = Some j"
    by (rule orphan_rows)
  let ?rows = "take ?n ys" and ?R = "{j \<in> set (take ?n ys). \<not> stuck j}"
  have dist: "distinct (map jid ?rows)" using ys(2) by (simp add: take_map [symmetric] distinct_take)
  have R: "?R \<subseteq> movable c (T w)" using ys(1) by (auto simp: movable_def dest: in_set_takeD)
  have D: "\<forall>k \<in> D. handed_off cfg (V w) k \<and> jid k \<notin> jid ` set ?rows"
    using assms(3) ys(1) by (auto dest: in_set_takeD)
  have rows: "\<forall>j \<in> set ?rows. T w (jid j) = Some j" using ys(4) by (meson in_set_takeD)
  have short: "Q (Some (tot + card ?R)) w2"
    if "length ?rows < ?n" and "T w2 = update_where (\<lambda>j. j \<in> ?R) synced (T w)"
      and "\<forall>k \<in> D \<union> ?R. handed_off cfg (V w2) k" for w2
    using last [OF short_batch(2) [OF ys(1) that(1,2)]] that(3) short_batch(1) [OF ys(1) that(1,2)] by simp
  show ?thesis
    unfolding reconcile_loop.simps list_unsynced_def
  proof (rule wp_bind, rule wp_sql_query [OF assms(1)], unfold ys(3), rule wp_if)
    fix w1 :: "('d, 'r) world"
    assume "shared w1 = shared w" "?rows = []"
    with short [of w1] assms(2,3) show "wp (return (Some tot)) Q w1"
      by (intro wp_return) (simp add: update_where_def option.map_ident)
  next
    fix w1 :: "('d, 'r) world"
    assume w1: "quiet w1" "shared w1 = shared w"
    show "wp (forfold ?rows tot (reconcile_one S cfg) \<bind> (\<lambda>tot. if length ?rows < ?n then return (Some tot)
        else reconcile_loop fuel S cfg c tot)) Q w1"
    proof (rule wp_bind, rule wp_conseq [OF wp_move_batch [where D = D, OF w1(1) dist _ _ refl]], unfold w1(2),
        rule rows, rule D, elim conjE, hypsubst)
      fix w2
      assume w2: "quiet w2" "T w2 = update_where (\<lambda>j. j \<in> ?R) synced (T w)" "\<forall>k \<in> D \<union> ?R. handed_off cfg (V w2) k"
      show "wp (if length ?rows < ?n then return (Some (tot + card ?R)) else reconcile_loop fuel S cfg c (tot + card ?R)) Q w2"
        by (rule wp_if, rule wp_return, erule short [OF _ w2(2,3)], rule more [OF w2(1) R w2(2) _ _ _ w2(3)])
          (use full_batch_moves [OF ys(1,2) assms(2) _ refl w2(2)] in auto)
    qed
  qed
qed

lemma wp_reconcile_loop:
  assumes "quiet w" and "card {j \<in> matching (orphan c) (T w). stuck j} < reconcile_batch_size cfg"
    and "card (movable c (T w)) < fuel"
    and "\<forall>k \<in> D. handed_off cfg (V w) k \<and> jid k \<notin> jid ` matching (orphan c) (T w)"
  shows "wp (reconcile_loop fuel S cfg c tot) (\<lambda>r w'. r = Some (tot + card (movable c (T w)))
     \<and> T w' = update_where (\<lambda>j. orphan c j \<and> \<not> stuck j) synced (T w)
     \<and> (\<forall>k \<in> D \<union> movable c (T w). handed_off cfg (V w') k)) w"
  using assms
proof (induction fuel arbitrary: w D tot)
  case (Suc fuel)
  show ?case
  proof (rule wp_reconcile_batch [OF Suc.prems(1,2,4)])
    fix R and w' :: "('d, 'r) world"
    assume w': "quiet w'" "R \<subseteq> movable c (T w)" "T w' = update_where (\<lambda>j. j \<in> R) synced (T w)" "0 < card R"
      "card (movable c (T w')) + card R = card (movable c (T w))"
      "card {j \<in> matching (orphan c) (T w'). stuck j} < reconcile_batch_size cfg"
      "\<forall>k \<in> D \<union> R. handed_off cfg (V w') k"
    note step = movable_step [OF w'(2,3)]
    have "jid k \<noteq> jid j" if "k \<in> R" "j \<in> matching (orphan c) (T w) - R" for j k
    proof -
      have "k \<in> matching (orphan c) (T w)" using that(1) w'(2) by (auto simp: movable_def)
      then have "T w (jid k) = Some k" "T w (jid j) = Some j" using that(2) by (simp_all add: matching_tbl)
      then have "k = j" if "jid k = jid j" by (metis option.inject that)
      with that show ?thesis by blast
    qed
    then have D: "\<forall>k \<in> D \<union> R. handed_off cfg (V w') k \<and> jid k \<notin> jid ` matching (orphan c) (T w')"
      unfolding step(1) using w'(7) Suc.prems(4) by fastforce
    have fuel: "card (movable c (T w')) < fuel" using w'(4,5) Suc.prems(3) by simp
    show "wp (reconcile_loop fuel S cfg c (tot + card R)) (\<lambda>r w'. r = Some (tot + card (movable c (T w)))
       \<and> T w' = update_where (\<lambda>j. orphan c j \<and> \<not> stuck j) synced (T w)
       \<and> (\<forall>k \<in> D \<union> movable c (T w). handed_off cfg (V w') k)) w'"
      by (rule wp_conseq [OF Suc.IH [OF w'(1,6) fuel D, of "tot + card R"]])
        (use w'(2,5) step(2,3) in auto)
  qed simp_all
qed simp

end

section \<open>Properties\<close>



context backend
begin

lemma wp_reconcile_orphans:
  assumes "quiet w"
    and "card {j \<in> matching (orphan (clock (shared w) - reconcile_grace_us cfg)) (T w). stuck j} < reconcile_batch_size cfg"
    and "card (movable (clock (shared w) - reconcile_grace_us cfg) (T w)) < fuel"
  shows "wp (reconcile_orphans fuel S cfg) (\<lambda>r w'. let c = clock (shared w) - reconcile_grace_us cfg in
     r = Some (card (movable c (T w)))
     \<and> T w' = update_where (\<lambda>j. orphan c j \<and> \<not> stuck j) synced (T w)
     \<and> (\<forall>j \<in> movable c (T w). handed_off cfg (V w') j)) w"
  unfolding reconcile_orphans_def Let_def
  by (rule wp_bind, rule wp_utc_now, rule wp_conseq [OF wp_reconcile_loop [OF assms(1), of _ cfg fuel "{}" 0]])
    (use assms in auto)

end

text \<open>
  When the overdue unsynced rows are all scheduled without a time and fill a batch, no number of rounds
  is enough: the pass selects the same rows again and again.
\<close>

context backend
begin

lemma reconcile_spins:
  assumes "quiet w" and "\<forall>j \<in> matching (orphan c) (T w). stuck j"
    and "reconcile_batch_size cfg \<le> card (matching (orphan c) (T w))" and "0 < reconcile_batch_size cfg"
  shows "wp (reconcile_loop fuel S cfg c tot) (\<lambda>r w'. r = None) w"
  using assms
proof (induction fuel arbitrary: w tot)
  case (Suc fuel)
  let ?n = "reconcile_batch_size cfg"
  obtain ys where ys: "set ys = matching (orphan c) (T w)" "distinct (map jid ys)"
    "pg_select_ordered (sql S) (\<lambda>j. \<not> is_synced_to_redis j \<and> (status j = pending \<or> status j = scheduled)
        \<and> created_at j < c) False ?n (db (shared w)) = take ?n ys" by (rule orphan_rows)
  have "length ys = card (matching (orphan c) (T w))"
    using distinct_card [of ys] ys(1,2) by (simp add: distinct_map)
  then have full: "length (take ?n ys) = ?n" using Suc.prems(3) by simp
  have skip: "wp (forfold rows tot (reconcile_one S cfg)) (\<lambda>_ w'. w' = u) u"
    if "\<forall>j \<in> set rows. stuck j" for rows tot and u :: "('d, 'r) world"
    using that
    by (induction rows arbitrary: tot)
      (auto simp: stuck_def reconcile_one_def wp_def run_simps split: prod.splits)
  show ?case
    unfolding reconcile_loop.simps list_unsynced_def
  proof (rule wp_bind, rule wp_sql_query [OF Suc.prems(1)], unfold ys(3), rule wp_if)
    fix w1 assume w1: "quiet w1" "shared w1 = shared w"
    show "wp (forfold (take ?n ys) tot (reconcile_one S cfg) \<bind> (\<lambda>tot.
        if length (take ?n ys) < ?n then return (Some tot) else reconcile_loop fuel S cfg c tot))
        (\<lambda>r w'. r = None) w1"
      by (rule wp_bind, rule wp_conseq [OF skip])
        (use Suc.prems ys(1) w1 full Suc.IH [of w1] in \<open>auto dest: in_set_takeD\<close>)
  qed (use full Suc.prems(4) in auto)
qed (simp add: wp_return)

end

text \<open>
  C10 (reap_one_matrix). What the reaper makes of a stale message, undisturbed: a job that is gone,
  finished, or waiting and handed to Redis is left alone; one still \<open>processing\<close> is retried or failed
  by the retry rules, as an attempt of a lost worker; one that went back to waiting without reaching
  Redis gets its missing entry and is marked. In every case the message is acknowledged.
\<close>

theorem reap_one_matrix:
  assumes "backend S tbl view idle" and "quiet w"
    and "\<forall>j. tbl (db (shared w)) i = Some j \<longrightarrow> 0 \<le> attempts j"
    and "retry_backoff_schedule cfg \<noteq> []"
  shows "case run_state (reap_one S cfg stream m i) w of (r, w') \<Rightarrow> r = Inr () \<and>
     (\<exists>v'. reap_spec S cfg (clock (shared w)) (tbl (db (shared w))) (view (rds (shared w))) i (tbl (db (shared w'))) v'
        \<and> view (rds (shared w')) = ack_entry stream (consumer_group cfg) m v')"
  using backend.wp_reap_one [OF assms(1,2) _ assms(4), of i stream m] assms(3)
  unfolding wp_def by (auto split: prod.splits)

theorem reap_one_matrix_witness:
  "case run_state (reap_one ref_services sample_cfg ''jobs:stream:normal'' (1, 0) 7)
       (sample_world [sample_job pending]) of (r, w') \<Rightarrow>
     ref_tbl (db (shared w')) = (ref_tbl [sample_job pending])(7 \<mapsto> synced (sample_job pending))"
  using reap_one_matrix [OF ref_backend, of "sample_world [sample_job pending]" 7 sample_cfg "''jobs:stream:normal''" "(1, 0)"]
  by (auto simp: reap_spec_def split: prod.splits)

text \<open>
  C30 (reap_stale_terminates). The scan of the pending lists ends: undisturbed, one round more than the
  longest pending list of the three streams is enough, whatever pieces the server scans at a time.
\<close>

theorem reap_stale_terminates:
  assumes "backend S tbl view idle" and "quiet w" and "0 < reaper_batch_size cfg"
    and "\<forall>s \<in> set (ordered_streams cfg). length (in_flight (view (rds (shared w))) s (consumer_group cfg)) < fuel"
  shows "\<exists>r. fst (run_state (reap_stale fuel S cfg) w) = Some r"
  using backend.wp_reap_streams_ends [OF assms, of 0]
  by (auto simp: wp_def reap_stale_def split: prod.splits)

theorem reap_stale_terminates_witness:
  "\<exists>r. fst (run_state (reap_stale 1 ref_services sample_cfg) (sample_world [sample_job processing])) = Some r"
  by (rule reap_stale_terminates [OF ref_backend])
    (simp_all add: ordered_streams_def in_flight_def ref_view_def ref_norm_def ref_ok_def ref_raw_view_def
      ref_group_def ref_entries_def ref_log_def sample_redis_def)

end
