(* ===== verification/Routes.thy ===== *)
theory Routes
  imports Retry Payloads
begin

text \<open>
  \<open>app/api/routes.py\<close> (without the list route, which is in \<open>Listing\<close>) and the models of
  \<open>app/schemas/api.py\<close> the routes use: submission with idempotency keys, the owner's view of a job,
  manual retry and cancellation. The identifier \<open>uuid4\<close> draws, the trace carrier of the request and
  SHA-256 are arguments. Metrics and log lines are not modelled.
\<close>

section \<open>Requests and responses\<close>

text \<open>A \<open>datetime\<close> of a request: the local reading and the offset from UTC, if it has one.\<close>

record request_datetime =
  local_us :: int
  utc_offset_us :: "int option"

definition normalize_utc :: "timestamp \<Rightarrow> request_datetime option \<Rightarrow> py_error + timestamp option" where
  "normalize_utc now v = (case v of
     None \<Rightarrow> Inr None
   | Some d \<Rightarrow>
       let t = (case utc_offset_us d of None \<Rightarrow> local_us d | Some off \<Rightarrow> local_us d - off) in
       if t > now + 365 * 86400 * second
       then Inl (ValueError ''scheduled_at more than 365 days in the future'')
       else Inr (Some t))"

record JobSubmission =
  sub_type :: JobType
  sub_payload :: json
  sub_priority :: JobPriority
  sub_scheduled_at :: "timestamp option"
  sub_key :: "string option"

record AuthedUser =
  au_id :: uuid
  au_name :: string

record JobAccepted =
  acc_id :: uuid
  acc_type :: JobType
  acc_status :: JobStatus
  acc_priority :: JobPriority
  acc_created_at :: timestamp
  acc_scheduled_at :: "timestamp option"

record JobOut =
  out_id :: uuid
  out_type :: JobType
  out_status :: JobStatus
  out_priority :: JobPriority
  out_payload :: json
  out_result :: "json option"
  out_error :: "json option"
  out_created_at :: timestamp
  out_started_at :: "timestamp option"
  out_completed_at :: "timestamp option"
  out_scheduled_at :: "timestamp option"
  out_attempts :: int
  out_max_attempts :: int
  out_progress :: "int option"
  out_cancel_requested_at :: "timestamp option"

definition job_out :: "job \<Rightarrow> JobOut" where
  "job_out j = \<lparr>out_id = jid j, out_type = jtype j, out_status = status j, out_priority = priority j,
     out_payload = payload j, out_result = result j, out_error = error j, out_created_at = created_at j,
     out_started_at = started_at j, out_completed_at = completed_at j, out_scheduled_at = scheduled_at j,
     out_attempts = attempts j, out_max_attempts = max_attempts j, out_progress = progress j,
     out_cancel_requested_at = cancel_requested_at j\<rparr>"

definition accepted :: "job \<Rightarrow> JobAccepted" where
  "accepted j = \<lparr>acc_id = jid j, acc_type = jtype j, acc_status = status j, acc_priority = priority j,
     acc_created_at = created_at j, acc_scheduled_at = scheduled_at j\<rparr>"

text \<open>An answer is a status code with a body; \<open>Unhandled\<close> is an exception no clause catches.\<close>

datatype http_error = HTTPException nat string | Unhandled

type_synonym 'a response = "http_error + nat \<times> 'a"

section \<open>Submission\<close>

definition create_and_handoff ::
  "('d, 'r) services \<Rightarrow> settings \<Rightarrow> uuid \<Rightarrow> json option \<Rightarrow> JobSubmission \<Rightarrow> string option \<Rightarrow> string option
   \<Rightarrow> uuid \<Rightarrow> string \<Rightarrow> ('d, 'r, db_error + job) io" where
  "create_and_handoff S cfg new_id carrier sub key req_hash uid uname = do {
     let maxa = (if sub_type sub = batch then 1 else settings_max_attempts cfg);
     now \<leftarrow> utc_now;
     case (case sub_scheduled_at sub of Some at \<Rightarrow> if at > now then Some at else None | None \<Rightarrow> None) of
       Some at \<Rightarrow> do {
         r \<leftarrow> create_job S new_id (sub_type sub) (sub_payload sub) scheduled (Some at) (sub_priority sub)
                maxa key req_hash carrier (Some uid) (Some uname);
         case r of
           Inl e \<Rightarrow> return (Inl e)
         | Inr job \<Rightarrow> do {
             schedule S (delayed_zset cfg) (uuid_str (jid job)) at;
             mark_synced S (jid job);
             return (Inr job)
           }
       }
     | None \<Rightarrow> do {
         r \<leftarrow> create_job S new_id (sub_type sub) (sub_payload sub) pending None (sub_priority sub)
                maxa key req_hash carrier (Some uid) (Some uname);
         case r of
           Inl e \<Rightarrow> return (Inl e)
         | Inr job \<Rightarrow> do {
             _ \<leftarrow> enqueue S (stream_for_priority cfg (sub_priority sub)) (uuid_str (jid job)) None;
             mark_synced S (jid job);
             return (Inr job)
           }
       }
   }"

definition replay_or_conflict :: "job option \<Rightarrow> string \<Rightarrow> JobAccepted response" where
  "replay_or_conflict existing req_hash = (case existing of
     Some j \<Rightarrow>
       if idempotency_hash j = Some req_hash then Inr (200, accepted j)
       else Inl (HTTPException 409 ''idempotency key reused with a different payload'')
   | None \<Rightarrow> Inl (HTTPException 409 ''idempotency key reused with a different payload''))"

definition submit_job ::
  "('d, 'r) services \<Rightarrow> schema_ops \<Rightarrow> (string \<Rightarrow> string) \<Rightarrow> settings \<Rightarrow> uuid \<Rightarrow> json option \<Rightarrow> JobSubmission
   \<Rightarrow> AuthedUser \<Rightarrow> ('d, 'r, JobAccepted response) io" where
  "submit_job S P sha cfg new_id carrier sub user = (
     case validate_payload P (sub_type sub) (sub_payload sub) (Some cfg) of
       Inl (ValidationError msg) \<Rightarrow> return (Inl (HTTPException 422 msg))
     | Inl (PayloadPolicyError msg) \<Rightarrow> return (Inl (HTTPException 422 msg))
     | Inl PayloadIndexError \<Rightarrow> return (Inl Unhandled)
     | Inr p \<Rightarrow> (case sub_key sub of
         None \<Rightarrow> do {
           r \<leftarrow> create_and_handoff S cfg new_id carrier sub None None (au_id user) (au_name user);
           case r of Inl e \<Rightarrow> return (Inl Unhandled) | Inr job \<Rightarrow> return (Inr (202, accepted job))
         }
       | Some key \<Rightarrow> do {
           let req_hash = canonical_hash sha (sub_type sub) (sub_payload sub);
           existing \<leftarrow> get_by_idempotency_key S key (au_id user);
           case existing of
             Some j \<Rightarrow> return (replay_or_conflict (Some j) req_hash)
           | None \<Rightarrow> do {
               r \<leftarrow> create_and_handoff S cfg new_id carrier sub (Some key) (Some req_hash) (au_id user) (au_name user);
               case r of
                 Inr job \<Rightarrow> return (Inr (202, accepted job))
               | Inl IntegrityError \<Rightarrow> do {
                   existing \<leftarrow> get_by_idempotency_key S key (au_id user);
                   return (replay_or_conflict existing req_hash)
                 }
               | Inl InvalidRequestError \<Rightarrow> return (Inl Unhandled)
             }
         }))"

section \<open>The owner's view, retry and cancellation\<close>

definition not_found :: http_error where
  "not_found = HTTPException 404 ''job not found''"

definition get_job_route ::
  "('d, 'r) services \<Rightarrow> uuid \<Rightarrow> AuthedUser \<Rightarrow> ('d, 'r, JobOut response) io" where
  "get_job_route S job_id user = do {
     got \<leftarrow> get_job S job_id (Some (au_id user));
     case got of None \<Rightarrow> return (Inl not_found) | Some job \<Rightarrow> return (Inr (200, job_out job))
   }"

definition retry_job ::
  "('d, 'r) services \<Rightarrow> settings \<Rightarrow> uuid \<Rightarrow> AuthedUser \<Rightarrow> ('d, 'r, JobOut response) io" where
  "retry_job S cfg job_id user = do {
     got \<leftarrow> get_job S job_id (Some (au_id user));
     case got of
       None \<Rightarrow> return (Inl not_found)
     | Some job \<Rightarrow> do {
         won \<leftarrow> reset_failed_to_pending S job_id;
         if \<not> won
         then return (Inl (HTTPException 409 ''job is not retryable (not failed, or cancel was requested)''))
         else do {
           _ \<leftarrow> enqueue S (stream_for_priority cfg (priority job)) (uuid_str job_id) None;
           mark_synced S job_id;
           refreshed \<leftarrow> get_job S job_id None;
           case refreshed of
             None \<Rightarrow> return (Inl Unhandled)
           | Some job \<Rightarrow> return (Inr (200, job_out job))
         }
       }
   }"

text \<open>
  The session keeps an object the handler still holds: \<open>session.get\<close> answers with it instead of a
  query, and an \<open>UPDATE\<close> also changes it when it matches the criteria, whether or not the row did. The
  cancel route holds the job it read in the round before.
\<close>

definition session_get ::
  "('d, 'r) services \<Rightarrow> job option \<Rightarrow> uuid \<Rightarrow> ('d, 'r, job option) io" where
  "session_get S held job_id = (case held of Some j \<Rightarrow> return (Some j) | None \<Rightarrow> get_job S job_id None)"

definition session_sync :: "(job \<Rightarrow> bool) \<Rightarrow> (job \<Rightarrow> job) \<Rightarrow> job option \<Rightarrow> job option" where
  "session_sync g f held = map_option (\<lambda>j. if g j then f j else j) held"

definition shown :: "nat \<Rightarrow> job option \<Rightarrow> JobOut response" where
  "shown code got = (case got of None \<Rightarrow> Inl Unhandled | Some j \<Rightarrow> Inr (code, job_out j))"

fun cancel_rounds ::
  "nat \<Rightarrow> ('d, 'r) services \<Rightarrow> settings \<Rightarrow> uuid \<Rightarrow> job option \<Rightarrow> ('d, 'r, JobOut response) io" where
  "cancel_rounds 0 S cfg job_id held = return (Inl (HTTPException 409 ''job state is changing; retry''))"
| "cancel_rounds (Suc n) S cfg job_id held = do {
     now \<leftarrow> utc_now;
     won \<leftarrow> cancel_pending_or_scheduled S job_id;
     let held = session_sync (\<lambda>j. status j = pending \<or> status j = scheduled)
                  (\<lambda>j. j\<lparr>status := cancelled, completed_at := Some now\<rparr>) held;
     if won then do {
       _ \<leftarrow> redis_step (zrem (redis S) (delayed_zset cfg) [uuid_str job_id]);
       got \<leftarrow> session_get S held job_id;
       return (shown 200 got)
     }
     else do {
       now \<leftarrow> utc_now;
       asked \<leftarrow> request_cancel S job_id;
       let held = session_sync (\<lambda>j. status j = processing) (\<lambda>j. j\<lparr>cancel_requested_at := Some now\<rparr>) held;
       if asked then do {
         got \<leftarrow> session_get S held job_id;
         return (shown 202 got)
       }
       else do {
         got \<leftarrow> session_get S held job_id;
         case got of
           None \<Rightarrow> return (Inl not_found)
         | Some job \<Rightarrow>
             if status job = cancelled then return (Inr (200, job_out job))
             else if status job = completed \<or> status job = failed
             then return (Inl (HTTPException 409 ''job cannot be cancelled in its current state''))
             else cancel_rounds n S cfg job_id (Some job)
       }
     }
   }"

definition cancel_job_route ::
  "('d, 'r) services \<Rightarrow> settings \<Rightarrow> uuid \<Rightarrow> AuthedUser \<Rightarrow> ('d, 'r, JobOut response) io" where
  "cancel_job_route S cfg job_id user = do {
     got \<leftarrow> get_job S job_id (Some (au_id user));
     case got of
       None \<Rightarrow> return (Inl not_found)
     | Some _ \<Rightarrow> cancel_rounds 3 S cfg job_id None
   }"

section \<open>Every step keeps to the life cycle\<close>

context backend
begin

lemma guar_submit [guar_intros]: "guarantees (lifecycle tbl) (submit_job S P sha cfg new_id carrier sub user)"
proof -
  have c: "guarantees (lifecycle tbl) (create_and_handoff S cfg new_id carrier sub key h uid uname)" for key h uid uname
    unfolding create_and_handoff_def by (intro guar_intros) simp_all
  show ?thesis
    by (auto simp: submit_job_def Let_def split: sum.split payload_error.split option.split db_error.split
        intro!: guar_intros c)
qed

lemma guar_get_route [guar_intros]: "guarantees (lifecycle tbl) (get_job_route S i user)"
  unfolding get_job_route_def by (intro guar_intros)

lemma guar_retry_route [guar_intros]: "guarantees (lifecycle tbl) (retry_job S cfg i user)"
  unfolding retry_job_def by (intro guar_intros)

lemma guar_cancel_rounds [guar_intros]: "guarantees (lifecycle tbl) (cancel_rounds n S cfg i held)"
  by (induction n arbitrary: held) (auto simp: session_get_def Let_def intro!: guar_intros)

lemma guar_cancel_route [guar_intros]: "guarantees (lifecycle tbl) (cancel_job_route S cfg i user)"
  unfolding cancel_job_route_def by (intro guar_intros)

end

section \<open>Submission, undisturbed\<close>

definition submitted_row ::
  "settings \<Rightarrow> timestamp \<Rightarrow> uuid \<Rightarrow> json option \<Rightarrow> JobSubmission \<Rightarrow> string option \<Rightarrow> string option \<Rightarrow> AuthedUser
   \<Rightarrow> timestamp \<Rightarrow> job" where
  "submitted_row cfg now new_id carrier sub key h user c =
     (let at = (case sub_scheduled_at sub of Some at \<Rightarrow> if at > now then Some at else None | None \<Rightarrow> None)
      in (new_job new_id (sub_type sub) (sub_payload sub) (if at = None then pending else scheduled) at
            (sub_priority sub) (if sub_type sub = batch then 1 else settings_max_attempts cfg) key h carrier
            (Some (au_id user)) (Some (au_name user)))\<lparr>created_at := c\<rparr>)"

definition handoff :: "('d, 'r) services \<Rightarrow> settings \<Rightarrow> job \<Rightarrow> redis_view \<Rightarrow> redis_view \<Rightarrow> bool" where
  "handoff S cfg j v v' = (case scheduled_at j of
     Some at \<Rightarrow> v' = set_score (delayed_zset cfg) (uuid_str (jid j)) at v
   | None \<Rightarrow> let s = stream_for_priority cfg (priority j) in
       \<exists>e. v' = add_entry s (e, message_fields S s (uuid_str (jid j)) None) v)"

definition holds_key :: "string \<Rightarrow> uuid \<Rightarrow> job \<Rightarrow> bool" where
  "holds_key key uid j \<longleftrightarrow> idempotency_key j = Some key \<and> user_id j = Some uid"

lemma submitted_row_simps [simp]:
  "jid (submitted_row cfg now i carrier sub key h user c) = i"
  "priority (submitted_row cfg now i carrier sub key h user c) = sub_priority sub"
  "idempotency_key (submitted_row cfg now i carrier sub key h user c) = key"
  "idempotency_hash (submitted_row cfg now i carrier sub key h user c) = h"
  "user_id (submitted_row cfg now i carrier sub key h user c) = Some (au_id user)"
  by (simp_all add: submitted_row_def new_job_def Let_def)

lemma accepted_synced [simp]: "accepted (j\<lparr>is_synced_to_redis := b\<rparr>) = accepted j"
  by (simp add: accepted_def)

context backend
begin

lemma wp_create_job:
  assumes "quiet w" and "row = new_job i t p st sched prio maxa key h tc uid un"
    and "T w i = None" and "\<forall>j \<in> ran (T w). \<not> key_clash row j"
    and "\<And>c w'. quiet w' \<Longrightarrow> rds (shared w') = rds (shared w) \<Longrightarrow> clock (shared w') = clock (shared w) \<Longrightarrow>
      T w' = (T w)(i \<mapsto> row\<lparr>created_at := c\<rparr>) \<Longrightarrow> Q (Inr (row\<lparr>created_at := c\<rparr>)) w'"
  shows "wp (create_job S i t p st sched prio maxa key h tc uid un) Q w"
proof -
  let ?ins = "pg_insert (sql S) row (db (shared w))"
  have i: "jid row = i" by (simp add: assms(2) new_job_def)
  have ok: "fst ?ins" using insert_conflict [of row "db (shared w)"] assms(3,4) i by simp
  from insert_tbl [OF ok] obtain c where c: "tbl (snd ?ins) = (T w)(i \<mapsto> row\<lparr>created_at := c\<rparr>)"
    using i by auto
  show ?thesis
    unfolding create_job_def assms(2) [symmetric]
    by (rule wp_bind, rule wp_sql_step [OF assms(1)])
      (auto simp: ok one_or_none_by_id c intro!: wp_intros assms(5))
qed

lemma wp_get_by_key:
  assumes "quiet w" and "\<And>r w'. quiet w' \<Longrightarrow> shared w' = shared w \<Longrightarrow>
      (case r of None \<Rightarrow> \<forall>j \<in> ran (T w). \<not> holds_key key uid j
       | Some j \<Rightarrow> j \<in> ran (T w) \<and> holds_key key uid j) \<Longrightarrow> Q r w'"
  shows "wp (get_by_idempotency_key S key uid) Q w"
proof -
  let ?rows = "pg_select (sql S) (\<lambda>j. idempotency_key j = Some key \<and> user_id j = Some uid) (db (shared w))"
  have "set ?rows = {j \<in> ran (T w). holds_key key uid j}"
    by (auto simp: select_set matching_def holds_key_def)
  then have "case one_or_none ?rows of None \<Rightarrow> \<forall>j \<in> ran (T w). \<not> holds_key key uid j
       | Some j \<Rightarrow> j \<in> ran (T w) \<and> holds_key key uid j"
    by (cases ?rows) (auto simp: one_or_none_def)
  then show ?thesis
    unfolding get_by_idempotency_key_def
    by (intro wp_intros assms(1)) (rule assms(2))
qed

lemma wp_create_and_handoff:
  assumes "quiet w" and "T w i = None"
    and "\<forall>j \<in> ran (T w). \<forall>k. key = Some k \<longrightarrow> \<not> holds_key k (au_id user) j"
    and "\<And>c w'. quiet w' \<Longrightarrow> clock (shared w') = clock (shared w) \<Longrightarrow>
      T w' = (T w)(i \<mapsto> (submitted_row cfg (clock (shared w)) i carrier sub key h user c)\<lparr>is_synced_to_redis := True\<rparr>) \<Longrightarrow>
      handoff S cfg (submitted_row cfg (clock (shared w)) i carrier sub key h user c) (V w) (V w') \<Longrightarrow>
      Q (Inr (submitted_row cfg (clock (shared w)) i carrier sub key h user c)) w'"
  shows "wp (create_and_handoff S cfg i carrier sub key h (au_id user) (au_name user)) Q w"
proof -
  have clash: "\<forall>j \<in> ran (T w). \<not> key_clash (new_job i t p st sched prio maxa key h tc (Some (au_id user)) un) j"
    for t p st sched prio maxa tc un
    using assms(3) by (auto simp: key_clash_def new_job_def holds_key_def)
  let ?at = "case sub_scheduled_at sub of Some at \<Rightarrow> if at > clock (shared w) then Some at else None | None \<Rightarrow> None"
  let ?row = "submitted_row cfg (clock (shared w)) i carrier sub key h user"
  let ?maxa = "if sub_type sub = batch then 1 else settings_max_attempts cfg"
  show ?thesis
  proof (cases ?at)
    case None
    have row: "(new_job i (sub_type sub) (sub_payload sub) pending None (sub_priority sub) ?maxa key h carrier
        (Some (au_id user)) (Some (au_name user)))\<lparr>created_at := c\<rparr> = ?row c" for c
      by (simp add: submitted_row_def Let_def None)
    have at: "scheduled_at (?row c) = None" for c
      by (simp add: submitted_row_def Let_def None new_job_def)
    show ?thesis
      unfolding create_and_handoff_def Let_def
      by (rule wp_bind, rule wp_utc_now, simp only: None option.case, rule wp_bind,
          rule wp_create_job [OF assms(1) refl assms(2) clash], simp only: row sum.case, intro wp_intros, assumption+)
        (auto simp: handoff_def at Let_def intro!: assms(4), blast)
  next
    case (Some at)
    have row: "(new_job i (sub_type sub) (sub_payload sub) scheduled (Some at) (sub_priority sub) ?maxa key h carrier
        (Some (au_id user)) (Some (au_name user)))\<lparr>created_at := c\<rparr> = ?row c" for c
      by (simp add: submitted_row_def Let_def Some)
    have at: "scheduled_at (?row c) = Some at" for c
      by (simp add: submitted_row_def Let_def Some new_job_def)
    show ?thesis
      unfolding create_and_handoff_def Let_def
      by (rule wp_bind, rule wp_utc_now, simp only: Some option.case, rule wp_bind,
          rule wp_create_job [OF assms(1) refl assms(2) clash], simp only: row sum.case, intro wp_intros, assumption+)
        (auto simp: handoff_def at Let_def intro!: assms(4))
  qed
qed

end

text \<open>What a submission that is stored answers and leaves behind.\<close>

definition stored ::
  "('d, 'r) services \<Rightarrow> settings \<Rightarrow> timestamp \<Rightarrow> uuid \<Rightarrow> json option \<Rightarrow> JobSubmission \<Rightarrow> string option
   \<Rightarrow> AuthedUser \<Rightarrow> table \<Rightarrow> redis_view \<Rightarrow> JobAccepted response \<Rightarrow> table \<Rightarrow> redis_view \<Rightarrow> bool" where
  "stored S cfg now i carrier sub h user t v r t' v' \<longleftrightarrow> (\<exists>c.
     let row = submitted_row cfg now i carrier sub (sub_key sub) h user c in
     r = Inr (202, accepted row) \<and> t' = t(i \<mapsto> row\<lparr>is_synced_to_redis := True\<rparr>) \<and> handoff S cfg row v v')"

definition req_hash_of :: "(string \<Rightarrow> string) \<Rightarrow> JobSubmission \<Rightarrow> string" where
  "req_hash_of sha sub = canonical_hash sha (sub_type sub) (sub_payload sub)"

context backend
begin

lemma wp_submit_new:
  assumes "quiet w" and "validate_payload P (sub_type sub) (sub_payload sub) (Some cfg) = Inr p"
    and "T w i = None" and "\<forall>j \<in> ran (T w). \<forall>k. sub_key sub = Some k \<longrightarrow> \<not> holds_key k (au_id user) j"
  shows "wp (submit_job S P sha cfg i carrier sub user) (\<lambda>r w'. quiet w' \<and> clock (shared w') = clock (shared w) \<and>
     stored S cfg (clock (shared w)) i carrier sub (map_option (\<lambda>_. req_hash_of sha sub) (sub_key sub)) user
       (T w) (V w) r (T w') (V w')) w"
proof (cases "sub_key sub")
  case None
  show ?thesis
    unfolding submit_job_def assms(2) sum.case None option.case
    by (rule wp_bind, rule wp_create_and_handoff [OF assms(1,3)])
      (auto simp: stored_def None Let_def intro!: wp_return)
next
  case (Some key)
  have none: "\<forall>j \<in> ran (T w). \<not> holds_key key (au_id user) j" using assms(4) Some by simp
  show ?thesis
    unfolding submit_job_def assms(2) sum.case Some option.case Let_def
  proof (rule wp_bind, rule wp_get_by_key [OF assms(1)])
    fix existing w1
    assume w1: "quiet w1" "shared w1 = shared w"
      and "case existing of None \<Rightarrow> \<forall>j \<in> ran (T w). \<not> holds_key key (au_id user) j
        | Some j \<Rightarrow> j \<in> ran (T w) \<and> holds_key key (au_id user) j"
    with none have e: "existing = None" by (cases existing) auto
    show "wp (case existing of None \<Rightarrow>
          create_and_handoff S cfg i carrier sub (Some key) (Some (canonical_hash sha (sub_type sub) (sub_payload sub)))
            (au_id user) (au_name user) \<bind> (\<lambda>r. case r of Inl IntegrityError \<Rightarrow>
              get_by_idempotency_key S key (au_id user) \<bind> (\<lambda>existing.
                return (replay_or_conflict existing (canonical_hash sha (sub_type sub) (sub_payload sub))))
            | Inl InvalidRequestError \<Rightarrow> return (Inl Unhandled) | Inr job \<Rightarrow> return (Inr (202, accepted job)))
        | Some j \<Rightarrow> return (replay_or_conflict (Some j) (canonical_hash sha (sub_type sub) (sub_payload sub))))
       (\<lambda>r w'. quiet w' \<and> clock (shared w') = clock (shared w) \<and> stored S cfg (clock (shared w)) i carrier sub
          (map_option (\<lambda>_. req_hash_of sha sub) (Some key)) user (T w) (V w) r (T w') (V w')) w1"
      unfolding e option.case
      by (rule wp_bind, rule wp_create_and_handoff)
        (use w1 assms(3) none in \<open>auto simp: stored_def Some req_hash_of_def Let_def intro!: wp_return\<close>)
  qed
qed

lemma wp_submit_replay:
  assumes "quiet w" and "validate_payload P (sub_type sub) (sub_payload sub) (Some cfg) = Inr p"
    and "sub_key sub = Some key" and "j \<in> ran (T w)" and "holds_key key (au_id user) j"
  shows "wp (submit_job S P sha cfg i carrier sub user)
     (\<lambda>r w'. r = replay_or_conflict (Some j) (req_hash_of sha sub) \<and> shared w' = shared w) w"
  unfolding submit_job_def assms(2) sum.case assms(3) option.case Let_def
proof (rule wp_bind, rule wp_get_by_key [OF assms(1)])
  fix existing and w1 :: "('d, 'r) world"
  assume w1: "shared w1 = shared w"
    and ex: "case existing of None \<Rightarrow> \<forall>j \<in> ran (T w). \<not> holds_key key (au_id user) j
      | Some j \<Rightarrow> j \<in> ran (T w) \<and> holds_key key (au_id user) j"
  then obtain k where k: "existing = Some k" "k \<in> ran (T w)" "holds_key key (au_id user) k"
    using assms(4,5) by (cases existing) auto
  have "key_clash j k" using assms(5) k(3) by (simp add: key_clash_def holds_key_def)
  moreover have rows: "T w (jid j) = Some j" "T w (jid k) = Some k" using assms(4) k(2) in_ran_tbl by blast+
  ultimately have eq: "jid j = jid k" using tbl_unique by blast
  from trans [OF sym [OF rows(1) [unfolded eq]] rows(2)] have "k = j" by simp
  with k(1) w1 show "wp (case existing of None \<Rightarrow>
          create_and_handoff S cfg i carrier sub (Some key) (Some (canonical_hash sha (sub_type sub) (sub_payload sub)))
            (au_id user) (au_name user) \<bind> (\<lambda>r. case r of Inl IntegrityError \<Rightarrow>
              get_by_idempotency_key S key (au_id user) \<bind> (\<lambda>existing.
                return (replay_or_conflict existing (canonical_hash sha (sub_type sub) (sub_payload sub))))
            | Inl InvalidRequestError \<Rightarrow> return (Inl Unhandled) | Inr job \<Rightarrow> return (Inr (202, accepted job)))
        | Some j \<Rightarrow> return (replay_or_conflict (Some j) (canonical_hash sha (sub_type sub) (sub_payload sub))))
      (\<lambda>r w'. r = replay_or_conflict (Some j) (req_hash_of sha sub) \<and> shared w' = shared w) w1"
    by (simp add: wp_return req_hash_of_def)
qed

end

section \<open>Properties\<close>

text \<open>
  C13 (submit_creates). An accepted submission that is new (no key, or a key this user has not used yet)
  answers 202 and stores exactly one row: pending, or scheduled when its time lies in the future, with one
  attempt allowed for a batch; it is in the delayed set or in the stream of its priority, and marked so.
\<close>

theorem submit_creates:
  assumes "backend S tbl view idle" and "quiet w"
    and "validate_payload P (sub_type sub) (sub_payload sub) (Some cfg) = Inr p"
    and "tbl (db (shared w)) i = None"
    and "\<forall>j \<in> ran (tbl (db (shared w))). \<forall>k. sub_key sub = Some k \<longrightarrow> \<not> holds_key k (au_id user) j"
  shows "case run_state (submit_job S P sha cfg i carrier sub user) w of (r, w') \<Rightarrow>
     stored S cfg (clock (shared w)) i carrier sub (map_option (\<lambda>_. req_hash_of sha sub) (sub_key sub)) user
       (tbl (db (shared w))) (view (rds (shared w))) r (tbl (db (shared w'))) (view (rds (shared w')))"
  using backend.wp_submit_new [OF assms, where sha = sha and carrier = carrier]
  unfolding wp_def by (auto split: prod.splits)

definition sample_submission :: "string option \<Rightarrow> JobSubmission" where
  "sample_submission key = \<lparr>sub_type = report, sub_payload = JDict [(''report_type'', JStr ''ops'')],
     sub_priority = high, sub_scheduled_at = None, sub_key = key\<rparr>"

definition sample_user :: AuthedUser where
  "sample_user = \<lparr>au_id = 1, au_name = ''ann''\<rparr>"

lemma sub_key_sample [simp]: "sub_key (sample_submission key) = key"
  by (simp add: sample_submission_def)

lemma sample_valid:
  "validate_payload sample_schema (sub_type (sample_submission key)) (sub_payload (sample_submission key)) (Some sample_cfg)
     = Inr (SinglePayload (ReportPayload ops None))"
  by (simp add: sample_submission_def validate_payload_def job_model_def item_model_def report_payload_def
      only_keys_def check_policy_def check_item_policy_def)

theorem submit_creates_witness:
  "case run_state (submit_job ref_services sample_schema (\<lambda>s. s) sample_cfg 9 None (sample_submission None) sample_user)
       (sample_world []) of (r, w') \<Rightarrow> \<exists>row. r = Inr (202, accepted row)
         \<and> ref_tbl (db (shared w')) = (ref_tbl [])(9 \<mapsto> row\<lparr>is_synced_to_redis := True\<rparr>)"
  using submit_creates [OF ref_backend _ sample_valid, where w = "sample_world []" and key1 = None and i = 9
      and user = sample_user and sha = "\<lambda>s. s" and carrier = None]
  by (auto simp: stored_def Let_def ref_tbl_def split: prod.splits)

text \<open>
  C14 (submit_twice). The same submission with an idempotency key, sent twice by the same user, creates
  one job: the second answer is 200 with the description of the job of the first, whatever identifier it
  would have drawn, and changes nothing. The same key with another hash is refused with 409.
\<close>

theorem submit_twice:
  assumes "backend S tbl view idle" and "quiet w"
    and "validate_payload P (sub_type sub) (sub_payload sub) (Some cfg) = Inr p"
    and "tbl (db (shared w)) i = None" and "sub_key sub = Some key"
    and "\<forall>j \<in> ran (tbl (db (shared w))). \<not> holds_key key (au_id user) j"
  shows "case run_state (submit_job S P sha cfg i carrier sub user) w of (r, w') \<Rightarrow>
     \<exists>a. r = Inr (202, a) \<and> acc_id a = i
       \<and> (\<forall>i2 carrier2. case run_state (submit_job S P sha cfg i2 carrier2 sub user) w' of (r2, w2) \<Rightarrow>
            r2 = Inr (200, a) \<and> shared w2 = shared w')
       \<and> (\<forall>i2 carrier2 sub2 p2. sub_key sub2 = Some key
            \<and> validate_payload P (sub_type sub2) (sub_payload sub2) (Some cfg) = Inr p2
            \<and> req_hash_of sha sub2 \<noteq> req_hash_of sha sub \<longrightarrow>
            (case run_state (submit_job S P sha cfg i2 carrier2 sub2 user) w' of (r2, w2) \<Rightarrow>
              r2 = Inl (HTTPException 409 ''idempotency key reused with a different payload'')
              \<and> shared w2 = shared w'))"
proof -
  obtain r w' where run: "run_state (submit_job S P sha cfg i carrier sub user) w = (r, w')" by fastforce
  have new: "\<forall>j \<in> ran (tbl (db (shared w))). \<forall>k. sub_key sub = Some k \<longrightarrow> \<not> holds_key k (au_id user) j"
    using assms(5,6) by simp
  from wpD [OF backend.wp_submit_new [OF assms(1-4) new] run] obtain row where q: "quiet w'"
    and r: "r = Inr (202, accepted row)"
    and t: "tbl (db (shared w')) = (tbl (db (shared w)))(i \<mapsto> row\<lparr>is_synced_to_redis := True\<rparr>)"
    and row: "jid row = i" "idempotency_key row = Some key" "user_id row = Some (au_id user)"
      "idempotency_hash row = Some (req_hash_of sha sub)"
    using assms(5) unfolding stored_def Let_def
    by (metis (no_types, lifting) option.map(2) submitted_row_simps)
  let ?j = "row\<lparr>is_synced_to_redis := True\<rparr>"
  have j: "?j \<in> ran (tbl (db (shared w')))" "holds_key key (au_id user) ?j"
    "idempotency_hash ?j = Some (req_hash_of sha sub)"
    using t row by (auto simp: ran_def holds_key_def)
  note replay = backend.wp_submit_replay [OF assms(1) q _ _ j(1,2)]
  have "r2 = Inr (200, accepted row) \<and> shared w2 = shared w'"
    if "run_state (submit_job S P sha cfg i2 carrier2 sub user) w' = (r2, w2)" for i2 carrier2 r2 w2
    using wpD [OF replay [OF assms(3,5)] that] j(3) by (simp add: replay_or_conflict_def)
  moreover have "r2 = Inl (HTTPException 409 ''idempotency key reused with a different payload'') \<and> shared w2 = shared w'"
    if "run_state (submit_job S P sha cfg i2 carrier2 sub2 user) w' = (r2, w2)" "sub_key sub2 = Some key"
      "validate_payload P (sub_type sub2) (sub_payload sub2) (Some cfg) = Inr p2"
      "req_hash_of sha sub2 \<noteq> req_hash_of sha sub" for i2 carrier2 sub2 p2 r2 w2
    using wpD [OF replay [OF that(3,2)] that(1)] j(3) that(4) by (simp add: replay_or_conflict_def)
  ultimately show ?thesis
    unfolding run by (auto simp: r row(1) accepted_def split: prod.splits)
qed

theorem submit_twice_witness:
  "case run_state (submit_job ref_services sample_schema (\<lambda>s. s) sample_cfg 9 None (sample_submission (Some ''k'')) sample_user)
       (sample_world []) of (r, w') \<Rightarrow>
     \<exists>a. r = Inr (202, a) \<and> acc_id a = 9 \<and> (\<forall>i2 carrier2. case run_state (submit_job ref_services sample_schema (\<lambda>s. s)
            sample_cfg i2 carrier2 (sample_submission (Some ''k'')) sample_user) w' of (r2, w2) \<Rightarrow>
            r2 = Inr (200, a) \<and> shared w2 = shared w')"
  using submit_twice [OF ref_backend _ sample_valid, where w = "sample_world []" and key1 = "Some ''k''"
      and key = "''k''" and i = 9 and user = sample_user and sha = "\<lambda>s. s" and carrier = None]
  by (auto simp: ref_tbl_def split: prod.splits)

text \<open>Another user's job, or none: the three routes on a job answer as if it did not exist.\<close>

definition foreign :: "table \<Rightarrow> uuid \<Rightarrow> AuthedUser \<Rightarrow> bool" where
  "foreign t i user \<longleftrightarrow> (\<forall>j. t i = Some j \<longrightarrow> user_id j \<noteq> Some (au_id user))"

text \<open>
  C22 (foreign_job_is_invisible). For a job that does not exist or belongs to somebody else, reading,
  retrying and cancelling all answer 404 with the same message and change nothing.
\<close>

theorem foreign_job_is_invisible:
  assumes "backend S tbl view idle" and "quiet w" and "foreign (tbl (db (shared w))) i user"
    and "m \<in> {get_job_route S i user, retry_job S cfg i user, cancel_job_route S cfg i user}"
  shows "case run_state m w of (r, w') \<Rightarrow> r = Inl (HTTPException 404 ''job not found'') \<and> shared w' = shared w"
proof -
  have hidden: "wp (get_job S i (Some (au_id user)) \<bind> (\<lambda>got. case got of None \<Rightarrow> return (Inl not_found) | Some job \<Rightarrow> f job))
      (\<lambda>r w'. r = Inl (HTTPException 404 ''job not found'') \<and> shared w' = shared w) w"
    for f :: "job \<Rightarrow> ('a, 'b, JobOut response) io"
    by (rule wp_bind, rule backend.wp_get_job [OF assms(1,2)])
      (use assms(3) in \<open>auto simp: foreign_def not_found_def split: option.splits intro!: wp_return\<close>)
  have "wp m (\<lambda>r w'. r = Inl (HTTPException 404 ''job not found'') \<and> shared w' = shared w) w"
    using assms(4) by (auto simp only: get_job_route_def retry_job_def cancel_job_route_def insert_iff
        empty_iff simp_thms intro: hidden)
  then show ?thesis unfolding wp_def .
qed

theorem foreign_job_is_invisible_witness:
  "case run_state (cancel_job_route ref_services sample_cfg 7 \<lparr>au_id = 2, au_name = ''bob''\<rparr>)
       (sample_world [sample_job pending]) of (r, w') \<Rightarrow>
     r = Inl (HTTPException 404 ''job not found'') \<and> shared w' = shared (sample_world [sample_job pending])"
  by (rule foreign_job_is_invisible [OF ref_backend, where i = 7 and cfg = sample_cfg
        and user = "\<lparr>au_id = 2, au_name = ''bob''\<rparr>"]) (simp_all add: foreign_def)

text \<open>The answer to a cancel request of the owner, by the state of the job.\<close>

definition cancel_spec ::
  "settings \<Rightarrow> timestamp \<Rightarrow> job \<Rightarrow> table \<Rightarrow> redis_view \<Rightarrow> JobOut response \<Rightarrow> table \<Rightarrow> redis_view \<Rightarrow> bool" where
  "cancel_spec cfg now j t v r t' v' =
     (if claimable (status j) then
        (let j' = j\<lparr>status := cancelled, completed_at := Some now\<rparr> in
         r = Inr (200, job_out j') \<and> t' = t(jid j \<mapsto> j') \<and> v' = drop_scores (delayed_zset cfg) [uuid_str (jid j)] v)
      else if status j = processing then
        (let j' = j\<lparr>cancel_requested_at := Some now\<rparr> in
         r = Inr (202, job_out j') \<and> t' = t(jid j \<mapsto> j') \<and> v' = v)
      else if status j = cancelled then r = Inr (200, job_out j) \<and> t' = t \<and> v' = v
      else r = Inl (HTTPException 409 ''job cannot be cancelled in its current state'') \<and> t' = t \<and> v' = v)"

context backend
begin

lemma wp_session_get_none:
  assumes "quiet w" and "\<And>w'. quiet w' \<Longrightarrow> shared w' = shared w \<Longrightarrow> Q (T w i) w'"
  shows "wp (session_get S None i) Q w"
  unfolding session_get_def option.case
  by (rule wp_get_job [OF assms(1)]) (use assms(2) in \<open>auto split: option.split\<close>)

lemma wp_cancel_first_round:
  assumes "quiet w" and "T w i = Some j"
  shows "wp (cancel_rounds (Suc n) S cfg i None) (\<lambda>r w'. cancel_spec cfg (clock (shared w)) j (T w) (V w) r (T w') (V w')) w"
proof -
  have i: "jid j = i" by (rule tbl_id [OF assms(2)])
  show ?thesis
    unfolding cancel_rounds.simps session_sync_def option.map Let_def
    by (intro wp_bind wp_utc_now, rule cancel_idle.wp_op [OF assms(1)];
        (simp only: if_True if_False simp_thms)?; (intro wp_bind wp_redis_step wp_session_get_none wp_utc_now wp_return ask_cancel.wp_op)?)
      (use assms(2) i status_trichotomy [of "status j"] in
        \<open>auto simp: cancel_spec_def shown_def claimable_def terminal_def Let_def intro!: wp_intros wp_session_get_none
        split: option.splits\<close>)
qed

end

text \<open>
  C23 (cancel_route_outcomes). A cancel request of the owner, undisturbed: a waiting job is cancelled at
  once and leaves the delayed set (200); a running one is asked to stop (202); a cancelled one is shown
  again (200); a completed or failed one is refused (409). Nothing else changes.
\<close>

theorem cancel_route_outcomes:
  assumes "backend S tbl view idle" and "quiet w" and "tbl (db (shared w)) i = Some j"
    and "user_id j = Some (au_id user)"
  shows "case run_state (cancel_job_route S cfg i user) w of (r, w') \<Rightarrow>
     cancel_spec cfg (clock (shared w)) j (tbl (db (shared w))) (view (rds (shared w))) r
       (tbl (db (shared w'))) (view (rds (shared w')))"
proof -
  have "wp (cancel_job_route S cfg i user) (\<lambda>r w'. cancel_spec cfg (clock (shared w)) j (tbl (db (shared w)))
      (view (rds (shared w))) r (tbl (db (shared w'))) (view (rds (shared w')))) w"
    unfolding cancel_job_route_def
  proof (rule wp_bind, rule backend.wp_get_job [OF assms(1,2)])
    fix w1 assume w1: "quiet w1" "shared w1 = shared w"
    have row: "tbl (db (shared w1)) i = Some j" using w1(2) assms(3) by simp
    have "wp (cancel_rounds 3 S cfg i None) (\<lambda>r w'. cancel_spec cfg (clock (shared w)) j (tbl (db (shared w)))
        (view (rds (shared w))) r (tbl (db (shared w'))) (view (rds (shared w')))) w1"
      using backend.wp_cancel_first_round [OF assms(1) w1(1) row, of 2 cfg] w1(2) by (simp add: numeral_3_eq_3 numeral_2_eq_2)
    then show "wp (case case tbl (db (shared w)) i of None \<Rightarrow> None
          | Some j \<Rightarrow> if Some (au_id user) = None \<or> user_id j = Some (au_id user) then Some j else None of
          None \<Rightarrow> return (Inl not_found) | Some x \<Rightarrow> cancel_rounds 3 S cfg i None)
        (\<lambda>r w'. cancel_spec cfg (clock (shared w)) j (tbl (db (shared w))) (view (rds (shared w))) r
          (tbl (db (shared w'))) (view (rds (shared w')))) w1"
      using assms(3,4) by simp
  qed
  then show ?thesis unfolding wp_def .
qed

theorem cancel_route_outcomes_witness:
  "case run_state (cancel_job_route ref_services sample_cfg 7 sample_user) (sample_world [sample_job processing]) of (r, w') \<Rightarrow>
     r = Inr (202, job_out ((sample_job processing)\<lparr>cancel_requested_at := Some 1000000000\<rparr>))"
  using cancel_route_outcomes [OF ref_backend, of "sample_world [sample_job processing]" 7 "sample_job processing" sample_user sample_cfg]
  by (auto simp: cancel_spec_def sample_user_def Let_def split: prod.splits)

text \<open>
  C24 (retry_route_outcomes). A manual retry of the owner, undisturbed: a failed job without a cancel
  request goes back to \<open>pending\<close> with its attempts, error and times cleared and gets a message on the
  stream of its priority (200); any other is refused (409) and nothing changes.
\<close>

theorem retry_route_outcomes:
  assumes "backend S tbl view idle" and "quiet w" and "tbl (db (shared w)) i = Some j"
    and "user_id j = Some (au_id user)"
  shows "case run_state (retry_job S cfg i user) w of (r, w') \<Rightarrow>
     if status j = failed \<and> cancel_requested_at j = None
     then let j' = j\<lparr>status := pending, attempts := 0, error := None, started_at := None, completed_at := None,
                     is_synced_to_redis := True\<rparr>; s = stream_for_priority cfg (priority j)
          in r = Inr (200, job_out j') \<and> tbl (db (shared w')) = (tbl (db (shared w)))(i \<mapsto> j')
             \<and> (\<exists>e. view (rds (shared w')) = add_entry s (e, message_fields S s (uuid_str i) None) (view (rds (shared w))))
     else r = Inl (HTTPException 409 ''job is not retryable (not failed, or cancel was requested)'')
          \<and> tbl (db (shared w')) = tbl (db (shared w)) \<and> view (rds (shared w')) = view (rds (shared w))"
proof -
  note ops = backend.wp_get_job [OF assms(1)] backend.wp_transitions(6) [OF assms(1)]
    backend.wp_enqueue [OF assms(1)] backend.wp_mark_synced [OF assms(1)]
  have "wp (retry_job S cfg i user) (\<lambda>r w'. if status j = failed \<and> cancel_requested_at j = None
     then let j' = j\<lparr>status := pending, attempts := 0, error := None, started_at := None, completed_at := None,
                     is_synced_to_redis := True\<rparr>; s = stream_for_priority cfg (priority j)
          in r = Inr (200, job_out j') \<and> tbl (db (shared w')) = (tbl (db (shared w)))(i \<mapsto> j')
             \<and> (\<exists>e. view (rds (shared w')) = add_entry s (e, message_fields S s (uuid_str i) None) (view (rds (shared w))))
     else r = Inl (HTTPException 409 ''job is not retryable (not failed, or cancel was requested)'')
          \<and> tbl (db (shared w')) = tbl (db (shared w)) \<and> view (rds (shared w')) = view (rds (shared w))) w"
    unfolding retry_job_def
    by (intro wp_bind wp_return wp_if wp_case_option ops assms(2); assumption?)
      (use assms(3,4) in \<open>auto simp: Let_def split: if_splits\<close>)
  then show ?thesis unfolding wp_def .
qed

theorem retry_route_outcomes_witness:
  "case run_state (retry_job ref_services sample_cfg 7 sample_user) (sample_world [sample_job pending]) of (r, w') \<Rightarrow>
     r = Inl (HTTPException 409 ''job is not retryable (not failed, or cancel was requested)'')"
  using retry_route_outcomes [OF ref_backend, of "sample_world [sample_job pending]" 7 "sample_job pending" sample_user sample_cfg]
  by (auto simp: sample_user_def split: prod.splits)

end
