(* ===== verification/Handoff.thy ===== *)
theory Handoff
  imports Worker Ticker Routes
begin

text \<open>
  Crash safety of the hand-over to Redis. A row is marked \<open>is_synced_to_redis\<close> only by a process that
  has, in an earlier step of its own, put the job into a stream or into the delayed set. So a crash
  between two steps leaves either a job that is in Redis, or a row that reconciliation still finds.

  The locale \<open>trace_discipline\<close> is the interface for properties of a program's whole trace that hold for
  the empty trace and are kept by appending; its rules compose them along a program.
\<close>

section \<open>Properties of traces\<close>

locale trace_discipline =
  fixes ok :: "('d, 'r) step list \<Rightarrow> bool"
  assumes ok_Nil: "ok []"
    and ok_append: "ok ts \<Longrightarrow> ok us \<Longrightarrow> ok (ts @ us)"
begin

definition keeps :: "('d, 'r, 'a) io \<Rightarrow> bool" where
  "keeps m \<longleftrightarrow> emits m (\<lambda>_ ts. ok ts)"

lemma keeps_return: "keeps (return a)"
  by (simp add: keeps_def emits_return ok_Nil)

lemma keeps_steps:
  assumes "guarantees (\<lambda>s s'. ok [(s, s')]) m"
  shows "keeps m"
proof -
  have "ok ts" if "\<forall>(s, s') \<in> set ts. ok [(s, s')]" for ts
    using that
  proof (induction ts)
    case (Cons t ts)
    then show ?case using ok_append [of "[t]" ts] by (cases t) auto
  qed (simp add: ok_Nil)
  then show ?thesis unfolding keeps_def by (rule emits_weaken [OF assms [unfolded guarantees_def]])
qed

lemma keeps_bind: "keeps m \<Longrightarrow> (\<And>a. keeps (f a)) \<Longrightarrow> keeps (m \<bind> f)"
  unfolding keeps_def
  by (erule emits_bind, erule meta_allE, erule emits_weaken) (rule ok_append)

lemma keeps_if: "(b \<Longrightarrow> keeps m) \<Longrightarrow> (\<not> b \<Longrightarrow> keeps n) \<Longrightarrow> keeps (if b then m else n)"
  by simp

lemma keeps_case_option:
  "(x = None \<Longrightarrow> keeps m) \<Longrightarrow> (\<And>y. x = Some y \<Longrightarrow> keeps (f y)) \<Longrightarrow> keeps (case x of None \<Rightarrow> m | Some y \<Rightarrow> f y)"
  by (cases x) auto

lemma keeps_case_sum:
  "(\<And>y. x = Inl y \<Longrightarrow> keeps (f y)) \<Longrightarrow> (\<And>y. x = Inr y \<Longrightarrow> keeps (g y)) \<Longrightarrow>
     keeps (case x of Inl y \<Rightarrow> f y | Inr y \<Rightarrow> g y)"
  by (cases x) auto

lemma keeps_case_prod: "(\<And>y z. x = (y, z) \<Longrightarrow> keeps (f y z)) \<Longrightarrow> keeps (case x of (y, z) \<Rightarrow> f y z)"
  by (cases x) auto

lemma keeps_case_list:
  "(x = [] \<Longrightarrow> keeps m) \<Longrightarrow> (\<And>y ys. x = y # ys \<Longrightarrow> keeps (f y ys)) \<Longrightarrow> keeps (case x of [] \<Rightarrow> m | y # ys \<Rightarrow> f y ys)"
  by (cases x) auto

lemma keeps_let: "(\<And>y. y = x \<Longrightarrow> keeps (f y)) \<Longrightarrow> keeps (Let x f)"
  by (simp add: Let_def)

lemma keeps_foreach: "(\<And>x. keeps (body x)) \<Longrightarrow> keeps (foreach xs body)"
  by (induction xs) (auto intro: keeps_return keeps_bind)

lemma keeps_forfold: "(\<And>x acc. keeps (body x acc)) \<Longrightarrow> keeps (forfold xs acc body)"
  by (induction xs arbitrary: acc) (auto intro: keeps_return keeps_bind)

lemmas keeps_rules = keeps_return keeps_if keeps_case_option keeps_case_sum keeps_case_prod keeps_case_list
  keeps_let keeps_foreach keeps_forfold keeps_bind

end

section \<open>Marked only after the hand-over\<close>

definition marks :: "('d \<Rightarrow> table) \<Rightarrow> uuid \<Rightarrow> ('d, 'r) step \<Rightarrow> bool" where
  "marks tbl i st \<longleftrightarrow> (\<exists>j. tbl (db (snd st)) i = Some j \<and> is_synced_to_redis j)
     \<and> \<not> (\<exists>j. tbl (db (fst st)) i = Some j \<and> is_synced_to_redis j)"

definition hands :: "('r \<Rightarrow> redis_view) \<Rightarrow> uuid \<Rightarrow> ('d, 'r) step \<Rightarrow> bool" where
  "hands view i st \<longleftrightarrow> (let v = view (rds (fst st)); v' = view (rds (snd st)) in
     (\<exists>s e fs. message_job_uuid fs = Inr i \<and> v' = add_entry s (e, fs) v)
     \<or> (\<exists>k x. v' = set_score k (uuid_str i) x v))"

definition sync_ok :: "('d \<Rightarrow> table) \<Rightarrow> ('r \<Rightarrow> redis_view) \<Rightarrow> ('d, 'r) step list \<Rightarrow> bool" where
  "sync_ok tbl view ts \<longleftrightarrow>
     (\<forall>n < length ts. \<forall>i. marks tbl i (ts ! n) \<longrightarrow> (\<exists>m < n. hands view i (ts ! m)))"

lemma sync_ok_append: "sync_ok tbl view ts \<Longrightarrow> sync_ok tbl view us \<Longrightarrow> sync_ok tbl view (ts @ us)"
  unfolding sync_ok_def
proof (intro allI impI)
  fix n i
  assume ts: "\<forall>n < length ts. \<forall>i. marks tbl i (ts ! n) \<longrightarrow> (\<exists>m < n. hands view i (ts ! m))"
    and us: "\<forall>n < length us. \<forall>i. marks tbl i (us ! n) \<longrightarrow> (\<exists>m < n. hands view i (us ! m))"
    and n: "n < length (ts @ us)" "marks tbl i ((ts @ us) ! n)"
  show "\<exists>m < n. hands view i ((ts @ us) ! m)"
  proof (cases "n < length ts")
    case True
    with ts n obtain m where "m < n" "hands view i (ts ! m)" by (auto simp: nth_append)
    with True show ?thesis by (intro exI [of _ m]) (simp add: nth_append)
  next
    case False
    then have "n - length ts < length us" "marks tbl i (us ! (n - length ts))" using n by (simp_all add: nth_append)
    with us obtain m where "m < n - length ts" "hands view i (us ! m)" by blast
    then show ?thesis by (intro exI [of _ "length ts + m"]) (simp add: nth_append)
  qed
qed

lemma sync_ok_single: "sync_ok tbl view [st] \<longleftrightarrow> (\<forall>i. \<not> marks tbl i st)"
  by (simp add: sync_ok_def)

lemma sync_ok_pair:
  assumes "hands view i a" and "\<And>k. \<not> marks tbl k a" and "\<And>k. marks tbl k b \<Longrightarrow> k = i"
  shows "sync_ok tbl view [a, b]"
  using assms by (auto simp: sync_ok_def less_Suc_eq)

lemma sync_discipline: "trace_discipline (sync_ok tbl view)"
  by unfold_locales (simp_all add: sync_ok_def [of _ _ "[]"] sync_ok_append)

sublocale backend \<subseteq> sync: trace_discipline "sync_ok tbl view"
  by (rule sync_discipline)

definition unmarked :: "('d \<Rightarrow> table) \<Rightarrow> ('d, 'r) shared \<Rightarrow> ('d, 'r) shared \<Rightarrow> bool" where
  "unmarked tbl s s' \<longleftrightarrow> (\<forall>i. \<not> marks tbl i (s, s'))"

context guarded_transition
begin

lemma guar_unmarked:
  assumes "\<And>t j. is_synced_to_redis (eff t j) \<Longrightarrow> is_synced_to_redis j"
  shows "guarantees (unmarked tbl) (op i)"
  unfolding guarantees_def
  by (rule emits_weaken [OF one_step])
    (use assms in \<open>auto simp: unmarked_def marks_def split: if_splits\<close>)

end

context backend
begin

lemma unmarked_reads [guar_intros]:
  "guarantees (unmarked tbl) (sql_query q)"
  "guarantees (unmarked tbl) (redis_step c)"
  "guarantees (unmarked tbl) (redis_query cq)"
  by (auto simp: unmarked_def marks_def intro!: guar_sql_query guar_redis_step guar_redis_query)

lemma unmarked_transitions [guar_intros]:
  "guarantees (unmarked tbl) (claim_job S i)"
  "guarantees (unmarked tbl) (complete_job S i res pct)"
  "guarantees (unmarked tbl) (fail_job S i err)"
  "guarantees (unmarked tbl) (retry_to_pending S i)"
  "guarantees (unmarked tbl) (retry_to_scheduled S i at)"
  "guarantees (unmarked tbl) (reset_failed_to_pending S i)"
  "guarantees (unmarked tbl) (init_progress S i)"
  "guarantees (unmarked tbl) (cancel_pending_or_scheduled S i)"
  "guarantees (unmarked tbl) (request_cancel S i)"
  "guarantees (unmarked tbl) (cancel_job S i summary)"
  by (rule claim.guar_unmarked complete.guar_unmarked fail.guar_unmarked retry_now.guar_unmarked
      retry_later.guar_unmarked reset.guar_unmarked init.guar_unmarked cancel_idle.guar_unmarked
      ask_cancel.guar_unmarked cancel_run.guar_unmarked; simp)+

lemma unmarked_update:
  assumes "keeps_keys f" and "\<And>j. is_synced_to_redis (f j) \<Longrightarrow> is_synced_to_redis j"
  shows "unmarked tbl s (s\<lparr>db := snd (pg_update (sql S) g f (db s))\<rparr>)"
  using assms(2) by (auto simp: unmarked_def marks_def update_tbl [OF assms(1)] update_where_def split: if_splits)

lemma unmarked_ctx [guar_intros]:
  "guarantees (unmarked tbl) (ctx_cancelled S ctx)"
proof -
  have k: "keeps_keys (\<lambda>j. j\<lparr>progress := Some pct\<rparr>)" for pct by (simp add: keeps_keys_def)
  have w: "guarantees (unmarked tbl) (ctx_write S i pct)" for i pct
    unfolding ctx_write_def
    by (intro guar_intros guar_sql_step) (auto simp: Let_def intro: unmarked_update [OF k])
  have r: "guarantees (unmarked tbl) (ctx_read S i)" for i
    unfolding ctx_read_def by (intro guar_intros)
  show ?thesis unfolding ctx_cancelled_def by (intro guar_intros w r)
qed

lemma unmarked_create [guar_intros]:
  "guarantees (unmarked tbl) (create_job S i t p st sched prio maxa key hash trace_ctx uid uname)"
proof -
  let ?row = "new_job i t p st sched prio maxa key hash trace_ctx uid uname"
  have "unmarked tbl s (s\<lparr>db := snd (pg_insert (sql S) ?row (db s))\<rparr>)" for s
  proof (cases "fst (pg_insert (sql S) ?row (db s))")
    case True
    from insert_tbl [OF this] obtain c where "tbl (snd (pg_insert (sql S) ?row (db s))) =
        (tbl (db s))(jid ?row \<mapsto> ?row\<lparr>created_at := c\<rparr>)" ..
    then show ?thesis by (auto simp: unmarked_def marks_def new_job_def)
  qed (auto simp: unmarked_def marks_def insert_failed_tbl)
  then show ?thesis unfolding create_job_def by (intro guar_intros guar_sql_step)
qed

lemma unmarked_repository [guar_intros]:
  "guarantees (unmarked tbl) (get_job S i uid)"
  "guarantees (unmarked tbl) (list_unsynced S t n)"
  "guarantees (unmarked tbl) (get_promotion_info S is)"
  "guarantees (unmarked tbl) (get_by_idempotency_key S key u)"
  "guarantees (unmarked tbl) (promote_scheduled_to_pending S is)"
  unfolding get_job_def list_unsynced_def get_promotion_info_def get_by_idempotency_key_def
    promote_scheduled_to_pending_def
  by (intro guar_intros guar_sql_step unmarked_update; simp add: keeps_keys_def)+

lemma unmarked_queue [guar_intros]:
  "guarantees (unmarked tbl) (enqueue S s m c)"
  "guarantees (unmarked tbl) (ensure_group S s g)"
  "guarantees (unmarked tbl) (ack S s g e)"
  "guarantees (unmarked tbl) (schedule S k m x)"
  "guarantees (unmarked tbl) (due_job_ids S k x n)"
  "guarantees (unmarked tbl) (promote S k routed ids)"
  unfolding enqueue_def ensure_group_def ack_def schedule_def due_job_ids_def promote_def
  by (intro guar_intros)+

lemma unmarked_read_priority [guar_intros]: "guarantees (unmarked tbl) (read_priority S ss g c b n)"
proof -
  have "guarantees (unmarked tbl) (probe_streams S ss g c n)"
    by (induction ss) (auto intro: guar_intros)
  then show ?thesis unfolding read_priority_def by (intro guar_intros)
qed

lemma unmarked_handler [guar_intros]: "guarantees (unmarked tbl) (run_handler S deadline rnd p ctx)"
proof -
  have loop: "guarantees (unmarked tbl) (batch_loop S deadline rnd n i items sm ctx)" for n i items sm
  proof (induction items arbitrary: i sm ctx)
    case (Cons item items)
    show ?case
      unfolding batch_loop.simps
      by (intro guar_intros) (auto split: handler_outcome.splits exn.splits intro: Cons.IH guar_intros)
  qed (simp add: guar_return)
  show ?thesis
    by (cases p) (auto simp: run_handler_def handle_batch_def intro!: guar_intros loop split: batch_end.splits)
qed

lemma sync_unmarked: "guarantees (unmarked tbl) m \<Longrightarrow> sync.keeps m"
  by (rule sync.keeps_steps) (simp add: sync_ok_single unmarked_def [abs_def])

text \<open>A single step that puts the job into Redis, followed by the mark.\<close>

definition hands_over :: "uuid \<Rightarrow> ('d, 'r, 'a) io \<Rightarrow> bool" where
  "hands_over i m \<longleftrightarrow> emits m (\<lambda>_ ts. \<exists>st. ts = [st] \<and> hands view i st \<and> db (snd st) = db (fst st))"

lemma hands_over_enqueue: "hands_over i (enqueue S s (uuid_str i) c)"
proof -
  have "message_job_uuid (message_fields S s (uuid_str i) c) = Inr i"
    by (simp add: message_job_uuid_def dict_item_def parse_uuid_str)
  then show ?thesis
    unfolding hands_over_def enqueue_def
    by (intro emits_redis_step) (auto simp: hands_def Let_def simp del: split_paired_Ex)
qed

lemma hands_over_return: "hands_over i m \<Longrightarrow> hands_over i (m \<bind> (\<lambda>_. return x))"
  unfolding hands_over_def by (erule emits_bind) (auto intro: emits_return)

lemma hands_over_schedule: "hands_over i (schedule S k (uuid_str i) x)"
  unfolding schedule_def
  by (rule hands_over_return, unfold hands_over_def, rule emits_redis_step)
    (auto simp: hands_def Let_def)

lemma hands_over_case:
  "(\<And>y. x = Some y \<Longrightarrow> hands_over i (f y)) \<Longrightarrow> (x = None \<Longrightarrow> hands_over i m) \<Longrightarrow>
     hands_over i (case x of None \<Rightarrow> m | Some y \<Rightarrow> f y)"
  by (cases x) auto

lemma sync_handoff:
  assumes "hands_over i m" and "\<And>u. sync.keeps (f u)"
  shows "sync.keeps (m \<bind> (\<lambda>_. mark_synced S i \<bind> f))"
proof -
  have k: "keeps_keys (\<lambda>j. j\<lparr>is_synced_to_redis := True\<rparr>)" by (simp add: keeps_keys_def)
  have mark: "emits (mark_synced S i) (\<lambda>_ ts. \<exists>st. ts = [st] \<and> (\<forall>k. marks tbl k st \<longrightarrow> k = i))"
    unfolding mark_synced_def
    by (rule emits_bind [OF emits_sql_step [where Q = "\<lambda>_ ts. \<exists>st. ts = [st] \<and> (\<forall>k. marks tbl k st \<longrightarrow> k = i)"]])
      (auto simp: marks_def update_tbl_by_pk [OF k] intro!: emits_return split: option.splits if_splits)
  show ?thesis
    unfolding sync.keeps_def
  proof (rule emits_bind [OF assms(1) [unfolded hands_over_def]], elim exE conjE, rule emits_bind [OF mark], elim exE conjE)
    fix a b :: "('d, 'r) step" and ts us u
    assume a: "ts = [a]" "hands view i a" "db (snd a) = db (fst a)"
      and b: "us = [b]" "\<forall>k. marks tbl k b \<longrightarrow> k = i"
    have "sync_ok tbl view [a, b]"
      by (rule sync_ok_pair [OF a(2)]) (use a(3) b(2) in \<open>auto simp: marks_def\<close>)
    then show "emits (f u) (\<lambda>_ vs. sync_ok tbl view (ts @ us @ vs))"
      using assms(2) [of u] sync_ok_append [of tbl view "[a, b]"] unfolding sync.keeps_def a b
      by (auto elim!: emits_weaken)
  qed
qed

end

section \<open>Every program hands over first\<close>

context backend
begin

lemmas sync_rules = sync_handoff sync.keeps_rules

lemmas sync_leaves = unmarked_reads [THEN sync_unmarked] unmarked_transitions [THEN sync_unmarked]
  unmarked_create [THEN sync_unmarked] unmarked_repository [THEN sync_unmarked] unmarked_queue [THEN sync_unmarked]
  unmarked_read_priority [THEN sync_unmarked] guar_utc_now [THEN sync_unmarked] guar_sleep_by [THEN sync_unmarked]
  guar_run_with_timeout [OF unmarked_handler, THEN sync_unmarked]

lemma sync_retry: "sync.keeps (schedule_retry_or_fail S cfg job err carrier)"
  unfolding schedule_retry_or_fail_def
  by (rule sync_rules sync_unmarked hands_over_enqueue hands_over_schedule guar_intros | assumption)+

lemma sync_process_job: "sync.keeps (process_job S P cfg rnd i)"
proof -
  have r: "sync.keeps (retry_outcome_label S cfg job err lab)" for job err lab
    unfolding retry_outcome_label_def by (rule sync_retry sync_rules)+
  have s: "sync.keeps (settle S cfg job out)" for job out
    by (cases out)
      (auto simp: settle_def intro!: r sync.keeps_return sync.keeps_bind sync_leaves split: exn.split)
  have "sync.keeps (run_payload S P cfg rnd job)" for job
    by (auto simp: run_payload_def Let_def intro!: r s sync.keeps_return sync.keeps_bind sync_leaves
        split: payload_error.split sum.split)
  then show ?thesis
    unfolding process_job_def
    by (intro sync.keeps_bind sync.keeps_if sync.keeps_return sync.keeps_case_option)
      (auto intro!: sync_leaves)
qed

lemma sync_worker: "sync.keeps (worker_run_forever S P cfg consumer rounds)"
proof -
  have m: "sync.keeps (handle_message S P cfg rnd msg)" for rnd msg
    unfolding handle_message_def
    by (rule sync_process_job sync.keeps_case_prod sync.keeps_case_sum sync.keeps_bind sync.keeps_return
        sync.keeps_if sync_leaves)+
  have w: "sync.keeps (work_round S P cfg consumer rnd)" for rnd
    unfolding work_round_def pull_one_def
    by (rule m sync.keeps_case_option sync.keeps_case_list sync.keeps_bind sync.keeps_return sync_leaves)+
  have "sync.keeps (run_rounds S P cfg consumer rounds rc)" for rc
  proof (induction rounds arbitrary: rc)
    case (Cons r rounds)
    then show ?case
      by (cases r) (auto intro!: sync.keeps_bind w sync.keeps_return split: option.split sum.split prod.split)
  qed (simp add: sync.keeps_return)
  then show ?thesis
    unfolding worker_run_forever_def
    by (intro sync.keeps_bind) (auto intro: sync_leaves sync.keeps_foreach)
qed

lemma sync_promote_due: "sync.keeps (promote_due S cfg)"
  unfolding promote_due_def by (intro sync_unmarked guar_intros)

lemma sync_reconcile: "sync.keeps (reconcile_orphans fuel S cfg)"
proof -
  have one: "sync.keeps (reconcile_one S cfg job tot)" for job tot
    unfolding reconcile_one_def
    by (rule sync_rules hands_over_enqueue hands_over_schedule)+
  have "sync.keeps (reconcile_loop fuel S cfg cutoff tot)" for cutoff tot
    by (induction fuel arbitrary: tot)
      (auto intro!: sync.keeps_bind sync.keeps_return sync.keeps_forfold one sync_leaves)
  then show ?thesis
    unfolding reconcile_orphans_def by (auto simp: Let_def intro!: sync.keeps_bind sync_leaves)
qed

lemma sync_reap: "sync.keeps (reap_stale fuel S cfg)"
proof -
  have rec: "sync.keeps (reap_recover S cfg job)" for job
    unfolding reap_recover_def
    by (intro sync.keeps_if sync.keeps_return sync_handoff hands_over_case hands_over_return hands_over_enqueue
        hands_over_schedule sync.keeps_bind [OF sync_retry] sync.keeps_case_sum)
  have one: "sync.keeps (reap_one S cfg stream m i)" for stream m i
    unfolding reap_one_def
    by (rule rec sync.keeps_case_option sync.keeps_case_sum sync.keeps_return sync.keeps_bind sync_leaves)+
  have msgs: "sync.keeps (reap_messages S cfg stream ms handled)" for stream ms handled
  proof (induction ms arbitrary: handled)
    case (Cons m ms)
    then show ?case
      by (cases m) (auto intro!: sync.keeps_bind sync.keeps_return one sync_leaves split: sum.split)
  qed (simp add: sync.keeps_return)
  have stream: "sync.keeps (reap_stream fuel S cfg stream cursor handled)" for stream cursor handled
    by (induction fuel arbitrary: cursor handled)
      (auto intro!: sync.keeps_bind sync.keeps_return msgs sync_leaves split: sum.split)
  have "sync.keeps (reap_streams fuel S cfg streams handled)" for streams handled
    by (induction streams arbitrary: handled)
      (auto intro!: sync.keeps_bind sync.keeps_return stream sync_leaves split: option.split sum.split)
  then show ?thesis by (simp add: reap_stale_def)
qed

lemma sync_ticker: "sync.keeps (ticker_run_forever n fuel S cfg)"
proof -
  have t: "sync.keeps (run_tick fuel S cfg st)" for st
    unfolding run_tick_def tick_def
    by (rule sync_promote_due sync_reconcile sync_reap sync.keeps_case_option sync.keeps_case_sum sync.keeps_case_prod
        sync.keeps_if sync.keeps_return sync.keeps_bind sync_leaves)+
  have "sync.keeps (run_ticks n fuel S cfg st)" for st
    by (induction n arbitrary: st) (auto intro!: sync.keeps_bind sync.keeps_return t split: option.split)
  then show ?thesis
    unfolding ticker_run_forever_def
    by (intro sync.keeps_bind) (auto intro: sync_leaves sync.keeps_foreach)
qed

end

context backend
begin

lemma sync_submit: "sync.keeps (submit_job S P sha cfg new_id carrier sub user)"
proof -
  have c: "sync.keeps (create_and_handoff S cfg new_id carrier sub key h uid uname)" for key h uid uname
    unfolding create_and_handoff_def Let_def
    by (rule sync_rules sync_leaves hands_over_enqueue hands_over_schedule)+
  show ?thesis
    by (auto simp: submit_job_def Let_def split: sum.split payload_error.split option.split db_error.split
        intro!: sync.keeps_return sync.keeps_bind sync_leaves c)
qed

lemma sync_retry_route: "sync.keeps (retry_job S cfg i user)"
  unfolding retry_job_def
  by (rule sync_rules sync_leaves hands_over_enqueue)+

lemma sync_cancel_route: "sync.keeps (cancel_job_route S cfg i user)"
proof -
  have "guarantees (unmarked tbl) (cancel_rounds n S cfg i held)" for n held
    by (induction n arbitrary: held) (auto simp: session_get_def Let_def intro!: guar_intros)
  then show ?thesis unfolding cancel_job_route_def by (intro sync_unmarked guar_intros)
qed

end

section \<open>Properties\<close>

definition hands_over_first :: "('d \<Rightarrow> table) \<Rightarrow> ('r \<Rightarrow> redis_view) \<Rightarrow> ('d, 'r, 'a) io \<Rightarrow> bool" where
  "hands_over_first tbl view m \<longleftrightarrow>
     (\<forall>w. \<exists>ts. trace (snd (run_state m w)) = trace w @ ts \<and> sync_ok tbl view ts)"

text \<open>
  C9 (marked_only_after_handoff). Crash safety of the hand-over: in every run of the worker, of the ticker
  and of the routes, under any interference, a step that marks a row as handed to Redis comes after a
  step of the same process that put this very job into a stream or into the delayed set. Whatever point
  a crash hits, an unmarked row is still found by reconciliation, and a marked one had been put into Redis.
\<close>

theorem marked_only_after_handoff:
  assumes "backend S tbl view idle"
  shows "hands_over_first tbl view (worker_run_forever S P cfg consumer rounds)
     \<and> hands_over_first tbl view (ticker_run_forever n fuel S cfg)
     \<and> hands_over_first tbl view (submit_job S P sha cfg new_id carrier sub user)
     \<and> hands_over_first tbl view (retry_job S cfg i user)
     \<and> hands_over_first tbl view (cancel_job_route S cfg i user)"
proof -
  note d = trace_discipline.keeps_def [OF sync_discipline [of tbl view]]
  show ?thesis
    using backend.sync_worker [OF assms, of P cfg consumer rounds] backend.sync_ticker [OF assms, of n fuel cfg]
      backend.sync_submit [OF assms, of P sha cfg new_id carrier sub user]
      backend.sync_retry_route [OF assms, of cfg i user] backend.sync_cancel_route [OF assms, of cfg i user]
    unfolding d emits_def hands_over_first_def by blast
qed

theorem marked_only_after_handoff_witness:
  "hands_over_first ref_tbl ref_view (submit_job ref_services sample_schema (\<lambda>s. s) sample_cfg 9 None
     (sample_submission None) sample_user)"
  using marked_only_after_handoff [OF ref_backend] by blast

end
