(* ===== verification/Cursor.thy ===== *)
theory Cursor
  imports Idempotency
begin

text \<open>
  \<open>app/cursor.py\<close>: the opaque cursor of the job list. Base64 is spelled out in both directions, the
  decoder as \<open>binascii.a2b_base64\<close> reads text that is not strict (characters outside the alphabet are
  skipped). The text form of a \<open>datetime\<close> and the JSON parser are the parameters \<open>isoformat\<close>,
  \<open>fromisoformat\<close> and \<open>json_loads\<close>; the locale \<open>text_codec\<close> states the round trips they promise. A byte is
  a character.
\<close>

section \<open>Base64\<close>

definition b64_digit :: "nat \<Rightarrow> char" where
  "b64_digit n = ''ABCDEFGHIJKLMNOPQRSTUVWXYZabcdefghijklmnopqrstuvwxyz0123456789-_'' ! n"

definition b64_value :: "char \<Rightarrow> nat option" where
  "b64_value c = (let n = of_char c :: nat in
     if 65 \<le> n \<and> n \<le> 90 then Some (n - 65)
     else if 97 \<le> n \<and> n \<le> 122 then Some (n - 71)
     else if 48 \<le> n \<and> n \<le> 57 then Some (n + 4)
     else if n = 45 \<or> n = 43 then Some 62
     else if n = 95 \<or> n = 47 then Some 63
     else None)"

abbreviation code :: "char \<Rightarrow> nat" where
  "code c \<equiv> of_char c"

fun urlsafe_b64encode :: "string \<Rightarrow> string" where
  "urlsafe_b64encode [] = []"
| "urlsafe_b64encode [a] = [b64_digit (code a div 4), b64_digit (code a mod 4 * 16)] @ ''==''"
| "urlsafe_b64encode [a, b] = [b64_digit (code a div 4), b64_digit (code a mod 4 * 16 + code b div 16),
     b64_digit (code b mod 16 * 4)] @ ''=''"
| "urlsafe_b64encode (a # b # c # cs) = [b64_digit (code a div 4), b64_digit (code a mod 4 * 16 + code b div 16),
     b64_digit (code b mod 16 * 4 + code c div 64), b64_digit (code c mod 64)] @ urlsafe_b64encode cs"

text \<open>
  The decoder: position in the group of four, the bits left over, the pad characters seen in a row. A
  group that is closed by padding ends the text; one that is cut off is an error.
\<close>

fun a2b :: "nat \<Rightarrow> nat \<Rightarrow> nat \<Rightarrow> string \<Rightarrow> py_error + string" where
  "a2b quad left pads [] = (if quad = 0 then Inr [] else Inl (ValueError ''Incorrect padding''))"
| "a2b quad left pads (c # cs) =
     (if c = CHR ''='' then
        (if 2 \<le> quad \<and> 4 \<le> quad + (pads + 1) then Inr []
         else a2b quad left (if 2 \<le> quad then pads + 1 else pads) cs)
      else case b64_value c of
        None \<Rightarrow> a2b quad left pads cs
      | Some v \<Rightarrow>
          if quad = 0 then a2b 1 v 0 cs
          else if quad = 1 then map_sum id ((#) (char_of (left * 4 + v div 16))) (a2b 2 (v mod 16) 0 cs)
          else if quad = 2 then map_sum id ((#) (char_of (left * 16 + v div 4))) (a2b 3 (v mod 4) 0 cs)
          else map_sum id ((#) (char_of (left * 64 + v))) (a2b 0 0 0 cs))"

definition urlsafe_b64decode :: "string \<Rightarrow> py_error + string" where
  "urlsafe_b64decode s = a2b 0 0 0 s"

lemma b64_table: "\<forall>n \<in> set [0..<64]. b64_value (b64_digit n) = Some n \<and> b64_digit n \<noteq> CHR ''=''"
proof -
  have "[0..<64] = [0, 1, 2, 3, 4, 5, 6, 7, 8, 9, 10, 11, 12, 13, 14, 15, 16, 17, 18, 19, 20, 21, 22, 23, 24, 25, 26,
      27, 28, 29, 30, 31, 32, 33, 34, 35, 36, 37, 38, 39, 40, 41, 42, 43, 44, 45, 46, 47, 48, 49, 50, 51, 52, 53, 54,
      55, 56, 57, 58, 59, 60, 61, 62, 63]"
    by (simp add: upt_rec)
  then show ?thesis
    by (simp add: b64_value_def b64_digit_def)
qed

lemma b64_value_digit [simp]: "n < 64 \<Longrightarrow> b64_value (b64_digit n) = Some n"
  and b64_digit_no_pad [simp]: "n < 64 \<Longrightarrow> b64_digit n \<noteq> CHR ''=''"
  using b64_table by simp_all

lemma code_bounds [simp]: "code c < 256" "code c div 4 < 64" "code c mod 4 * 16 < 64" "code c mod 16 * 4 < 64"
  "code c mod 4 * 16 + code d div 16 < 64" "code c mod 16 * 4 + code d div 64 < 64"
proof -
  have c: "code c < 256" for c by simp
  show "code c < 256" by simp
  show "code c div 4 < 64" by (rule less_mult_imp_div_less) simp
  have m: "code c mod 4 \<le> 3" "code c mod 16 \<le> 15"
    using pos_mod_bound by (simp_all add: less_Suc_eq_le [symmetric])
  then show "code c mod 4 * 16 < 64" "code c mod 16 * 4 < 64" by linarith+
  have "code d div 16 < 16" "code d div 64 < 4" by (rule less_mult_imp_div_less; simp)+
  with m show "code c mod 4 * 16 + code d div 16 < 64" "code c mod 16 * 4 + code d div 64 < 64" by linarith+
qed

lemma b64_round_trip: "urlsafe_b64decode (urlsafe_b64encode s) = Inr s"
proof -
  have parts: "(x mod 4 * 16 + y) div 16 = x mod 4" "(x mod 4 * 16 + y) mod 16 = y" if "y < 16" for x y :: nat
    using that by simp_all
  have parts2: "(x mod 16 * 4 + y) div 4 = x mod 16" "(x mod 16 * 4 + y) mod 4 = y" if "y < 4" for x y :: nat
    using that by simp_all
  have small: "code c div 16 < 16" "code c div 64 < 4" for c :: char by (rule less_mult_imp_div_less; simp)+
  have "a2b 0 0 0 (urlsafe_b64encode s) = Inr s"
    by (induction s rule: urlsafe_b64encode.induct)
      (simp_all add: parts parts2 small div_mult_mod_eq numeral_3_eq_3 numeral_2_eq_2)
  then show ?thesis by (simp add: urlsafe_b64decode_def)
qed

section \<open>The cursor\<close>

record text_ops =
  isoformat :: "timestamp \<Rightarrow> string"
  fromisoformat :: "string \<Rightarrow> timestamp option"
  json_loads :: "string \<Rightarrow> json option"

definition encode_cursor :: "text_ops \<Rightarrow> timestamp \<Rightarrow> uuid \<Rightarrow> string" where
  "encode_cursor X c i = urlsafe_b64encode
     (json_dumps False '', '' '': '' (JDict [(''c'', JStr (isoformat X c)), (''i'', JStr (uuid_str i))]))"

text \<open>Subscription, \<open>fromisoformat\<close> and \<open>UUID\<close> on what the JSON parser may return.\<close>

definition json_item :: "json \<Rightarrow> string \<Rightarrow> py_error + json" where
  "json_item v k = (case v of JDict d \<Rightarrow> dict_item d k | _ \<Rightarrow> Inl TypeError)"

definition iso_of :: "text_ops \<Rightarrow> json \<Rightarrow> py_error + timestamp" where
  "iso_of X v = (case v of
     JStr s \<Rightarrow> (case fromisoformat X s of None \<Rightarrow> Inl (ValueError ''Invalid isoformat string'') | Some t \<Rightarrow> Inr t)
   | _ \<Rightarrow> Inl TypeError)"

definition uuid_of :: "json \<Rightarrow> py_error + uuid" where
  "uuid_of v = (case v of JStr s \<Rightarrow> parse_uuid s | JNull \<Rightarrow> Inl TypeError | _ \<Rightarrow> Inl AttributeError)"

text \<open>The body of the \<open>try\<close>, and the clause that turns two kinds of error into \<open>invalid cursor\<close>.\<close>

definition read_cursor :: "text_ops \<Rightarrow> string \<Rightarrow> py_error + timestamp \<times> uuid" where
  "read_cursor X cursor = (case urlsafe_b64decode cursor of
     Inl e \<Rightarrow> Inl e
   | Inr raw \<Rightarrow> (case json_loads X raw of
       None \<Rightarrow> Inl (ValueError ''JSONDecodeError'')
     | Some data \<Rightarrow> (case json_item data ''c'' of
         Inl e \<Rightarrow> Inl e
       | Inr c \<Rightarrow> (case iso_of X c of
           Inl e \<Rightarrow> Inl e
         | Inr t \<Rightarrow> (case json_item data ''i'' of
             Inl e \<Rightarrow> Inl e
           | Inr i \<Rightarrow> (case uuid_of i of Inl e \<Rightarrow> Inl e | Inr u \<Rightarrow> Inr (t, u)))))))"

definition decode_cursor :: "text_ops \<Rightarrow> string \<Rightarrow> py_error + timestamp \<times> uuid" where
  "decode_cursor X cursor = (case read_cursor X cursor of
     Inl (ValueError _) \<Rightarrow> Inl (ValueError ''invalid cursor'')
   | Inl KeyError \<Rightarrow> Inl (ValueError ''invalid cursor'')
   | r \<Rightarrow> r)"

text \<open>
  What the code relies on: \<open>fromisoformat\<close> inverts \<open>isoformat\<close>, whose text needs no escaping, and
  \<open>json.loads\<close> inverts \<open>json.dumps\<close> on the two-key object of the cursor.
\<close>

definition plain :: "string \<Rightarrow> bool" where
  "plain s \<longleftrightarrow> (\<forall>c \<in> set s. 32 \<le> code c \<and> code c \<le> 126 \<and> c \<noteq> CHR 0x22 \<and> c \<noteq> CHR 0x5C)"

definition text_codec :: "text_ops \<Rightarrow> bool" where
  "text_codec X \<longleftrightarrow> (\<forall>t. fromisoformat X (isoformat X t) = Some t \<and> plain (isoformat X t))
     \<and> (\<forall>a b. plain a \<and> plain b \<longrightarrow>
          json_loads X (json_dumps False '', '' '': '' (JDict [(''c'', JStr a), (''i'', JStr b)]))
            = Some (JDict [(''c'', JStr a), (''i'', JStr b)]))"

lemma plain_uuid_str: "plain (uuid_str u)"
proof -
  have "32 \<le> code c \<and> code c \<le> 126 \<and> c \<noteq> CHR 0x22 \<and> c \<noteq> CHR 0x5C" if "is_hex_char c \<or> c = CHR ''-''" for c
    using that by (auto simp: is_hex_char_def)
  then show ?thesis
    using hex_or_hyphen_uuid_str [of u] by (auto simp: plain_def hex_or_hyphen_def)
qed

lemma cursor_round_trip:
  assumes "text_codec X"
  shows "decode_cursor X (encode_cursor X c i) = Inr (c, i)"
proof -
  have "json_loads X (json_dumps False '', '' '': '' (JDict [(''c'', JStr (isoformat X c)), (''i'', JStr (uuid_str i))]))
      = Some (JDict [(''c'', JStr (isoformat X c)), (''i'', JStr (uuid_str i))])"
    using assms plain_uuid_str by (simp only: text_codec_def)
  moreover have "fromisoformat X (isoformat X c) = Some c" using assms by (simp add: text_codec_def)
  ultimately have "read_cursor X (encode_cursor X c i) = Inr (c, i)"
    by (simp add: read_cursor_def encode_cursor_def b64_round_trip json_item_def iso_of_def uuid_of_def
        dict_item_def parse_uuid_str del: json_dumps.simps)
  then show ?thesis by (simp add: decode_cursor_def)
qed

text \<open>A concrete codec: decimal timestamps, and a parser for exactly the objects a cursor contains.\<close>

definition decimal_of :: "string \<Rightarrow> int option" where
  "decimal_of s = (case s of
     [] \<Rightarrow> None
   | c # cs \<Rightarrow> let val = foldl (\<lambda>a d. 10 * a + (code d - 48)) 0 in
       Some (if c = CHR ''-'' then - int (val cs) else int (val (c # cs))))"

definition two_strings :: "string \<Rightarrow> json option" where
  "two_strings s =
     (let p1 = [CHR ''{'', CHR 0x22, CHR ''c'', CHR 0x22, CHR '':'', CHR '' '', CHR 0x22];
          p2 = [CHR 0x22, CHR '','', CHR '' '', CHR 0x22, CHR ''i'', CHR 0x22, CHR '':'', CHR '' '', CHR 0x22];
          body = drop 7 s; a = takeWhile (\<lambda>c. c \<noteq> CHR 0x22) body; rest = drop (length a) body;
          b = takeWhile (\<lambda>c. c \<noteq> CHR 0x22) (drop 9 rest)
      in if take 7 s = p1 \<and> take 9 rest = p2 then Some (JDict [(''c'', JStr a), (''i'', JStr b)]) else None)"

definition sample_text :: text_ops where
  "sample_text = \<lparr>isoformat = py_str_int, fromisoformat = decimal_of, json_loads = two_strings\<rparr>"

lemma dec_nat_digits: "c \<in> set (dec_nat n) \<Longrightarrow> 48 \<le> code c \<and> code c \<le> 57"
proof (induction n rule: dec_nat.induct)
  case (1 n)
  then show ?case by (cases "n < 10") (auto simp: dec_nat.simps [of n])
qed

lemma dec_nat_value: "foldl (\<lambda>a d. 10 * a + (code d - 48)) 0 (dec_nat n) = n"
proof (induction n rule: dec_nat.induct)
  case (1 n)
  then show ?case by (cases "n < 10") (simp_all add: dec_nat.simps [of n])
qed

lemma dec_nat_not_Nil: "dec_nat n \<noteq> []"
  by (simp add: dec_nat.simps [of n])

lemma json_escape_plain:
  assumes "32 \<le> code c \<and> code c \<le> 126 \<and> c \<noteq> CHR 0x22 \<and> c \<noteq> CHR 0x5C"
  shows "json_escape c = [c]"
proof -
  have "code c \<noteq> code (CHR 0x22)" "code c \<noteq> code (CHR 0x5C)"
    using assms by (simp_all only: of_char_eq_iff simp_thms)
  then show ?thesis using assms by (simp add: json_escape_def Let_def)
qed

lemma sample_text_codec: "text_codec sample_text"
proof -
  have digits: "c \<noteq> CHR ''-''" if "c \<in> set (dec_nat n)" for c n
    using dec_nat_digits [OF that] by auto
  have iso: "decimal_of (py_str_int t) = Some t" for t
  proof (cases "t < 0")
    case True
    then show ?thesis by (simp add: py_str_int_def decimal_of_def dec_nat_value)
  next
    case False
    obtain c cs where d: "dec_nat (nat t) = c # cs" using dec_nat_not_Nil by (cases "dec_nat (nat t)") auto
    then have "c \<noteq> CHR ''-''" using digits [of c "nat t"] by simp
    with d False show ?thesis
      using dec_nat_value [of "nat t"] by (simp add: py_str_int_def decimal_of_def Let_def)
  qed
  have dig_plain: "plain (dec_nat n)" for n
    unfolding plain_def
  proof
    fix c assume "c \<in> set (dec_nat n)"
    then have "48 \<le> code c" "code c \<le> 57" using dec_nat_digits by simp_all
    then show "32 \<le> code c \<and> code c \<le> 126 \<and> c \<noteq> CHR 0x22 \<and> c \<noteq> CHR 0x5C" by auto
  qed
  have plain_append: "plain (''-'' @ s)" if "plain s" for s using that by (simp add: plain_def)
  have plain_iso: "plain (py_str_int t)" for t
    unfolding py_str_int_def by (simp add: dig_plain plain_append [simplified])
  have esc: "concat (map json_escape s) = s" if "plain s" for s
    using that by (induction s) (simp_all add: plain_def json_escape_plain)
  have stop: "takeWhile (\<lambda>c. c \<noteq> CHR 0x22) (s @ CHR 0x22 # t) = s" if "plain s" for s t
    using that by (induction s) (auto simp: plain_def)
  have "two_strings (json_dumps False '', '' '': '' (JDict [(''c'', JStr a), (''i'', JStr b)]))
      = Some (JDict [(''c'', JStr a), (''i'', JStr b)])" if "plain a" "plain b" for a b
    using that by (simp add: two_strings_def json_quote_def esc stop join_def json_escape_def Let_def)
  with iso plain_iso show ?thesis by (simp add: text_codec_def sample_text_def)
qed

section \<open>Properties\<close>



text \<open>An array in place of the object escapes as \<open>TypeError\<close>.\<close>

lemma array_cursor_escapes:
  assumes "json_loads X ''[]'' = Some (JList [])"
  shows "decode_cursor X ''W10='' = Inl TypeError"
proof -
  have "urlsafe_b64decode ''W10='' = Inr ''[]''"
    by (simp add: urlsafe_b64decode_def b64_value_def char_of_def bit_0)
  then show ?thesis by (simp add: decode_cursor_def read_cursor_def assms json_item_def)
qed

end
