(* ===== verification/Listing.thy ===== *)
theory Listing
  imports Cursor Routes
begin

text \<open>
  \<open>list_jobs\<close> of \<open>app/repository.py\<close> and the list route of \<open>app/api/routes.py\<close>: keyset pagination over
  \<open>(created_at, id)\<close>, newest first. The bounds on \<open>limit\<close> (1 to 200) and on the length of the cursor are
  declared in the signature of the route and enforced by the framework; here \<open>limit\<close> is an argument.

  The locale \<open>cursor_codec\<close> is what pagination needs of the cursor module; it is interpreted on the
  functions of the theory \<open>Cursor\<close>.
\<close>

section \<open>Definitions\<close>

definition list_filter ::
  "JobStatus option \<Rightarrow> JobType option \<Rightarrow> JobPriority option \<Rightarrow> uuid option \<Rightarrow> job \<Rightarrow> bool" where
  "list_filter st ty pr uid j \<longleftrightarrow>
     (case st of None \<Rightarrow> True | Some s \<Rightarrow> status j = s) \<and> (case ty of None \<Rightarrow> True | Some t \<Rightarrow> jtype j = t)
     \<and> (case pr of None \<Rightarrow> True | Some p \<Rightarrow> priority j = p) \<and> (case uid of None \<Rightarrow> True | Some u \<Rightarrow> user_id j = Some u)"

definition list_jobs ::
  "('d, 'r) services \<Rightarrow> text_ops \<Rightarrow> JobStatus option \<Rightarrow> JobType option \<Rightarrow> JobPriority option \<Rightarrow> uuid option
   \<Rightarrow> nat \<Rightarrow> string option \<Rightarrow> ('d, 'r, py_error + job list \<times> string option) io" where
  "list_jobs S X st ty pr uid lim cursor = (
     case (case cursor of None \<Rightarrow> Inr None | Some c \<Rightarrow> map_sum id Some (decode_cursor X c)) of
       Inl e \<Rightarrow> return (Inl e)
     | Inr before \<Rightarrow> do {
         rows \<leftarrow> sql_query (pg_select_ordered (sql S)
            (\<lambda>j. list_filter st ty pr uid j \<and> (case before of None \<Rightarrow> True | Some k \<Rightarrow> row_key j < k)) True (lim + 1));
         if length rows > lim then
           (let rows = take lim rows in
            case py_index rows (-1) of
              Inl e \<Rightarrow> return (Inl e)
            | Inr l \<Rightarrow> return (Inr (rows, Some (encode_cursor X (created_at l) (jid l)))))
         else return (Inr (rows, None))
       })"

record JobList =
  items :: "JobOut list"
  next_cursor :: "string option"

definition list_jobs_route ::
  "('d, 'r) services \<Rightarrow> text_ops \<Rightarrow> JobStatus option \<Rightarrow> JobType option \<Rightarrow> JobPriority option \<Rightarrow> nat
   \<Rightarrow> string option \<Rightarrow> AuthedUser \<Rightarrow> ('d, 'r, JobList response) io" where
  "list_jobs_route S X st ty pr lim cursor user = do {
     r \<leftarrow> list_jobs S X st ty pr (Some (au_id user)) lim cursor;
     case r of
       Inl (ValueError _) \<Rightarrow> return (Inl (HTTPException 422 ''invalid cursor''))
     | Inl _ \<Rightarrow> return (Inl Unhandled)
     | Inr (jobs, nc) \<Rightarrow> return (Inr (200, \<lparr>items = map job_out jobs, next_cursor = nc\<rparr>))
   }"

text \<open>A client that follows the cursors to the end; \<open>None\<close> when the fuel did not suffice.\<close>

fun follow_pages ::
  "nat \<Rightarrow> ('d, 'r) services \<Rightarrow> text_ops \<Rightarrow> JobStatus option \<Rightarrow> JobType option \<Rightarrow> JobPriority option \<Rightarrow> nat
   \<Rightarrow> string option \<Rightarrow> AuthedUser \<Rightarrow> ('d, 'r, (http_error + JobOut list) option) io" where
  "follow_pages 0 S X st ty pr lim cursor user = return None"
| "follow_pages (Suc fuel) S X st ty pr lim cursor user = do {
     r \<leftarrow> list_jobs_route S X st ty pr lim cursor user;
     case r of
       Inl e \<Rightarrow> return (Some (Inl e))
     | Inr (_, page) \<Rightarrow> (case next_cursor page of
         None \<Rightarrow> return (Some (Inr (items page)))
       | Some c \<Rightarrow> do {
           rest \<leftarrow> follow_pages fuel S X st ty pr lim (Some c) user;
           return (map_option (map_sum id (\<lambda>js. items page @ js)) rest)
         })
   }"

section \<open>Pages\<close>

locale cursor_codec =
  fixes enc :: "timestamp \<Rightarrow> uuid \<Rightarrow> string"
    and dec :: "string \<Rightarrow> py_error + timestamp \<times> uuid"
  assumes dec_enc: "dec (enc c i) = Inr (c, i)"
begin

text \<open>Different positions have different cursors.\<close>

lemma enc_inject: "enc c i = enc c' i' \<longleftrightarrow> c = c' \<and> i = i'"
  by (metis dec_enc old.sum.inject(2) prod.inject)

lemma dec_position: "dec (enc (created_at j) (jid j)) = Inr (row_key j)"
  by (rule dec_enc)

end

lemma cursor_codec: "text_codec X \<Longrightarrow> cursor_codec (encode_cursor X) (decode_cursor X)"
  by unfold_locales (rule cursor_round_trip)

interpretation sample_cursor: cursor_codec "encode_cursor sample_text" "decode_cursor sample_text"
  by (rule cursor_codec [OF sample_text_codec])

definition newest_first :: "job list \<Rightarrow> bool" where
  "newest_first js \<longleftrightarrow> sorted_wrt (\<lambda>a b. row_key b < row_key a) js"

lemma newest_first_after:
  assumes "newest_first (js @ l # ks)"
  shows "{j \<in> set (js @ l # ks). row_key j < row_key l} = set ks"
  using assms by (force simp: newest_first_def sorted_wrt_append)

context backend
begin

lemma guar_list_route [guar_intros]: "guarantees (lifecycle tbl) (list_jobs_route S X st ty pr lim cursor user)"
  unfolding list_jobs_route_def list_jobs_def by (intro guar_intros) (auto intro!: guar_intros split: py_error.splits)

end

context postgres
begin

text \<open>The rows that match, newest first, are determined by the table.\<close>

lemma select_desc:
  assumes "newest_first js" and "set js = matching g (tbl d)"
  shows "pg_select_ordered PG g True n d = take n js"
proof -
  obtain ys where ys: "set ys = matching g (tbl d)" "sorted_wrt (\<lambda>a b. row_key a < row_key b) ys"
    "pg_select_ordered PG g True n d = take n (rev ys)"
    using select_ordered [of g d True n] by auto
  have strict: "sorted_wrt (<) (map row_key ys)" "sorted_wrt (<) (map row_key (rev js))"
    using ys(2) assms(1) by (simp_all add: sorted_wrt_map sorted_wrt_rev newest_first_def)
  have "ys = rev js"
  proof (rule map_sorted_distinct_set_unique)
    show "inj_on row_key (set ys \<union> set (rev js))"
      using ys(1) assms(2) by (auto simp: inj_on_def matching_tbl)
  qed (use strict ys(1) assms(2) in \<open>auto simp: strict_sorted_iff\<close>)
  with ys(3) show ?thesis by simp
qed

lemma exists_newest_first: "\<exists>js. newest_first js \<and> set js = matching g (tbl d)"
proof -
  obtain ys where "set ys = matching g (tbl d)" "sorted_wrt (\<lambda>a b. row_key a < row_key b) ys"
    using select_ordered [of g d False 0] by auto
  then show ?thesis by (intro exI [of _ "rev ys"]) (simp add: newest_first_def sorted_wrt_rev)
qed

end

lemma py_index_last: "xs \<noteq> [] \<Longrightarrow> py_index xs (-1) = Inr (last xs)"
  by (cases xs rule: rev_cases) (simp_all add: py_index_def Let_def nat_add_distrib)

text \<open>The position a client has reached: the cursor of the last job it has seen.\<close>

definition reached :: "text_ops \<Rightarrow> job list \<Rightarrow> string option" where
  "reached X seen = (if seen = [] then None else Some (encode_cursor X (created_at (last seen)) (jid (last seen))))"

context backend
begin

lemma page_rows:
  assumes "newest_first (seen @ rest)" and "set (seen @ rest) = matching g (tbl d)"
  shows "pg_select_ordered (sql S) (\<lambda>j. g j \<and> (case (if seen = [] then None else Some (row_key (last seen))) of
      None \<Rightarrow> True | Some k \<Rightarrow> row_key j < k)) True n d = take n rest"
proof (cases "seen = []")
  case True
  with select_desc [of rest g d n] assms show ?thesis by simp
next
  case False
  then obtain js l where seen: "seen = js @ [l]" by (cases seen rule: rev_cases) auto
  have "set rest = {j \<in> set (seen @ rest). row_key j < row_key l}"
    using newest_first_after [of js l rest] assms(1) by (simp add: seen)
  also have "\<dots> = matching (\<lambda>j. g j \<and> row_key j < row_key l) (tbl d)"
    unfolding assms(2) by (auto simp: matching_def)
  finally have "set rest = matching (\<lambda>j. g j \<and> row_key j < row_key l) (tbl d)" .
  moreover have "newest_first rest" using assms(1) by (simp add: newest_first_def sorted_wrt_append)
  ultimately show ?thesis using select_desc [of rest _ d n] by (simp add: seen)
qed

lemma wp_list_jobs:
  assumes "quiet w" and "text_codec X" and "0 < lim"
    and "newest_first (seen @ rest)" and "set (seen @ rest) = matching (list_filter st ty pr uid) (T w)"
  shows "wp (list_jobs S X st ty pr uid lim (reached X seen)) (\<lambda>r w'. quiet w' \<and> shared w' = shared w \<and>
     r = Inr (take lim rest, if length rest > lim then reached X (seen @ take lim rest) else None)) w"
proof -
  let ?before = "if seen = [] then None else Some (row_key (last seen))"
  have dec: "(case reached X seen of None \<Rightarrow> Inr None | Some c \<Rightarrow> map_sum id Some (decode_cursor X c)) = Inr ?before"
    by (simp add: reached_def cursor_round_trip [OF assms(2)])
  note rows = page_rows [OF assms(4,5), of "lim + 1"]
  have "length (take (lim + 1) rest) > lim \<longleftrightarrow> length rest > lim" by auto
  moreover have "take lim (take (lim + 1) rest) = take lim rest" by (simp add: min_def)
  moreover have "take (lim + 1) rest = take lim rest" if "\<not> length rest > lim" using that by simp
  moreover have "py_index (take lim rest) (-1) = Inr (last (take lim rest))"
    "reached X (seen @ take lim rest) = Some (encode_cursor X (created_at (last (take lim rest))) (jid (last (take lim rest))))"
    if "length rest > lim"
    using that assms(3) py_index_last [of "take lim rest"] by (cases rest, simp, auto simp: reached_def last_append)+
  ultimately show ?thesis
    unfolding list_jobs_def dec sum.case
    by (intro wp_bind wp_sql_query assms(1), unfold rows Let_def) (auto intro!: wp_return)
qed

lemma wp_list_route:
  assumes "quiet w" and "text_codec X" and "0 < lim"
    and "newest_first (seen @ rest)" and "set (seen @ rest) = matching (list_filter st ty pr (Some (au_id user))) (T w)"
  shows "wp (list_jobs_route S X st ty pr lim (reached X seen) user) (\<lambda>r w'. quiet w' \<and> shared w' = shared w \<and>
     r = Inr (200, \<lparr>items = map job_out (take lim rest),
                    next_cursor = if length rest > lim then reached X (seen @ take lim rest) else None\<rparr>)) w"
  unfolding list_jobs_route_def
  by (intro wp_bind, rule wp_conseq [OF wp_list_jobs [OF assms]]) (auto intro!: wp_return)

lemma wp_follow_pages:
  assumes "quiet w" and "text_codec X" and "0 < lim" and "length rest < fuel"
    and "newest_first (seen @ rest)" and "set (seen @ rest) = matching (list_filter st ty pr (Some (au_id user))) (T w)"
  shows "wp (follow_pages fuel S X st ty pr lim (reached X seen) user) (\<lambda>r w'. shared w' = shared w \<and>
     r = Some (Inr (map job_out rest))) w"
  using assms(1,4,5,6)
proof (induction fuel arbitrary: w seen rest)
  case (Suc fuel)
  have split: "(seen @ take lim rest) @ drop lim rest = seen @ rest" by simp
  show ?case
    unfolding follow_pages.simps
  proof (intro wp_bind, rule wp_conseq [OF wp_list_route [OF Suc.prems(1) assms(2,3) Suc.prems(3,4)]], elim conjE, goal_cases)
    case (1 r w1)
    show ?case
    proof (cases "length rest > lim")
      case False
      with 1 show ?thesis by (auto intro!: wp_return)
    next
      case True
      have "wp (follow_pages fuel S X st ty pr lim (reached X (seen @ take lim rest)) user)
          (\<lambda>r w'. shared w' = shared w1 \<and> r = Some (Inr (map job_out (drop lim rest)))) w1"
      proof (rule Suc.IH)
        show "length (drop lim rest) < fuel" using True Suc.prems(2) assms(3) by simp
      qed (use 1 Suc.prems(3,4) split in auto)
      moreover have "reached X (seen @ take lim rest) \<noteq> None" using True assms(3) by (auto simp: reached_def)
      ultimately show ?thesis
        using 1 True by (auto intro!: wp_bind wp_return elim!: wp_conseq simp flip: map_append)
    qed
  qed
qed simp

end

section \<open>Properties\<close>

text \<open>
  C15 (pagination_complete). A client that lists its jobs with any filter and any positive page size and
  follows the cursors, on a table that does not change meanwhile, reaches the end and sees every one of
  its own matching jobs exactly once, newest first, and nobody else's. Nothing is changed.
\<close>

theorem pagination_complete:
  assumes "backend S tbl view idle" and "quiet w" and "text_codec X" and "0 < lim"
    and "card (matching (list_filter st ty pr (Some (au_id user))) (tbl (db (shared w)))) < fuel"
  shows "case run_state (follow_pages fuel S X st ty pr lim None user) w of (r, w') \<Rightarrow>
     shared w' = shared w \<and> (\<exists>js. r = Some (Inr (map job_out js)) \<and> newest_first js \<and> distinct js
       \<and> set js = matching (list_filter st ty pr (Some (au_id user))) (tbl (db (shared w)))
       \<and> (\<forall>j \<in> set js. user_id j = Some (au_id user)))"
proof -
  let ?M = "matching (list_filter st ty pr (Some (au_id user))) (tbl (db (shared w)))"
  obtain js where js: "newest_first js" "set js = ?M"
    using postgres.exists_newest_first [OF backend.axioms(1) [OF assms(1)]] by blast
  have "distinct js"
    using js(1) unfolding newest_first_def by (induction js) auto
  then have "length js < fuel" using assms(5) js(2) distinct_card [of js] by simp
  from backend.wp_follow_pages [OF assms(1,2,3,4) this, of "[]"] js
  have "wp (follow_pages fuel S X st ty pr lim None user)
      (\<lambda>r w'. shared w' = shared w \<and> r = Some (Inr (map job_out js))) w"
    by (simp add: reached_def)
  moreover have "\<forall>j \<in> set js. user_id j = Some (au_id user)"
    using js(2) by (auto simp: matching_def list_filter_def)
  ultimately show ?thesis using js \<open>distinct js\<close> by (auto simp: wp_def split: prod.splits)
qed

theorem pagination_complete_witness:
  "fst (run_state (follow_pages 5 ref_services sample_text None None None 1 None sample_user) (sample_world [sample_job pending]))
     = Some (Inr [job_out (sample_job pending)])"
proof -
  have m: "matching (list_filter None None None (Some (au_id sample_user))) (ref_tbl [sample_job pending]) = {sample_job pending}"
    by (simp add: ref_matching list_filter_def sample_user_def)
  show ?thesis
    using pagination_complete [OF ref_backend, of "sample_world [sample_job pending]" sample_text 1 None None None sample_user 5]
    by (auto simp: m sample_text_codec split: prod.splits dest: distinct_singleton)
qed

end
