(* ===== verification/Slots.thy ===== *)
theory Slots
  imports Worker
begin

text \<open>
  The concurrency of the worker loop (\<open>run_forever\<close> of \<open>app/worker/runner.py\<close>): the semaphore that bounds
  the tasks in flight, the task group, and the drain at the end. Here the loop is a state machine whose
  events are the points at which the coroutines are resumed; what a single task does is the subject of
  the theory \<open>Worker\<close>.
\<close>

section \<open>The machine\<close>

datatype loop_phase = Checking | Acquiring | Reading | Draining | Stopped | Failed

text \<open>
  \<open>permits\<close> is the value of the semaphore, \<open>tasks\<close> the messages whose tasks have not ended, \<open>started\<close> a
  record of every message a task was started for.
\<close>

record slots =
  phase :: loop_phase
  permits :: nat
  tasks :: "delivery list"
  started :: "delivery list"

definition slots_init :: "nat \<Rightarrow> slots" where
  "slots_init concurrency = \<lparr>phase = Checking, permits = concurrency, tasks = [], started = []\<rparr>"

datatype loop_event =
    GoOn
  | Stop
  | Acquired
  | ReadEmpty
  | ReadOne delivery
  | ReadRaises
  | TaskEnds delivery
  | TaskRaises delivery
  | Drained

text \<open>The \<open>finally\<close> clause of \<open>_run_one\<close>: the task is over and its slot is free.\<close>

definition release_task :: "delivery \<Rightarrow> slots \<Rightarrow> slots" where
  "release_task m s = s\<lparr>tasks := remove1 m (tasks s), permits := permits s + 1\<rparr>"

text \<open>
  A task that raises makes the task group cancel the loop and the other tasks; a cancelled read releases
  its slot in the \<open>except BaseException\<close> clause. A cancelled task ends through its \<open>finally\<close> clause, which
  is \<open>TaskEnds\<close> again.
\<close>

definition abort_loop :: "slots \<Rightarrow> slots" where
  "abort_loop s = s\<lparr>phase := Failed, permits := permits s + (if phase s = Reading then 1 else 0)\<rparr>"

fun loop_next :: "loop_event \<Rightarrow> slots \<Rightarrow> slots option" where
  "loop_next GoOn s = (if phase s = Checking then Some (s\<lparr>phase := Acquiring\<rparr>) else None)"
| "loop_next Stop s = (if phase s = Checking then Some (s\<lparr>phase := Draining\<rparr>) else None)"
| "loop_next Acquired s =
     (if phase s = Acquiring \<and> 0 < permits s then Some (s\<lparr>phase := Reading, permits := permits s - 1\<rparr>) else None)"
| "loop_next ReadEmpty s =
     (if phase s = Reading then Some (s\<lparr>phase := Checking, permits := permits s + 1\<rparr>) else None)"
| "loop_next (ReadOne m) s =
     (if phase s = Reading then Some (s\<lparr>phase := Checking, tasks := tasks s @ [m], started := started s @ [m]\<rparr>) else None)"
| "loop_next ReadRaises s = (if phase s = Reading then Some (abort_loop s) else None)"
| "loop_next (TaskEnds m) s = (if m \<in> set (tasks s) then Some (release_task m s) else None)"
| "loop_next (TaskRaises m) s =
     (if m \<in> set (tasks s) \<and> phase s \<noteq> Failed then Some (abort_loop (release_task m s)) else None)"
| "loop_next Drained s = (if phase s = Draining \<and> tasks s = [] then Some (s\<lparr>phase := Stopped\<rparr>) else None)"

fun loop_run :: "loop_event list \<Rightarrow> slots \<Rightarrow> slots option" where
  "loop_run [] s = Some s"
| "loop_run (e # es) s = (case loop_next e s of None \<Rightarrow> None | Some s' \<Rightarrow> loop_run es s')"

inductive reachable :: "nat \<Rightarrow> slots \<Rightarrow> bool" for c where
  start: "reachable c (slots_init c)"
| step: "reachable c s \<Longrightarrow> loop_next e s = Some s' \<Longrightarrow> reachable c s'"

inductive_cases reachableE: "reachable c s"

section \<open>The invariant\<close>

definition slots_ok :: "nat \<Rightarrow> slots \<Rightarrow> bool" where
  "slots_ok c s \<longleftrightarrow> permits s + length (tasks s) + (if phase s = Reading then 1 else 0) = c
     \<and> (phase s = Stopped \<longrightarrow> tasks s = []) \<and> mset (tasks s) \<subseteq># mset (started s)"

lemma length_remove: "m \<in> set ms \<Longrightarrow> Suc (length (remove1 m ms)) = length ms"
  using length_pos_if_in_set [of m ms] by (simp add: length_remove1)

lemma slots_ok_next:
  assumes "slots_ok c s" and "loop_next e s = Some s'"
  shows "slots_ok c s'"
proof -
  have sub: "mset (remove1 m (tasks s)) \<subseteq># mset (started s)" for m
    using assms(1) by (auto simp: slots_ok_def intro: subset_mset.trans [OF diff_subset_eq_self])
  show ?thesis
    using assms sub
    by (cases e) (auto simp: slots_ok_def release_task_def abort_loop_def dest!: length_remove split: if_splits)
qed

lemma reachable_ok: "reachable c s \<Longrightarrow> slots_ok c s"
  by (induction rule: reachable.induct) (auto simp: slots_init_def intro: slots_ok_next, simp add: slots_ok_def)

lemma loop_run_append: "loop_run (es @ fs) s = Option.bind (loop_run es s) (loop_run fs)"
  by (induction es arbitrary: s) (auto split: option.splits)

lemma reachable_run: "reachable c s \<Longrightarrow> loop_run es s = Some s' \<Longrightarrow> reachable c s'"
  by (induction es arbitrary: s) (auto split: option.splits intro: reachable.step)

text \<open>The tasks in flight can all be ended.\<close>

lemma tasks_end:
  "tasks s = ms \<Longrightarrow> loop_run (map TaskEnds ms) s = Some (s\<lparr>tasks := [], permits := permits s + length ms\<rparr>)"
  by (induction ms arbitrary: s) (auto simp: release_task_def)

text \<open>From every phase a waiting loop can go on to its end.\<close>

definition wind_up :: "loop_phase \<Rightarrow> loop_event list" where
  "wind_up p = (case p of Checking \<Rightarrow> [Stop, Drained] | Acquiring \<Rightarrow> [Acquired, ReadEmpty, Stop, Drained]
     | Reading \<Rightarrow> [ReadEmpty, Stop, Drained] | Draining \<Rightarrow> [Drained] | _ \<Rightarrow> [])"

lemma loop_can_end:
  assumes "slots_ok c s" and "0 < c"
  shows "\<exists>s'. loop_run (map TaskEnds (tasks s) @ wind_up (phase s)) s = Some s'
     \<and> phase s' \<in> {Stopped, Failed} \<and> tasks s' = [] \<and> permits s' = c"
  using assms
  by (cases "phase s") (auto simp: loop_run_append tasks_end wind_up_def slots_ok_def)

section \<open>Properties\<close>


text \<open>A loop with two slots that runs two tasks, waits for a slot, and is told to stop.\<close>

definition sample_events :: "loop_event list" where
  "sample_events = [GoOn, Acquired, ReadOne (''s'', (1, 0), []), GoOn, Acquired, ReadOne (''s'', (2, 0), []), GoOn,
     TaskEnds (''s'', (1, 0), []), Acquired, ReadEmpty, Stop, TaskEnds (''s'', (2, 0), []), Drained]"


end
