(* ===== verification/Middleware.thy ===== *)
theory Middleware
  imports Idempotency
begin

text \<open>
  \<open>app/api/middleware.py\<close>: the ASGI middleware that limits the size of request bodies. The messages that
  \<open>receive()\<close> will deliver are a list; a request that has not delivered its last chunk yet leaves the
  middleware waiting.
\<close>

section \<open>Definitions\<close>

text \<open>\<open>int(value)\<close> on the bytes of a header, with the limit of the interpreter on the number of digits.\<close>

definition is_byte_space :: "char \<Rightarrow> bool" where
  "is_byte_space c = (let n = of_char c :: nat in n = 32 \<or> (9 \<le> n \<and> n \<le> 13))"

definition dec_value :: "char \<Rightarrow> nat option" where
  "dec_value c = (let n = of_char c :: nat in if 48 \<le> n \<and> n \<le> 57 then Some (n - 48) else None)"

fun int10_digits :: "bool \<Rightarrow> nat \<Rightarrow> string \<Rightarrow> nat option" where
  "int10_digits after_digit acc [] = (if after_digit then Some acc else None)"
| "int10_digits after_digit acc (c # cs) =
     (if c = CHR ''_'' then (if after_digit then int10_digits False acc cs else None)
      else (case dec_value c of
              None \<Rightarrow> None
            | Some d \<Rightarrow> int10_digits True (10 * acc + d) cs))"

definition py_int10 :: "string \<Rightarrow> py_error + int" where
  "py_int10 s =
     (let t = strip_chars is_byte_space s;
          (neg, ds) = (case t of [] \<Rightarrow> (False, [])
            | c # cs \<Rightarrow> if c = CHR ''-'' then (True, cs) else if c = CHR ''+'' then (False, cs) else (False, c # cs))
      in if length (filter (\<lambda>c. c \<noteq> CHR ''_'') ds) > 4300
         then Inl (ValueError ''Exceeds the limit (4300 digits) for integer string conversion'')
         else case int10_digits False 0 ds of
           None \<Rightarrow> Inl (ValueError ''invalid literal for int() with base 10'')
         | Some n \<Rightarrow> Inr (if neg then - int n else int n))"

datatype asgi_message =
    HttpRequest "string option" "bool option"
  | OtherMessage string

record scope =
  scope_type :: string
  headers :: "(string \<times> string) list"

datatype asgi_event =
    ResponseStart nat "(string \<times> string) list"
  | ResponseBody string

definition send_413 :: "asgi_event list" where
  "send_413 = (let body = json_dumps False '', '' '': '' (JDict [(''detail'', JStr ''request body too large'')])
     in [ResponseStart 413 [(''content-type'', ''application/json''), (''content-length'', py_str_int (int (length body)))],
         ResponseBody body])"

text \<open>A declared length beyond the limit; a malformed one counts as none.\<close>

fun declares_too_much :: "int \<Rightarrow> (string \<times> string) list \<Rightarrow> bool" where
  "declares_too_much max_bytes [] = False"
| "declares_too_much max_bytes ((name, value) # hs) =
     (if name = ''content-length'' \<and> (case py_int10 value of Inl _ \<Rightarrow> False | Inr n \<Rightarrow> n > max_bytes) then True
      else declares_too_much max_bytes hs)"

text \<open>What buffering leads to: a refusal, the buffered messages with what is still to be received, or waiting.\<close>

datatype buffering =
    TooLarge
  | Buffered "asgi_message list" "asgi_message list"
  | Waiting

definition message_body :: "asgi_message \<Rightarrow> string" where
  "message_body m = (case m of HttpRequest (Some b) _ \<Rightarrow> b | _ \<Rightarrow> [])"

definition more_body :: "asgi_message \<Rightarrow> bool" where
  "more_body m = (case m of HttpRequest _ (Some b) \<Rightarrow> b | _ \<Rightarrow> False)"

definition is_request :: "asgi_message \<Rightarrow> bool" where
  "is_request m = (case m of HttpRequest _ _ \<Rightarrow> True | _ \<Rightarrow> False)"

fun buffer_body :: "int \<Rightarrow> asgi_message list \<Rightarrow> int \<Rightarrow> asgi_message list \<Rightarrow> buffering" where
  "buffer_body max_bytes buffered tot [] = Waiting"
| "buffer_body max_bytes buffered tot (message # incoming) =
     (if \<not> is_request message then Buffered (buffered @ [message]) incoming
      else let tot = tot + int (length (message_body message)) in
        if tot > max_bytes then TooLarge
        else let buffered = buffered @ [message] in
          if \<not> more_body message then Buffered buffered incoming
          else buffer_body max_bytes buffered tot incoming)"

text \<open>What the middleware does with a request: answer itself, or call the application with this \<open>receive\<close>.\<close>

datatype call =
    Answered "asgi_event list"
  | Forwarded "asgi_message list" "asgi_message list"
  | Blocked

definition BodySizeLimitMiddleware :: "int \<Rightarrow> scope \<Rightarrow> asgi_message list \<Rightarrow> call" where
  "BodySizeLimitMiddleware max_bytes sc incoming =
     (if scope_type sc \<noteq> ''http'' then Forwarded [] incoming
      else if declares_too_much max_bytes (headers sc) then Answered send_413
      else case buffer_body max_bytes [] 0 incoming of
        TooLarge \<Rightarrow> Answered send_413
      | Buffered queue rest \<Rightarrow> Forwarded queue rest
      | Waiting \<Rightarrow> Blocked)"

text \<open>\<open>replay_receive\<close>: the buffered messages first, then those of the server.\<close>

fun replay_receive :: "asgi_message list \<times> asgi_message list \<Rightarrow> (asgi_message \<times> asgi_message list \<times> asgi_message list) option" where
  "replay_receive (m # queue, incoming) = Some (m, (queue, incoming))"
| "replay_receive ([], m # incoming) = Some (m, ([], incoming))"
| "replay_receive ([], []) = None"

fun receives :: "nat \<Rightarrow> asgi_message list \<times> asgi_message list \<Rightarrow> asgi_message list" where
  "receives 0 q = []"
| "receives (Suc n) q = (case replay_receive q of None \<Rightarrow> [] | Some (m, q') \<Rightarrow> m # receives n q')"

section \<open>The body of a request\<close>

text \<open>The chunks of the request: up to the last one, or to the first message of another kind.\<close>

fun body_bytes :: "asgi_message list \<Rightarrow> int" where
  "body_bytes [] = 0"
| "body_bytes (m # ms) = (if \<not> is_request m then 0
     else int (length (message_body m)) + (if more_body m then body_bytes ms else 0))"

fun complete :: "asgi_message list \<Rightarrow> bool" where
  "complete [] = False"
| "complete (m # ms) = (if is_request m \<and> more_body m then complete ms else True)"

lemma body_bytes_nonneg: "0 \<le> body_bytes ms"
  by (induction ms) auto

lemma receives_replay: "receives n (q, ms) = take n (q @ ms)"
proof (induction n arbitrary: q ms)
  case (Suc n)
  show ?case
    by (cases q; cases ms) (use Suc in simp_all)
qed simp

lemma buffer_outcome:
  "tot \<le> max_bytes \<Longrightarrow> (case buffer_body max_bytes buf tot ms of
     TooLarge \<Rightarrow> max_bytes < tot + body_bytes ms
   | Buffered q rest \<Rightarrow> q @ rest = buf @ ms \<and> tot + body_bytes ms \<le> max_bytes \<and> complete ms
   | Waiting \<Rightarrow> \<not> complete ms \<and> tot + body_bytes ms \<le> max_bytes)"
proof (induction ms arbitrary: buf tot)
  case (Cons m ms)
  have "0 \<le> body_bytes ms" by (rule body_bytes_nonneg)
  then show ?case
    using Cons.prems Cons.IH [of "tot + int (length (message_body m))" "buf @ [m]"]
    by (auto simp: Let_def split: buffering.splits)
qed simp

lemma declares_iff:
  "declares_too_much mx hs \<longleftrightarrow> (\<exists>v n. (''content-length'', v) \<in> set hs \<and> py_int10 v = Inr n \<and> mx < n)"
  by (induction mx hs rule: declares_too_much.induct) (auto split: sum.splits)

section \<open>Properties\<close>

text \<open>
  C32 (body_limit). For every request, whatever its headers and however it is cut into chunks: the
  application is called only when the body, counted in bytes, is within the limit and no declared length
  exceeds it, and it then receives exactly the messages the server sent, in their order; a request over
  the limit, by declaration or by content, is answered with 413 and the application never sees it.
  Only an unfinished request within the limit keeps it waiting.
\<close>

theorem body_limit:
  assumes "0 \<le> max_bytes"
  shows "case BodySizeLimitMiddleware max_bytes sc incoming of
     Answered ev \<Rightarrow> ev = send_413 \<and> scope_type sc = ''http'' \<and>
       ((\<exists>v n. (''content-length'', v) \<in> set (headers sc) \<and> py_int10 v = Inr n \<and> max_bytes < n)
        \<or> max_bytes < body_bytes incoming)
   | Forwarded queue rest \<Rightarrow> (\<forall>k. receives k (queue, rest) = take k incoming) \<and>
       (scope_type sc = ''http'' \<longrightarrow> body_bytes incoming \<le> max_bytes \<and> complete incoming \<and>
         (\<forall>v n. (''content-length'', v) \<in> set (headers sc) \<longrightarrow> py_int10 v = Inr n \<longrightarrow> n \<le> max_bytes))
   | Blocked \<Rightarrow> \<not> complete incoming \<and> body_bytes incoming \<le> max_bytes"
proof -
  note outcome = buffer_outcome [where tot = 0 and buf = "[]" and ms = incoming, OF assms, unfolded append_Nil add_0]
  show ?thesis
    using outcome declares_iff [of max_bytes "headers sc"]
    by (cases "buffer_body max_bytes [] 0 incoming")
      (auto simp: BodySizeLimitMiddleware_def receives_replay not_less simp del: take_append)
qed

text \<open>A body of four bytes in two chunks under a limit of three, with a malformed declaration.\<close>

theorem body_limit_witness:
  "BodySizeLimitMiddleware 3 \<lparr>scope_type = ''http'', headers = [(''content-length'', ''2x'')]\<rparr>
     [HttpRequest (Some ''ab'') (Some True), HttpRequest (Some ''cd'') None] = Answered send_413"
  using body_limit [of 3 "\<lparr>scope_type = ''http'', headers = [(''content-length'', ''2x'')]\<rparr>"
      "[HttpRequest (Some ''ab'') (Some True), HttpRequest (Some ''cd'') None]"]
  by (auto simp: is_request_def more_body_def message_body_def split: call.splits)

end
