(* ===== verification/Ratelimit.thy ===== *)
theory Ratelimit
  imports Config
begin

text \<open>
  \<open>app/api/ratelimit.py\<close>: which bucket a request counts against, and the dependency that admits it. The
  counter itself is the Lua script of fastapi-limiter, a parameter: \<open>check\<close> runs it for a key and answers
  0 or the milliseconds to wait, or fails because Redis has lost the script; \<open>script_load\<close> loads it again.
  The documented behaviour, a counter per key within a window, is the locale \<open>window_limiter\<close>.
\<close>

section \<open>Definitions\<close>

record request =
  authed_user_id :: "uuid option"
  client_host :: "string option"

definition user_or_ip_identifier :: "request \<Rightarrow> string" where
  "user_or_ip_identifier r = (case authed_user_id r of
     Some u \<Rightarrow> ''u:'' @ uuid_str u
   | None \<Rightarrow> (let host = (case client_host r of Some h \<Rightarrow> h | None \<Rightarrow> ''unknown'') in ''ip:'' @ host))"

datatype check_result = NoScriptError | Pexpire nat

record 'l limiter_ops =
  limiter_prefix :: string
  initialised :: "'l \<Rightarrow> bool"
  check :: "string \<Rightarrow> int \<Rightarrow> nat \<Rightarrow> 'l \<Rightarrow> check_result \<times> 'l"
  script_load :: "'l \<Rightarrow> 'l"

definition bucket_key :: "'l limiter_ops \<Rightarrow> string \<Rightarrow> request \<Rightarrow> string" where
  "bucket_key L grp r = limiter_prefix L @ '':'' @ grp @ '':'' @ user_or_ip_identifier r"

datatype limit_outcome =
    Admitted
  | CallBack nat
  | LimiterRaises string

definition finish_check :: "check_result \<Rightarrow> limit_outcome" where
  "finish_check c = (case c of
     NoScriptError \<Rightarrow> LimiterRaises ''NoScriptError''
   | Pexpire pexpire \<Rightarrow> if pexpire \<noteq> 0 then CallBack pexpire else Admitted)"

definition GroupRateLimiter :: "'l limiter_ops \<Rightarrow> string \<Rightarrow> int \<Rightarrow> nat \<Rightarrow> request \<Rightarrow> 'l \<Rightarrow> limit_outcome \<times> 'l" where
  "GroupRateLimiter L grp lim milliseconds r l =
     (if \<not> initialised L l
      then (LimiterRaises ''You must call FastAPILimiter.init in startup event of fastapi!'', l)
      else let key = bucket_key L grp r in
        case check L key lim milliseconds l of
          (NoScriptError, l) \<Rightarrow> (case check L key lim milliseconds (script_load L l) of (c, l) \<Rightarrow> (finish_check c, l))
        | (Pexpire p, l) \<Rightarrow> (finish_check (Pexpire p), l))"

text \<open>\<open>getattr(settings, f"{group}_rate_limit_per_min")\<close>.\<close>

definition limit_of :: "settings \<Rightarrow> string \<Rightarrow> py_error + int" where
  "limit_of cfg grp =
     (if grp = ''submit'' then Inr (submit_rate_limit_per_min cfg)
      else if grp = ''control'' then Inr (control_rate_limit_per_min cfg)
      else if grp = ''read'' then Inr (read_rate_limit_per_min cfg)
      else if grp = ''stats'' then Inr (stats_rate_limit_per_min cfg)
      else Inl AttributeError)"

definition rate_limit :: "'l limiter_ops \<Rightarrow> settings \<Rightarrow> string \<Rightarrow> request \<Rightarrow> 'l \<Rightarrow> limit_outcome \<times> 'l" where
  "rate_limit L cfg grp r l =
     (if \<not> rate_limit_enabled cfg then (Admitted, l)
      else case limit_of cfg grp of
        Inl e \<Rightarrow> (LimiterRaises ''AttributeError'', l)
      | Inr lim \<Rightarrow> GroupRateLimiter L grp lim (60 * 1000) r l)"

text \<open>A sequence of requests, each with the limit group of its route.\<close>

fun serve :: "'l limiter_ops \<Rightarrow> settings \<Rightarrow> (string \<times> request) list \<Rightarrow> 'l \<Rightarrow> limit_outcome list" where
  "serve L cfg [] l = []"
| "serve L cfg ((grp, r) # rs) l = (case rate_limit L cfg grp r l of (out, l') \<Rightarrow> out # serve L cfg rs l')"

section \<open>Buckets\<close>

text \<open>Who a request counts for: the validated user, or else the address.\<close>

definition identity :: "request \<Rightarrow> uuid + string" where
  "identity r = (case authed_user_id r of Some u \<Rightarrow> Inl u
     | None \<Rightarrow> Inr (case client_host r of Some h \<Rightarrow> h | None \<Rightarrow> ''unknown''))"

lemma identifier_inject: "user_or_ip_identifier r = user_or_ip_identifier r' \<longleftrightarrow> identity r = identity r'"
  by (auto simp: user_or_ip_identifier_def identity_def Let_def split: option.splits)

definition limit_groups :: "string list" where
  "limit_groups = [''submit'', ''control'', ''read'', ''stats'']"

lemma colon_split: "CHR '':'' \<notin> set g \<Longrightarrow> CHR '':'' \<notin> set g' \<Longrightarrow> g @ '':'' @ x = g' @ '':'' @ y \<longleftrightarrow> g = g' \<and> x = y"
proof (induction g arbitrary: g')
  case Nil
  then show ?case by (cases g') auto
next
  case (Cons a g)
  then show ?case by (cases g') auto
qed

lemma bucket_key_inject:
  assumes "g \<in> set limit_groups" and "g' \<in> set limit_groups"
  shows "bucket_key L g r = bucket_key L g' r' \<longleftrightarrow> g = g' \<and> identity r = identity r'"
proof -
  have "CHR '':'' \<notin> set g" "CHR '':'' \<notin> set g'" using assms by (auto simp: limit_groups_def)
  then show ?thesis
    using colon_split [of g g'] by (simp add: bucket_key_def identifier_inject)
qed

section \<open>Within one window\<close>

text \<open>
  The documented behaviour of the limiter while no counter expires: the script counts the calls of a
  key up to the limit and then answers the time to wait; without the script nothing happens, and
  loading it changes no counter.
\<close>

locale window_limiter =
  fixes L :: "'l limiter_ops"
    and counter :: "'l \<Rightarrow> string \<Rightarrow> nat"
    and loaded :: "'l \<Rightarrow> bool"
  assumes ready: "initialised L l"
    and unloaded: "\<not> loaded l \<Longrightarrow> check L k lim ms l = (NoScriptError, l)"
    and below: "loaded l \<Longrightarrow> int (counter l k) < lim \<Longrightarrow> \<exists>l'. check L k lim ms l = (Pexpire 0, l')
        \<and> loaded l' \<and> counter l' = (counter l)(k := Suc (counter l k))"
    and reached: "loaded l \<Longrightarrow> lim \<le> int (counter l k) \<Longrightarrow> \<exists>p l'. check L k lim ms l = (Pexpire p, l')
        \<and> p \<noteq> 0 \<and> loaded l' \<and> counter l' = counter l"
    and load: "loaded (script_load L l)" "counter (script_load L l) = counter l"
begin

text \<open>One request: admitted and counted below the limit, otherwise held up; a lost script is reloaded.\<close>

lemma group_limiter_below:
  assumes "int (counter l (bucket_key L grp r)) < lim"
  shows "\<exists>l'. GroupRateLimiter L grp lim ms r l = (Admitted, l')
    \<and> counter l' = (counter l)(bucket_key L grp r := Suc (counter l (bucket_key L grp r)))"
proof (cases "loaded l")
  case True
  from below [OF this assms, of ms] show ?thesis
    by (auto simp: GroupRateLimiter_def ready Let_def finish_check_def)
next
  case False
  from below [OF load(1), of l "bucket_key L grp r" lim ms] assms show ?thesis
    by (auto simp: GroupRateLimiter_def ready Let_def finish_check_def unloaded [OF False] load(2))
qed

lemma group_limiter_reached:
  assumes "lim \<le> int (counter l (bucket_key L grp r))"
  shows "\<exists>p l'. GroupRateLimiter L grp lim ms r l = (CallBack p, l') \<and> p \<noteq> 0 \<and> counter l' = counter l"
proof (cases "loaded l")
  case True
  from reached [OF this assms, of ms] show ?thesis
    by (auto simp: GroupRateLimiter_def ready Let_def finish_check_def)
next
  case False
  from reached [OF load(1), of lim l "bucket_key L grp r" ms] assms show ?thesis
    by (auto simp: GroupRateLimiter_def ready Let_def finish_check_def unloaded [OF False] load(2))
qed

lemma rate_limit_step:
  assumes "rate_limit_enabled cfg" and "limit_of cfg g = Inr m"
  obtains out l' where "rate_limit L cfg g r l = (out, l')" and "out = Admitted \<longleftrightarrow> int (counter l (bucket_key L g r)) < m"
    and "counter l' = (if out = Admitted then (counter l)(bucket_key L g r := Suc (counter l (bucket_key L g r))) else counter l)"
proof (cases "int (counter l (bucket_key L g r)) < m")
  case True
  with that show thesis
    using group_limiter_below [OF True, of 60000] by (auto simp: rate_limit_def assms)
next
  case False
  then have "m \<le> int (counter l (bucket_key L g r))" by simp
  from group_limiter_reached [OF this, of 60000] False that show thesis
    by (auto simp: rate_limit_def assms)
qed

text \<open>The admitted requests of one bucket, whatever the others do.\<close>

lemma serve_counts:
  assumes "rate_limit_enabled cfg" and "\<forall>(g, r) \<in> set rs. g \<in> set limit_groups" and "grp \<in> set limit_groups"
    and "limit_of cfg grp = Inr n"
  shows "int (length (filter (\<lambda>((g, r), out). g = grp \<and> identity r = identity r0 \<and> out = Admitted) (zip rs (serve L cfg rs l))))
    = max 0 (min (n - int (counter l (bucket_key L grp r0)))
        (int (length (filter (\<lambda>(g, r). g = grp \<and> identity r = identity r0) rs))))"
  using assms(2)
proof (induction rs arbitrary: l)
  case (Cons gr rs)
  obtain g r where gr: "gr = (g, r)" by fastforce
  then have g: "g \<in> set limit_groups" using Cons.prems by simp
  then obtain m where m: "limit_of cfg g = Inr m" by (auto simp: limit_groups_def limit_of_def)
  obtain out l' where step: "rate_limit L cfg g r l = (out, l')"
    "out = Admitted \<longleftrightarrow> int (counter l (bucket_key L g r)) < m"
    "counter l' = (if out = Admitted then (counter l)(bucket_key L g r := Suc (counter l (bucket_key L g r))) else counter l)"
    by (rule rate_limit_step [OF assms(1) m])
  note IH = Cons.IH [of l']
  have key: "bucket_key L g r = bucket_key L grp r0 \<longleftrightarrow> g = grp \<and> identity r = identity r0"
    by (rule bucket_key_inject [OF g assms(3)])
  show ?case
  proof (cases "g = grp \<and> identity r = identity r0")
    case True
    then have k: "bucket_key L g r = bucket_key L grp r0" and "m = n" using key m assms(4) by auto
    moreover have "rate_limit L cfg grp r l = (out, l')" using step(1) True by simp
    ultimately show ?thesis
      using True step(2,3) Cons.prems IH unfolding k by (cases "out = Admitted") (simp_all add: gr)
  next
    case False
    then have "bucket_key L grp r0 \<noteq> bucket_key L g r" using key by metis
    then show ?thesis using False step(3) Cons.prems IH by (auto simp: gr step(1))
  qed
qed simp

end

section \<open>A reference limiter\<close>

text \<open>Counters in a list, and whether the script is loaded.\<close>

definition ref_limiter :: "((string \<times> nat) list \<times> bool) limiter_ops" where
  "ref_limiter = \<lparr>limiter_prefix = ''fastapi-limiter'', initialised = (\<lambda>_. True),
     check = (\<lambda>k lim ms (cs, ok). if \<not> ok then (NoScriptError, (cs, ok))
        else let n = (case dict_get cs k of None \<Rightarrow> 0 | Some n \<Rightarrow> n) in
          if int n < lim then (Pexpire 0, (dict_set cs k (Suc n), ok)) else (Pexpire (Suc ms), (cs, ok))),
     script_load = (\<lambda>(cs, ok). (cs, True))\<rparr>"

definition ref_counter :: "(string \<times> nat) list \<times> bool \<Rightarrow> string \<Rightarrow> nat" where
  "ref_counter l k = (case dict_get (fst l) k of None \<Rightarrow> 0 | Some n \<Rightarrow> n)"

lemma ref_window: "window_limiter ref_limiter ref_counter snd"
  by unfold_locales
    (auto simp: ref_limiter_def ref_counter_def Let_def fun_eq_iff split: option.splits prod.splits)

interpretation ref_window: window_limiter ref_limiter ref_counter snd
  by (rule ref_window)

section \<open>Properties\<close>



end
