(* ===== verification/Observability.thy ===== *)
theory Observability
  imports Ticker Routes
begin

text \<open>
  \<open>app/observability.py\<close>, the health and statistics routes of \<open>app/api/routes.py\<close>, the gauge callbacks of
  \<open>app/ticker/runner.py\<close> and \<open>count_by_status\<close> of \<open>app/repository.py\<close>.

  The commands these use are parameters like the other commands of the servers, with one difference:
  their failures matter here, so each answers a \<open>reply\<close>. What the code relies on are the laws of the
  locale \<open>info_server\<close>, which extends \<open>backend\<close>. Ages are in microseconds, like all times.
\<close>

section \<open>Replies of the servers\<close>

datatype 'a reply =
    Reply 'a
  | ResponseError string
  | ServerError string

record group_info =
  gi_name :: string
  gi_lag :: "int option"
  gi_pending :: int

record consumer_info =
  ci_name :: string
  ci_idle :: int

text \<open>The value of a status column: a member of the enumeration, or a text the driver did not convert.\<close>

datatype db_status = Member JobStatus | Text string

record ('d, 'r) info_ops =
  xinfo_groups :: "string \<Rightarrow> 'r \<Rightarrow> group_info list reply"
  xinfo_consumers :: "string \<Rightarrow> string \<Rightarrow> 'r \<Rightarrow> consumer_info list reply"
  zcard :: "string \<Rightarrow> 'r \<Rightarrow> int reply"
  pipe_error :: "'r \<Rightarrow> string option"
  redis_ping :: "'r \<Rightarrow> unit reply"
  select_1 :: "'d \<Rightarrow> unit reply"
  select_counts :: "'d \<Rightarrow> (db_status \<times> int) list reply"
  select_min_pending :: "'d \<Rightarrow> timestamp option reply"

section \<open>Pure helpers\<close>

text \<open>\<open>live_worker_count\<close>: the smallest idle time of each consumer over all streams.\<close>

definition note_idle :: "(string \<times> int) list \<Rightarrow> consumer_info \<Rightarrow> (string \<times> int) list" where
  "note_idle min_idle row = (case dict_get min_idle (ci_name row) of
     None \<Rightarrow> dict_set min_idle (ci_name row) (ci_idle row)
   | Some m \<Rightarrow> if ci_idle row < m then dict_set min_idle (ci_name row) (ci_idle row) else min_idle)"

definition live_worker_count :: "consumer_info list list \<Rightarrow> int \<Rightarrow> nat" where
  "live_worker_count rows_per_stream cutoff_ms =
     (let min_idle = fold (\<lambda>rows acc. fold (\<lambda>row acc. note_idle acc row) rows acc) rows_per_stream []
      in length (filter (\<lambda>i. i < cutoff_ms) (map snd min_idle)))"

definition status_key :: "db_status \<Rightarrow> string" where
  "status_key s = (case s of Member st \<Rightarrow> JobStatus_value st | Text t \<Rightarrow> t)"

definition zero_fill_status_counts :: "(db_status \<times> int) list \<Rightarrow> (string \<times> int) list" where
  "zero_fill_status_counts rows =
     fold (\<lambda>(s, n) counts. dict_set counts (status_key s) n) rows (map (\<lambda>s. (JobStatus_value s, 0)) all_JobStatus)"

definition pending_age_seconds :: "timestamp option \<Rightarrow> timestamp \<Rightarrow> int option" where
  "pending_age_seconds min_created_at now = (case min_created_at of None \<Rightarrow> None | Some c \<Rightarrow> Some (now - c))"

text \<open>\<open>_tolerate_nogroup\<close>: a missing group counts as empty, any other error is raised.\<close>

definition tolerate_nogroup :: "'a reply \<Rightarrow> 'a \<Rightarrow> string + 'a" where
  "tolerate_nogroup res nil = (case res of
     Reply x \<Rightarrow> Inr x
   | ResponseError e \<Rightarrow> if sublist ''NOGROUP'' e then Inr nil else Inl e
   | ServerError e \<Rightarrow> Inl e)"

text \<open>A list comprehension whose element expression may raise.\<close>

fun all_of :: "('e + 'a) list \<Rightarrow> 'e + 'a list" where
  "all_of [] = Inr []"
| "all_of (x # xs) = (case x of Inl e \<Rightarrow> Inl e | Inr a \<Rightarrow> map_sum id ((#) a) (all_of xs))"

section \<open>Readiness\<close>

definition ping_label :: "unit reply \<Rightarrow> string" where
  "ping_label r = (case r of Reply _ \<Rightarrow> ''ok'' | _ \<Rightarrow> ''error'')"

definition check_readiness :: "('d, 'r) info_ops \<Rightarrow> ('d, 'r, (string \<times> string) list) io" where
  "check_readiness I = do {
     p \<leftarrow> sql_query (select_1 I);
     let checks = dict_set [] ''postgres'' (ping_label p);
     r \<leftarrow> redis_query (redis_ping I);
     return (dict_set checks ''redis'' (ping_label r))
   }"

record HealthResponse =
  health_status :: string
  checks :: "(string \<times> string) list"

definition ready :: "('d, 'r) info_ops \<Rightarrow> ('d, 'r, HealthResponse response) io" where
  "ready I = do {
     cs \<leftarrow> check_readiness I;
     if \<not> list_all (\<lambda>v. v = ''ok'') (map snd cs)
     then return (Inr (503, \<lparr>health_status = ''unavailable'', checks = cs\<rparr>))
     else return (Inr (200, \<lparr>health_status = ''ok'', checks = cs\<rparr>))
   }"

section \<open>Statistics\<close>

record StreamStat =
  depth :: "int option"
  ss_in_flight :: int

record QueueStats =
  streams :: "(string \<times> StreamStat) list"
  q_scheduled :: int
  workers :: nat

record JobStats =
  by_status :: "(string \<times> int) list"
  oldest_pending_age :: "int option"

record StatsResponse =
  queue :: QueueStats
  jobs :: JobStats

fun queries :: "('a \<Rightarrow> 'r \<Rightarrow> 'b) \<Rightarrow> 'a list \<Rightarrow> ('d, 'r, 'b list) io" where
  "queries f [] = return []"
| "queries f (x # xs) = do { y \<leftarrow> redis_query (f x); ys \<leftarrow> queries f xs; return (y # ys) }"

definition group_named :: "string \<Rightarrow> group_info list \<Rightarrow> group_info option" where
  "group_named g gs = find (\<lambda>gi. gi_name gi = g) gs"

definition stream_stat :: "settings \<Rightarrow> group_info list \<Rightarrow> StreamStat" where
  "stream_stat cfg group_list = (case group_named (consumer_group cfg) group_list of
     None \<Rightarrow> \<lparr>depth = Some 0, ss_in_flight = 0\<rparr>
   | Some g \<Rightarrow> \<lparr>depth = gi_lag g, ss_in_flight = gi_pending g\<rparr>)"

definition stream_stats :: "settings \<Rightarrow> group_info list list \<Rightarrow> (string \<times> StreamStat) list" where
  "stream_stats cfg groups_per_stream =
     fold (\<lambda>((p, _), gs) d. dict_set d (JobPriority_value p) (stream_stat cfg gs))
       (zip (priority_streams cfg) groups_per_stream) []"

definition count_by_status :: "('d, 'r) info_ops \<Rightarrow> ('d, 'r, (db_status \<times> int) list reply) io" where
  "count_by_status I = sql_query (select_counts I)"

definition raised :: "'a reply \<Rightarrow> string + 'a" where
  "raised r = (case r of Reply x \<Rightarrow> Inr x | ResponseError e \<Rightarrow> Inl e | ServerError e \<Rightarrow> Inl e)"

definition gather_jobs :: "('d, 'r) info_ops \<Rightarrow> ('d, 'r, string + JobStats) io" where
  "gather_jobs I = do {
     rows \<leftarrow> sql_query (select_counts I);
     case raised rows of
       Inl e \<Rightarrow> return (Inl e)
     | Inr status_rows \<Rightarrow> do {
         m \<leftarrow> sql_query (select_min_pending I);
         case raised m of
           Inl e \<Rightarrow> return (Inl e)
         | Inr min_created \<Rightarrow> do {
             now \<leftarrow> utc_now;
             return (Inr \<lparr>by_status = zero_fill_status_counts status_rows,
                          oldest_pending_age = pending_age_seconds min_created now\<rparr>)
           }
       }
   }"

definition queue_stats ::
  "settings \<Rightarrow> group_info list reply list \<Rightarrow> consumer_info list reply list \<Rightarrow> int reply \<Rightarrow> string + QueueStats" where
  "queue_stats cfg group_results consumer_results zcard_result = (
     case all_of (map (\<lambda>r. tolerate_nogroup r []) group_results) of
       Inl e \<Rightarrow> Inl e
     | Inr gs \<Rightarrow> (case all_of (map (\<lambda>r. tolerate_nogroup r []) consumer_results) of
         Inl e \<Rightarrow> Inl e
       | Inr cs \<Rightarrow> (case tolerate_nogroup zcard_result 0 of
           Inl e \<Rightarrow> Inl e
         | Inr n \<Rightarrow>
             let consumers = map (filter (\<lambda>row. ci_name row \<noteq> REAPER_NAME)) cs;
                 cutoff_ms = visibility_timeout_us cfg div 1000
             in Inr \<lparr>streams = stream_stats cfg gs, q_scheduled = n,
                     workers = live_worker_count consumers cutoff_ms\<rparr>)))"

definition gather_stats :: "('d, 'r) info_ops \<Rightarrow> settings \<Rightarrow> ('d, 'r, string + StatsResponse) io" where
  "gather_stats I cfg = do {
     let stream_names = map snd (priority_streams cfg);
     gs \<leftarrow> queries (xinfo_groups I) stream_names;
     cs \<leftarrow> queries (\<lambda>s. xinfo_consumers I s (consumer_group cfg)) stream_names;
     z \<leftarrow> redis_query (zcard I (delayed_zset cfg));
     broken \<leftarrow> redis_query (pipe_error I);
     case broken of
       Some e \<Rightarrow> return (Inl e)
     | None \<Rightarrow> (case queue_stats cfg gs cs z of
         Inl e \<Rightarrow> return (Inl e)
       | Inr q \<Rightarrow> do {
           js \<leftarrow> gather_jobs I;
           case js of Inl e \<Rightarrow> return (Inl e) | Inr j \<Rightarrow> return (Inr \<lparr>queue = q, jobs = j\<rparr>)
         })
   }"

definition stats :: "('d, 'r) info_ops \<Rightarrow> settings \<Rightarrow> ('d, 'r, StatsResponse response) io" where
  "stats I cfg = do {
     r \<leftarrow> gather_stats I cfg;
     case r of
       Inl e \<Rightarrow> return (Inl (HTTPException 503 ''stats unavailable''))
     | Inr resp \<Rightarrow> return (Inr (200, resp))
   }"

section \<open>Gauges of the ticker\<close>

type_synonym observation = "int \<times> (string \<times> string) list"

text \<open>\<open>None\<close> from the loop is the outer \<open>except\<close>: no observations at all.\<close>

fun depth_loop ::
  "('d, 'r) info_ops \<Rightarrow> settings \<Rightarrow> (JobPriority \<times> string) list \<Rightarrow> observation list \<Rightarrow> ('d, 'r, observation list) io" where
  "depth_loop I cfg [] out = return out"
| "depth_loop I cfg ((p, stream) # rest) out = do {
     r \<leftarrow> redis_query (xinfo_groups I stream);
     case r of
       ServerError _ \<Rightarrow> return []
     | ResponseError _ \<Rightarrow> depth_loop I cfg rest out
     | Reply gs \<Rightarrow> depth_loop I cfg rest
         (case group_named (consumer_group cfg) gs of
            None \<Rightarrow> out
          | Some g \<Rightarrow> (case gi_lag g of
              None \<Rightarrow> out
            | Some l \<Rightarrow> out @ [(l, [(''stream'', JobPriority_value p)])]))
   }"

definition queue_depth_observations :: "('d, 'r) info_ops \<Rightarrow> settings \<Rightarrow> ('d, 'r, observation list) io" where
  "queue_depth_observations I cfg = depth_loop I cfg (priority_streams cfg) []"

definition queue_scheduled_observations :: "('d, 'r) info_ops \<Rightarrow> settings \<Rightarrow> ('d, 'r, observation list) io" where
  "queue_scheduled_observations I cfg = do {
     r \<leftarrow> redis_query (zcard I (delayed_zset cfg));
     case raised r of Inl _ \<Rightarrow> return [] | Inr n \<Rightarrow> return [(n, [])]
   }"

definition job_status_observations :: "('d, 'r) info_ops \<Rightarrow> ('d, 'r, observation list) io" where
  "job_status_observations I = do {
     rows \<leftarrow> sql_query (select_counts I);
     case raised rows of
       Inl _ \<Rightarrow> return []
     | Inr rs \<Rightarrow> return (map (\<lambda>(s, n). (n, [(''status'', s)])) (zero_fill_status_counts rs))
   }"

section \<open>Counting\<close>

lemma fold_concat: "fold (\<lambda>xs acc. fold f xs acc) xss a = fold f (concat xss) a"
  by (induction xss arbitrary: a) auto

definition idle_table :: "(string \<times> int) list \<Rightarrow> consumer_info set \<Rightarrow> bool" where
  "idle_table d R \<longleftrightarrow> distinct (map fst d) \<and>
     (\<forall>n c. (\<exists>i. map_of d n = Some i \<and> i < c) \<longleftrightarrow> (\<exists>row \<in> R. ci_name row = n \<and> ci_idle row < c))"

lemma idle_table_note:
  assumes "idle_table d R"
  shows "idle_table (note_idle d row) (insert row R)"
proof -
  have d: "distinct (map fst d)"
    and R: "(\<exists>i. map_of d n = Some i \<and> i < c) \<longleftrightarrow> (\<exists>row \<in> R. ci_name row = n \<and> ci_idle row < c)" for n c
    using assms unfolding idle_table_def by blast+
  have "(\<exists>i. map_of (note_idle d row) n = Some i \<and> i < c)
      \<longleftrightarrow> (\<exists>i. map_of d n = Some i \<and> i < c) \<or> (ci_name row = n \<and> ci_idle row < c)" for n c
    by (auto simp: note_idle_def split: option.splits)
  then show ?thesis using d unfolding idle_table_def R by (auto simp: note_idle_def split: option.splits)
qed

lemma idle_table_fold:
  "idle_table d R \<Longrightarrow> idle_table (fold (\<lambda>row acc. note_idle acc row) rows d) (R \<union> set rows)"
proof (induction rows arbitrary: d R)
  case (Cons row rows)
  from Cons.IH [OF idle_table_note [OF Cons.prems, of row]] show ?case by simp
qed simp

lemma length_filter_values:
  "distinct (map fst d) \<Longrightarrow> length (filter P (map snd d)) = card {k. \<exists>v. map_of d k = Some v \<and> P v}"
proof -
  assume d: "distinct (map fst d)"
  have "{k. \<exists>v. map_of d k = Some v \<and> P v} = fst ` set (filter (\<lambda>p. P (snd p)) d)"
    using d by (force simp: map_of_eq_Some_iff)
  moreover have "card (set (map fst (filter (\<lambda>p. P (snd p)) d))) = length (map fst (filter (\<lambda>p. P (snd p)) d))"
    using d by (intro distinct_card distinct_map_filter)
  ultimately show ?thesis by (simp add: filter_map comp_def)
qed

text \<open>
  The number of live workers is the number of consumers that were active on at least one stream within
  the cutoff: a worker that is busy on one stream and idle on the others counts, and counts once.
\<close>

lemma live_workers:
  "live_worker_count rows_per_stream cutoff_ms =
     card {ci_name row | row. row \<in> set (concat rows_per_stream) \<and> ci_idle row < cutoff_ms}"
proof -
  let ?d = "fold (\<lambda>row acc. note_idle acc row) (concat rows_per_stream) []"
  have t: "idle_table ?d (set (concat rows_per_stream))"
    using idle_table_fold [of "[]" "{}" "concat rows_per_stream"] by (simp add: idle_table_def [of "[]"])
  have "live_worker_count rows_per_stream cutoff_ms = length (filter (\<lambda>i. i < cutoff_ms) (map snd ?d))"
    by (simp add: live_worker_count_def Let_def fold_concat)
  also have "\<dots> = card {n. \<exists>i. map_of ?d n = Some i \<and> i < cutoff_ms}"
    using t by (intro length_filter_values) (simp add: idle_table_def)
  also have "{n. \<exists>i. map_of ?d n = Some i \<and> i < cutoff_ms}
      = {ci_name row | row. row \<in> set (concat rows_per_stream) \<and> ci_idle row < cutoff_ms}"
  proof -
    have "(\<exists>i. map_of ?d n = Some i \<and> i < cutoff_ms)
        \<longleftrightarrow> (\<exists>row \<in> set (concat rows_per_stream). ci_name row = n \<and> ci_idle row < cutoff_ms)" for n
      using t unfolding idle_table_def by blast
    then show ?thesis by (simp only:) blast
  qed
  finally show ?thesis .
qed

subsection \<open>Counts by status\<close>

lemma keys_dict_set_present: "k \<in> fst ` set d \<Longrightarrow> map fst (dict_set d k v) = map fst d"
  by (induction d k v rule: dict_set.induct) auto

definition members :: "(db_status \<times> int) list \<Rightarrow> bool" where
  "members rows \<longleftrightarrow> distinct (map fst rows) \<and> (\<forall>(s, n) \<in> set rows. \<exists>st. s = Member st)"

definition count_in :: "(db_status \<times> int) list \<Rightarrow> JobStatus \<Rightarrow> int" where
  "count_in rows st = (case map_of rows (Member st) of None \<Rightarrow> 0 | Some n \<Rightarrow> n)"

lemma dict_of_keys:
  assumes "map fst d = map f xs" and "\<And>x. x \<in> set xs \<Longrightarrow> map_of d (f x) = Some (g x)" and "distinct (map fst d)"
  shows "d = map (\<lambda>x. (f x, g x)) xs"
proof (rule nth_equalityI)
  show len: "length d = length (map (\<lambda>x. (f x, g x)) xs)" using arg_cong [OF assms(1), of length] by simp
  fix i assume i: "i < length d"
  have k: "fst (d ! i) = f (xs ! i)" using arg_cong [OF assms(1), of "\<lambda>ys. ys ! i"] i len by simp
  have "map_of d (fst (d ! i)) = Some (snd (d ! i))"
    using i assms(3) by (simp add: map_of_eq_Some_iff)
  with assms(2) [of "xs ! i"] k i len show "d ! i = map (\<lambda>x. (f x, g x)) xs ! i"
    by (simp add: prod_eq_iff)
qed

lemma zero_fill_fold:
  assumes "members rows" and "map fst d = map JobStatus_value all_JobStatus"
  shows "map fst (fold (\<lambda>(s, n) counts. dict_set counts (status_key s) n) rows d) = map JobStatus_value all_JobStatus
    \<and> (\<forall>st. map_of (fold (\<lambda>(s, n) counts. dict_set counts (status_key s) n) rows d) (JobStatus_value st) =
        (case map_of rows (Member st) of None \<Rightarrow> map_of d (JobStatus_value st) | Some n \<Rightarrow> Some n))"
  using assms
proof (induction rows arbitrary: d)
  case (Cons row rows)
  obtain st n where row: "row = (Member st, n)" using Cons.prems by (cases row) (auto simp: members_def)
  have m: "members rows" "map_of rows (Member st) = None"
    using Cons.prems row by (auto simp: members_def map_of_eq_None_iff)
  have "JobStatus_value st \<in> fst ` set d"
    by (metis Cons.prems(2) all_JobStatus_complete image_eqI list.set_map)
  then have k: "map fst (dict_set d (JobStatus_value st) n) = map JobStatus_value all_JobStatus"
    using Cons.prems(2) by (simp add: keys_dict_set_present)
  have m2: "map_of rows (Member st') = None" if "st' = st" for st' using m(2) that by simp
  show ?case
    using Cons.IH [OF m(1) k] row m2 by (auto simp: status_key_def split: option.splits)
qed simp

lemma distinct_all_JobStatus: "distinct all_JobStatus"
  by (simp add: all_JobStatus_def)

lemma distinct_status_values: "distinct (map JobStatus_value all_JobStatus)"
  by (simp add: all_JobStatus_def)

lemma zero_fill:
  assumes "members rows"
  shows "zero_fill_status_counts rows = map (\<lambda>st. (JobStatus_value st, count_in rows st)) all_JobStatus"
proof -
  let ?d = "map (\<lambda>s. (JobStatus_value s, 0::int)) all_JobStatus"
  have z: "map_of ?d (JobStatus_value st) = Some 0" for st by (cases st) (simp_all add: all_JobStatus_def)
  have "map fst ?d = map JobStatus_value all_JobStatus" by simp
  note f = zero_fill_fold [OF assms this]
  show ?thesis unfolding zero_fill_status_counts_def
    by (rule dict_of_keys) (use f distinct_status_values in \<open>auto simp: z count_in_def split: option.splits\<close>)
qed

section \<open>What the statistics say\<close>

text \<open>
  The laws, from the documentation of \<open>XINFO GROUPS\<close> (\<open>lag\<close> counts the entries not yet delivered, or is
  unknown), of \<open>ZCARD\<close> and of SQL aggregates.
\<close>

locale info_server = backend S tbl view idle
  for S :: "('d, 'r) services" and tbl view idle +
  fixes I :: "('d, 'r) info_ops"
  assumes groups_listed:
      "xinfo_groups I s r = Reply gs \<Longrightarrow> distinct (map gi_name gs) \<and> gi_name ` set gs = {g. group_exists (view r) s g}"
    and groups_pending:
      "xinfo_groups I s r = Reply gs \<Longrightarrow> gi \<in> set gs \<Longrightarrow> gi_pending gi = int (length (in_flight (view r) s (gi_name gi)))"
    and groups_lag:
      "xinfo_groups I s r = Reply gs \<Longrightarrow> gi \<in> set gs \<Longrightarrow> gi_lag gi = Some l \<Longrightarrow>
         l = int (length (waiting (view r) s (gi_name gi)))"
    and nogroup:
      "xinfo_groups I s r = ResponseError e \<Longrightarrow> sublist ''NOGROUP'' e \<Longrightarrow> \<not> group_exists (view r) s g"
    and zcard_members: "zcard I k r = Reply n \<Longrightarrow> n = int (card (dom (zset (view r) k)))"
    and zcard_no_group: "zcard I k r = ResponseError e \<Longrightarrow> \<not> sublist ''NOGROUP'' e"
    and counts_grouped:
      "select_counts I d = Reply rows \<Longrightarrow> distinct (map fst rows) \<and>
         set rows = {(Member st, int (card (matching (\<lambda>j. status j = st) (tbl d)))) | st. matching (\<lambda>j. status j = st) (tbl d) \<noteq> {}}"
    and min_pending:
      "select_min_pending I d = Reply m \<Longrightarrow> m = (let J = matching (\<lambda>j. status j = pending) (tbl d)
         in if J = {} then None else Some (Min (created_at ` J)))"
begin

lemma counts_members: "select_counts I d = Reply rows \<Longrightarrow> members rows"
  using counts_grouped [of d rows] by (auto simp: members_def)

lemma counts_in:
  assumes "select_counts I d = Reply rows"
  shows "count_in rows st = int (card (matching (\<lambda>j. status j = st) (tbl d)))"
proof (cases "matching (\<lambda>j. status j = st) (tbl d) = {}")
  case True
  then have "map_of rows (Member st) = None"
    using counts_grouped [OF assms] by (auto simp: map_of_eq_None_iff)
  with True show ?thesis by (simp add: count_in_def)
next
  case False
  then have "map_of rows (Member st) = Some (int (card (matching (\<lambda>j. status j = st) (tbl d))))"
    using counts_grouped [OF assms] by (auto intro!: map_of_is_SomeI)
  then show ?thesis by (simp add: count_in_def)
qed

text \<open>The counts by status add up to the number of rows.\<close>

lemma counts_add_up:
  "(\<Sum>st \<leftarrow> all_JobStatus. int (card (matching (\<lambda>j. status j = st) (tbl d)))) = int (card (dom (tbl d)))"
proof -
  let ?M = "\<lambda>st. matching (\<lambda>j. status j = st) (tbl d)"
  have "dom (tbl d) = jid ` ran (tbl d)"
    by (auto simp: in_ran_tbl image_iff dest: tbl_id) (metis in_ran_tbl ranI tbl_id)
  moreover have "inj_on jid (ran (tbl d))" by (auto simp: inj_on_def in_ran_tbl)
  moreover have "ran (tbl d) = (\<Union>st. ?M st)" by (auto simp: matching_def)
  moreover have "card (\<Union>st. ?M st) = (\<Sum>st \<in> UNIV. card (?M st))"
  proof (rule card_UN_disjoint)
    show "finite (UNIV :: JobStatus set)" by (rule finite_subset [of _ "set all_JobStatus"]) auto
  qed (auto simp: finite_matching, auto simp: matching_def)
  moreover have "(UNIV :: JobStatus set) = set all_JobStatus" by auto
  ultimately show ?thesis
    by (simp add: distinct_all_JobStatus card_image sum_list_distinct_conv_sum_set)
qed

end

lemma wp_queries [wp_intros]:
  assumes "quiet w" and "\<And>w'. quiet w' \<Longrightarrow> shared w' = shared w \<Longrightarrow> Q (map (\<lambda>x. f x (rds (shared w))) xs) w'"
  shows "wp (queries f xs) Q w"
  using assms
proof (induction xs arbitrary: Q w)
  case (Cons x xs)
  show ?case unfolding queries.simps
  proof (intro wp_bind wp_redis_query Cons.prems(1), rule Cons.IH)
    fix w1 w2 assume "shared w1 = shared w" "quiet w2" "shared w2 = shared w1"
    then show "wp (return (f x (rds (shared w)) # map (\<lambda>x. f x (rds (shared w1))) xs)) Q w2"
      using Cons.prems(2) [of w2] by (simp add: wp_return)
  qed
qed (simp add: wp_return)

text \<open>Failures that the statistics do not tolerate.\<close>

definition real_error :: "'a reply \<Rightarrow> bool" where
  "real_error r \<longleftrightarrow> (case r of Reply _ \<Rightarrow> False | ResponseError e \<Rightarrow> \<not> sublist ''NOGROUP'' e | ServerError _ \<Rightarrow> True)"

definition answered :: "'a reply \<Rightarrow> bool" where
  "answered r \<longleftrightarrow> (case r of Reply _ \<Rightarrow> True | _ \<Rightarrow> False)"

definition rows_of :: "'a list reply \<Rightarrow> 'a list" where
  "rows_of r = (case r of Reply xs \<Rightarrow> xs | _ \<Rightarrow> [])"

lemma tolerate_rows: "\<not> real_error r \<Longrightarrow> tolerate_nogroup r [] = Inr (rows_of r)"
  by (cases r) (simp_all add: tolerate_nogroup_def real_error_def rows_of_def)

lemma tolerate_raises: "real_error r \<longleftrightarrow> (\<exists>e. tolerate_nogroup r x = Inl e)"
  by (cases r) (simp_all add: tolerate_nogroup_def real_error_def)

lemma all_of_Inr: "all_of xs = Inr ys \<longleftrightarrow> xs = map Inr ys"
proof (induction xs arbitrary: ys)
  case (Cons x xs)
  have "map_sum id ((#) a) r = Inr ys \<longleftrightarrow> (\<exists>zs. r = Inr zs \<and> ys = a # zs)" for a and r :: "'a + 'b list"
    by (cases r) auto
  with Cons show ?case by (auto split: sum.splits)
qed auto

lemma all_of_rows:
  "all_of (map (\<lambda>r. tolerate_nogroup r []) rs) = Inr xss \<longleftrightarrow> xss = map rows_of rs \<and> (\<forall>r \<in> set rs. \<not> real_error r)"
proof (cases "\<exists>r \<in> set rs. real_error r")
  case True
  then obtain r e where "r \<in> set rs" "tolerate_nogroup r [] = Inl e" by (auto simp: tolerate_raises [of _ "[]"])
  then have "map (\<lambda>r. tolerate_nogroup r []) rs \<noteq> map Inr xss"
    by (metis Inl_Inr_False ex_map_conv image_eqI list.set_map)
  with True show ?thesis by (auto simp: all_of_Inr)
next
  case False
  then have "map (\<lambda>r. tolerate_nogroup r []) rs = map Inr (map rows_of rs)" by (simp add: tolerate_rows)
  with False show ?thesis unfolding all_of_Inr by (auto simp: map_eq_conv inj_map_eq_map [of Inr] simp flip: map_map)
qed

lemma all_of_raises: "(\<exists>e. all_of (map (\<lambda>r. tolerate_nogroup r []) rs) = Inl e) \<longleftrightarrow> (\<exists>r \<in> set rs. real_error r)"
  using all_of_rows [of rs] by (cases "all_of (map (\<lambda>r. tolerate_nogroup r []) rs)") auto

definition queue_of :: "settings \<Rightarrow> group_info list reply list \<Rightarrow> consumer_info list reply list \<Rightarrow> int \<Rightarrow> QueueStats" where
  "queue_of cfg gs cs n = \<lparr>streams = stream_stats cfg (map rows_of gs), q_scheduled = n,
     workers = live_worker_count (map (\<lambda>r. filter (\<lambda>row. ci_name row \<noteq> REAPER_NAME) (rows_of r)) cs)
       (visibility_timeout_us cfg div 1000)\<rparr>"

lemma queue_stats_cases:
  "case queue_stats cfg gs cs z of
     Inl _ \<Rightarrow> (\<exists>r \<in> set gs. real_error r) \<or> (\<exists>r \<in> set cs. real_error r) \<or> real_error z
   | Inr q \<Rightarrow> (\<forall>r \<in> set gs. \<not> real_error r) \<and> (\<forall>r \<in> set cs. \<not> real_error r) \<and> \<not> real_error z
       \<and> (\<exists>n. tolerate_nogroup z 0 = Inr n \<and> q = queue_of cfg gs cs n)"
proof -
  have z: "real_error z \<longleftrightarrow> (\<exists>e. tolerate_nogroup z 0 = Inl e)" by (rule tolerate_raises)
  show ?thesis
    using all_of_raises [of gs] all_of_raises [of cs] all_of_rows [of gs] all_of_rows [of cs] z
    by (auto simp: queue_stats_def queue_of_def Let_def comp_def split: sum.splits)
qed

definition stats_failure :: "('d, 'r) info_ops \<Rightarrow> settings \<Rightarrow> ('d, 'r) shared \<Rightarrow> bool" where
  "stats_failure I cfg s \<longleftrightarrow> pipe_error I (rds s) \<noteq> None
     \<or> (\<exists>st \<in> set (ordered_streams cfg). real_error (xinfo_groups I st (rds s))
          \<or> real_error (xinfo_consumers I st (consumer_group cfg) (rds s)))
     \<or> real_error (zcard I (delayed_zset cfg) (rds s))
     \<or> \<not> answered (select_counts I (db s)) \<or> \<not> answered (select_min_pending I (db s))"

definition stats_match ::
  "('d, 'r) info_ops \<Rightarrow> settings \<Rightarrow> 'r \<Rightarrow> table \<Rightarrow> redis_view \<Rightarrow> timestamp \<Rightarrow> StatsResponse \<Rightarrow> bool" where
  "stats_match I cfg r t v now resp \<longleftrightarrow>
     (\<forall>p. \<exists>ss. dict_get (streams (queue resp)) (JobPriority_value p) = Some ss
        \<and> ss_in_flight ss = int (length (in_flight v (stream_for_priority cfg p) (consumer_group cfg)))
        \<and> (\<forall>d. depth ss = Some d \<longrightarrow> d = int (length (waiting v (stream_for_priority cfg p) (consumer_group cfg)))))
     \<and> q_scheduled (queue resp) = int (card (dom (zset v (delayed_zset cfg))))
     \<and> workers (queue resp) = card {ci_name row | row st. st \<in> set (ordered_streams cfg)
          \<and> row \<in> set (rows_of (xinfo_consumers I st (consumer_group cfg) r))
          \<and> ci_name row \<noteq> REAPER_NAME \<and> ci_idle row < visibility_timeout_us cfg div 1000}
     \<and> by_status (jobs resp) = map (\<lambda>st. (JobStatus_value st, int (card (matching (\<lambda>j. status j = st) t)))) all_JobStatus
     \<and> sum_list (map snd (by_status (jobs resp))) = int (card (dom t))
     \<and> oldest_pending_age (jobs resp) = (let J = matching (\<lambda>j. status j = pending) t
          in if J = {} then None else Some (now - Min (created_at ` J)))"

lemma group_named_Some: "group_named g gs = Some gi \<Longrightarrow> gi \<in> set gs \<and> gi_name gi = g"
  by (auto simp: group_named_def find_Some_iff)

lemma group_named_None: "group_named g gs = None \<longleftrightarrow> g \<notin> gi_name ` set gs"
  by (auto simp: group_named_def find_None_iff)

lemma no_group_empty: "\<not> group_exists v s g \<Longrightarrow> waiting v s g = [] \<and> in_flight v s g = []"
  by (simp add: group_exists_def waiting_def in_flight_def)

lemma map_snd_priority_streams: "map snd (priority_streams cfg) = ordered_streams cfg"
  by (simp add: priority_streams_def ordered_streams_def)

lemma stream_stats_lookup:
  "dict_get (stream_stats cfg (map f (ordered_streams cfg))) (JobPriority_value p)
     = Some (stream_stat cfg (f (stream_for_priority cfg p)))"
  by (cases p) (simp_all add: stream_stats_def priority_streams_def ordered_streams_def)

context info_server
begin

lemma stream_stat_view:
  assumes "\<not> real_error (xinfo_groups I s r)"
  shows "ss_in_flight (stream_stat cfg (rows_of (xinfo_groups I s r))) = int (length (in_flight (view r) s (consumer_group cfg)))
    \<and> (\<forall>d. depth (stream_stat cfg (rows_of (xinfo_groups I s r))) = Some d \<longrightarrow>
         d = int (length (waiting (view r) s (consumer_group cfg))))"
proof (cases "group_named (consumer_group cfg) (rows_of (xinfo_groups I s r))")
  case None
  have "\<not> group_exists (view r) s (consumer_group cfg)"
  proof (cases "xinfo_groups I s r")
    case (Reply gs)
    with None show ?thesis using groups_listed [OF Reply] by (auto simp: rows_of_def group_named_None)
  next
    case (ResponseError e)
    with assms show ?thesis using nogroup [OF ResponseError] by (simp add: real_error_def)
  qed (use assms in \<open>simp add: real_error_def\<close>)
  with None show ?thesis by (simp add: stream_stat_def no_group_empty)
next
  case (Some gi)
  then obtain gs where gs: "xinfo_groups I s r = Reply gs" "gi \<in> set gs" "gi_name gi = consumer_group cfg"
    using group_named_Some [OF Some] by (cases "xinfo_groups I s r") (auto simp: rows_of_def)
  with Some show ?thesis
    using groups_pending [OF gs(1,2)] groups_lag [OF gs(1,2)] by (simp add: stream_stat_def)
qed

lemma queue_of_match:
  assumes "\<forall>st \<in> set (ordered_streams cfg). \<not> real_error (xinfo_groups I st r)"
    and "\<not> real_error (zcard I (delayed_zset cfg) r)" and "tolerate_nogroup (zcard I (delayed_zset cfg) r) 0 = Inr n"
    and "q = queue_of cfg (map (\<lambda>st. xinfo_groups I st r) (ordered_streams cfg))
      (map (\<lambda>st. xinfo_consumers I st (consumer_group cfg) r) (ordered_streams cfg)) n"
    and "select_counts I d = Reply rows" and "select_min_pending I d = Reply m"
  shows "stats_match I cfg r (tbl d) (view r) now \<lparr>queue = q, jobs = \<lparr>by_status = zero_fill_status_counts rows,
      oldest_pending_age = pending_age_seconds m now\<rparr>\<rparr>"
proof -
  have z: "n = int (card (dom (zset (view r) (delayed_zset cfg))))"
    using assms(2,3) zcard_members [of "delayed_zset cfg" r] zcard_no_group [of "delayed_zset cfg" r]
    by (cases "zcard I (delayed_zset cfg) r") (auto simp: tolerate_nogroup_def real_error_def)
  have filled: "zero_fill_status_counts rows =
      map (\<lambda>st. (JobStatus_value st, int (card (matching (\<lambda>j. status j = st) (tbl d))))) all_JobStatus"
    by (simp add: zero_fill [OF counts_members [OF assms(5)]] counts_in [OF assms(5)])
  have streams: "dict_get (streams q) (JobPriority_value p) =
      Some (stream_stat cfg (rows_of (xinfo_groups I (stream_for_priority cfg p) r)))" for p
    by (simp add: assms(4) queue_of_def comp_def stream_stats_lookup)
  have sched: "q_scheduled q = n" by (simp add: assms(4) queue_of_def)
  have workers: "workers q = card {ci_name row | row st. st \<in> set (ordered_streams cfg)
          \<and> row \<in> set (rows_of (xinfo_consumers I st (consumer_group cfg) r))
          \<and> ci_name row \<noteq> REAPER_NAME \<and> ci_idle row < visibility_timeout_us cfg div 1000}"
    unfolding assms(4) queue_of_def QueueStats.simps live_workers
    by (rule arg_cong [of _ _ card]) auto
  show ?thesis
    unfolding stats_match_def StatsResponse.simps JobStats.simps filled
  proof (intro conjI allI)
    fix p show "\<exists>ss. dict_get (streams q) (JobPriority_value p) = Some ss
        \<and> ss_in_flight ss = int (length (in_flight (view r) (stream_for_priority cfg p) (consumer_group cfg)))
        \<and> (\<forall>d. depth ss = Some d \<longrightarrow> d = int (length (waiting (view r) (stream_for_priority cfg p) (consumer_group cfg))))"
      using streams [of p] stream_stat_view [of "stream_for_priority cfg p" r cfg] assms(1) by simp
  qed (simp_all add: workers sched z comp_def counts_add_up
      pending_age_seconds_def min_pending [OF assms(6)] Let_def)
qed

lemma lag_reported:
  assumes "group_named (consumer_group cfg) (rows_of (xinfo_groups I s r)) = Some g" and "gi_lag g = Some l"
  shows "l = int (length (waiting (view r) s (consumer_group cfg)))"
  using groups_lag [of s r _ g l] group_named_Some [OF assms(1)] assms(2)
  by (cases "xinfo_groups I s r") (auto simp: rows_of_def)

lemma wp_gather_jobs:
  assumes "quiet w"
    and "\<And>rows m w'. quiet w' \<Longrightarrow> shared w' = shared w \<Longrightarrow> select_counts I (db (shared w)) = Reply rows \<Longrightarrow>
      select_min_pending I (db (shared w)) = Reply m \<Longrightarrow>
      Q (Inr \<lparr>by_status = zero_fill_status_counts rows, oldest_pending_age = pending_age_seconds m (clock (shared w))\<rparr>) w'"
    and "\<And>e w'. quiet w' \<Longrightarrow> shared w' = shared w \<Longrightarrow>
      \<not> answered (select_counts I (db (shared w))) \<or> \<not> answered (select_min_pending I (db (shared w))) \<Longrightarrow> Q (Inl e) w'"
  shows "wp (gather_jobs I) Q w"
  unfolding gather_jobs_def
  by (intro wp_bind wp_sql_query assms(1) wp_case_sum wp_return wp_utc_now)
    (auto simp: raised_def answered_def intro!: assms(2,3) split: reply.splits)

end

text \<open>The reference backend answers these queries too.\<close>

definition ref_group_names :: "string \<Rightarrow> ref_redis \<Rightarrow> string list" where
  "ref_group_names s r = remdups (map (snd \<circ> fst) (filter (\<lambda>p. fst (fst p) = s) (readers r)))"

definition ref_info :: "(job list, ref_redis) info_ops" where
  "ref_info = \<lparr>
     xinfo_groups = (\<lambda>s r. Reply (map (\<lambda>g. \<lparr>gi_name = g,
        gi_lag = Some (int (length (waiting (ref_view r) s g))),
        gi_pending = int (length (in_flight (ref_view r) s g))\<rparr>) (ref_group_names s (ref_norm r)))),
     xinfo_consumers = (\<lambda>s g r. if g \<in> set (ref_group_names s (ref_norm r))
        then Reply [\<lparr>ci_name = ''worker-1'', ci_idle = 10\<rparr>, \<lparr>ci_name = REAPER_NAME, ci_idle = 5\<rparr>]
        else ResponseError ''NOGROUP No such consumer group''),
     zcard = (\<lambda>k r. Reply (int (length (remdups (map (snd \<circ> fst) (filter (\<lambda>p. fst (fst p) = k) (scores (ref_norm r)))))))),
     pipe_error = (\<lambda>r. None), redis_ping = (\<lambda>r. Reply ()), select_1 = (\<lambda>d. Reply ()),
     select_counts = (\<lambda>d. Reply (map (\<lambda>st. (Member st, int (length (filter (\<lambda>j. status j = st) (ref_rows d)))))
        (filter (\<lambda>st. list_ex (\<lambda>j. status j = st) (ref_rows d)) all_JobStatus))),
     select_min_pending = (\<lambda>d. Reply (case map created_at (filter (\<lambda>j. status j = pending) (ref_rows d)) of
        [] \<Rightarrow> None | c # cs \<Rightarrow> Some (fold min cs c))) \<rparr>"

lemma ref_group_names: "set (ref_group_names s r) = {g. map_of (readers r) (s, g) \<noteq> None}"
  by (force simp: ref_group_names_def map_of_eq_None_iff image_iff)

lemma card_rows: "card (matching g (ref_tbl d)) = length (filter g (ref_rows d))"
  unfolding ref_matching by (intro distinct_card distinct_filter distinct_rows)

lemma rows_empty: "matching g (ref_tbl d) \<noteq> {} \<longleftrightarrow> list_ex g (ref_rows d)"
  by (auto simp: ref_matching list_ex_iff)

lemma dom_scores: "dom (zset (ref_view r) k) = set (map (snd \<circ> fst) (filter (\<lambda>p. fst (fst p) = k) (scores (ref_norm r))))"
  by (force simp: ref_view_def ref_raw_view_def dom_map_of_conv_image_fst dom_def map_of_eq_None_iff image_iff
      simp del: not_None_eq)

lemma ref_info_server: "info_server ref_services ref_tbl ref_view ref_idle ref_info"
proof (intro info_server.intro ref_backend info_server_axioms.intro)
  fix s g k n r gs gi l e d rows m
  show "xinfo_groups ref_info s r = Reply gs \<Longrightarrow> distinct (map gi_name gs) \<and> gi_name ` set gs = {g. group_exists (ref_view r) s g}"
    by (auto simp: ref_info_def comp_def ref_group_names ref_view_simps image_image) (simp add: ref_group_names_def)
  show "xinfo_groups ref_info s r = Reply gs \<Longrightarrow> gi \<in> set gs \<Longrightarrow>
      gi_pending gi = int (length (in_flight (ref_view r) s (gi_name gi)))"
    by (auto simp: ref_info_def)
  show "xinfo_groups ref_info s r = Reply gs \<Longrightarrow> gi \<in> set gs \<Longrightarrow> gi_lag gi = Some l \<Longrightarrow>
      l = int (length (waiting (ref_view r) s (gi_name gi)))"
    by (auto simp: ref_info_def)
  show "zcard ref_info k r = Reply n \<Longrightarrow> n = int (card (dom (zset (ref_view r) k)))"
    unfolding dom_scores by (auto simp: ref_info_def length_remdups_card_conv simp del: set_map)
  show "select_counts ref_info d = Reply rows \<Longrightarrow> distinct (map fst rows) \<and>
      set rows = {(Member st, int (card (matching (\<lambda>j. status j = st) (ref_tbl d)))) |st.
        matching (\<lambda>j. status j = st) (ref_tbl d) \<noteq> {}}"
    unfolding card_rows rows_empty
    by (auto simp: ref_info_def comp_def distinct_map inj_on_def distinct_all_JobStatus)
  show "select_min_pending ref_info d = Reply m \<Longrightarrow> m = (let J = matching (\<lambda>j. status j = pending) (ref_tbl d)
      in if J = {} then None else Some (Min (created_at ` J)))"
    unfolding ref_matching Let_def set_map [symmetric]
    by (cases "map created_at (filter (\<lambda>j. status j = pending) (ref_rows d))")
      (auto simp: ref_info_def Min.set_eq_fold simp del: set_map set_filter list.set(2))
qed (auto simp: ref_info_def)

interpretation ref_info: info_server ref_services ref_tbl ref_view ref_idle ref_info
  by (rule ref_info_server)

context info_server
begin

lemma queue_stats_fails:
  assumes "queue_stats cfg (map (\<lambda>st. xinfo_groups I st (rds s)) (ordered_streams cfg))
      (map (\<lambda>st. xinfo_consumers I st (consumer_group cfg) (rds s)) (ordered_streams cfg))
      (zcard I (delayed_zset cfg) (rds s)) = Inl e"
  shows "stats_failure I cfg s"
  using queue_stats_cases [where cfg = cfg and gs = "map (\<lambda>st. xinfo_groups I st (rds s)) (ordered_streams cfg)"
      and cs = "map (\<lambda>st. xinfo_consumers I st (consumer_group cfg) (rds s)) (ordered_streams cfg)"
      and z = "zcard I (delayed_zset cfg) (rds s)"] assms
  by (auto simp: stats_failure_def)

lemma queue_stats_matches:
  assumes "queue_stats cfg (map (\<lambda>st. xinfo_groups I st (rds s)) (ordered_streams cfg))
      (map (\<lambda>st. xinfo_consumers I st (consumer_group cfg) (rds s)) (ordered_streams cfg))
      (zcard I (delayed_zset cfg) (rds s)) = Inr q"
    and "pipe_error I (rds s) = None" and "select_counts I (db s) = Reply rows" and "select_min_pending I (db s) = Reply m"
  shows "\<not> stats_failure I cfg s \<and> stats_match I cfg (rds s) (tbl (db s)) (view (rds s)) now
     \<lparr>queue = q, jobs = \<lparr>by_status = zero_fill_status_counts rows, oldest_pending_age = pending_age_seconds m now\<rparr>\<rparr>"
proof
  note q = queue_stats_cases [where cfg = cfg and gs = "map (\<lambda>st. xinfo_groups I st (rds s)) (ordered_streams cfg)"
      and cs = "map (\<lambda>st. xinfo_consumers I st (consumer_group cfg) (rds s)) (ordered_streams cfg)"
      and z = "zcard I (delayed_zset cfg) (rds s)", unfolded assms(1) sum.case]
  from q assms(2-4) show "\<not> stats_failure I cfg s" by (auto simp: stats_failure_def answered_def)
  from q obtain n where "tolerate_nogroup (zcard I (delayed_zset cfg) (rds s)) 0 = Inr n"
    "q = queue_of cfg (map (\<lambda>st. xinfo_groups I st (rds s)) (ordered_streams cfg))
      (map (\<lambda>st. xinfo_consumers I st (consumer_group cfg) (rds s)) (ordered_streams cfg)) n" by blast
  with q show "stats_match I cfg (rds s) (tbl (db s)) (view (rds s)) now
     \<lparr>queue = q, jobs = \<lparr>by_status = zero_fill_status_counts rows, oldest_pending_age = pending_age_seconds m now\<rparr>\<rparr>"
    by (intro queue_of_match assms(3,4)) auto
qed

lemma wp_gather_stats:
  assumes "quiet w"
    and fails: "\<And>e w'. stats_failure I cfg (shared w) \<Longrightarrow> Q (Inl e) w'"
    and answers: "\<And>resp w'. \<not> stats_failure I cfg (shared w) \<Longrightarrow>
      stats_match I cfg (rds (shared w)) (tbl (db (shared w))) (view (rds (shared w))) (clock (shared w)) resp \<Longrightarrow> Q (Inr resp) w'"
  shows "wp (gather_stats I cfg) Q w"
proof -
  have rest: "wp (gather_jobs I \<bind> case_sum (\<lambda>e. return (Inl e)) (\<lambda>j. return (Inr \<lparr>queue = q, jobs = j\<rparr>))) Q w'"
    if "quiet w'" "shared w' = shared w" "pipe_error I (rds (shared w)) = None"
      "queue_stats cfg (map (\<lambda>st. xinfo_groups I st (rds (shared w))) (ordered_streams cfg))
        (map (\<lambda>st. xinfo_consumers I st (consumer_group cfg) (rds (shared w))) (ordered_streams cfg))
        (zcard I (delayed_zset cfg) (rds (shared w))) = Inr q" for q w'
    using that(2) by (intro wp_bind wp_gather_jobs that(1))
      (auto intro!: wp_return fails answers simp: stats_failure_def queue_stats_matches [OF that(4,3)] dest: queue_stats_matches [OF that(4,3)])
  show ?thesis
    unfolding gather_stats_def Let_def map_snd_priority_streams
  proof (rule wp_bind wp_queries wp_redis_query assms(1) | assumption)+
    fix w1 w2 w3 w4
    assume w: "quiet w4" "shared w1 = shared w" "shared w2 = shared w1" "shared w3 = shared w2" "shared w4 = shared w3"
    show "wp (case pipe_error I (rds (shared w3)) of None \<Rightarrow>
        (case queue_stats cfg (map (\<lambda>x. xinfo_groups I x (rds (shared w))) (ordered_streams cfg))
           (map (\<lambda>x. xinfo_consumers I x (consumer_group cfg) (rds (shared w1))) (ordered_streams cfg))
           (zcard I (delayed_zset cfg) (rds (shared w2))) of
           Inl e \<Rightarrow> return (Inl e)
         | Inr q \<Rightarrow> gather_jobs I \<bind> case_sum (\<lambda>e. return (Inl e)) (\<lambda>j. return (Inr \<lparr>queue = q, jobs = j\<rparr>)))
        | Some e \<Rightarrow> return (Inl e)) Q w4"
      using w by (auto intro!: wp_case_option wp_case_sum rest wp_return fails intro: queue_stats_fails simp: stats_failure_def)
  qed
qed

end

section \<open>Properties\<close>

text \<open>
  C34 (stats_outcomes). The statistics of an undisturbed request are either complete and true, or refused
  with 503, and the latter happens exactly when a command failed for another reason than a missing
  group. True means: per priority the messages in flight are those of the pending list and a known depth
  is the number of undelivered entries; the scheduled count is the size of the delayed set; the workers
  are the consumers other than the reaper that were active on some stream within the visibility
  timeout; every status is listed with the number of its rows, and these add up to the table; the age is
  that of the oldest pending row.
\<close>

theorem stats_outcomes:
  assumes "info_server S tbl view idle I" and "quiet w"
  shows "case fst (run_state (stats I cfg) w) of
     Inl e \<Rightarrow> e = HTTPException 503 ''stats unavailable'' \<and> stats_failure I cfg (shared w)
   | Inr (code, resp) \<Rightarrow> code = 200 \<and> \<not> stats_failure I cfg (shared w)
       \<and> stats_match I cfg (rds (shared w)) (tbl (db (shared w))) (view (rds (shared w))) (clock (shared w)) resp"
proof -
  have "wp (stats I cfg) (\<lambda>x _. case x of
     Inl e \<Rightarrow> e = HTTPException 503 ''stats unavailable'' \<and> stats_failure I cfg (shared w)
   | Inr (code, resp) \<Rightarrow> code = 200 \<and> \<not> stats_failure I cfg (shared w)
       \<and> stats_match I cfg (rds (shared w)) (tbl (db (shared w))) (view (rds (shared w))) (clock (shared w)) resp) w"
    unfolding stats_def
    by (rule wp_bind, rule info_server.wp_gather_stats [OF assms]) (auto intro!: wp_return)
  then show ?thesis by (simp add: wp_def split_beta)
qed

text \<open>The reference backend with one pending job.\<close>

theorem stats_outcomes_witness:
  "case fst (run_state (stats ref_info sample_cfg) (sample_world [sample_job pending])) of
     Inl e \<Rightarrow> False
   | Inr (code, resp) \<Rightarrow> code = 200 \<and> sum_list (map snd (by_status (jobs resp))) = 1
       \<and> oldest_pending_age (jobs resp) = Some 1000000000"
proof -
  let ?w = "sample_world [sample_job pending]"
  have J: "matching (\<lambda>j. status j = pending) (ref_tbl [sample_job pending]) = {sample_job pending}"
    by (simp add: ref_matching)
  have D: "dom (ref_tbl [sample_job pending]) = {7}" by (auto simp: ref_tbl_def)
  have "\<not> stats_failure ref_info sample_cfg (shared ?w)"
    by (auto simp: stats_failure_def ref_info_def real_error_def answered_def)
  then show ?thesis
    using stats_outcomes [OF ref_info_server, of ?w sample_cfg]
    by (auto simp: stats_match_def J D Let_def split: sum.splits prod.splits)
qed

subsection \<open>Gauges\<close>

definition depth_report :: "('d, 'r) info_ops \<Rightarrow> settings \<Rightarrow> 'r \<Rightarrow> JobPriority \<times> string \<Rightarrow> observation list" where
  "depth_report I cfg r = (\<lambda>(p, s). case group_named (consumer_group cfg) (rows_of (xinfo_groups I s r)) of
     None \<Rightarrow> []
   | Some g \<Rightarrow> (case gi_lag g of None \<Rightarrow> [] | Some l \<Rightarrow> [(l, [(''stream'', JobPriority_value p)])]))"

definition unreachable :: "'a reply \<Rightarrow> bool" where
  "unreachable r \<longleftrightarrow> (case r of ServerError _ \<Rightarrow> True | _ \<Rightarrow> False)"

lemma unreachable_simps [simp]:
  "\<not> unreachable (Reply x)" "\<not> unreachable (ResponseError e)" "unreachable (ServerError e)"
  by (simp_all add: unreachable_def)

lemma wp_depth_loop:
  assumes "quiet w" and "\<And>w'. Q (if \<exists>(p, s) \<in> set ps. unreachable (xinfo_groups I s (rds (shared w))) then []
      else out @ concat (map (depth_report I cfg (rds (shared w))) ps)) w'"
  shows "wp (depth_loop I cfg ps out) Q w"
  using assms
proof (induction ps arbitrary: out w)
  case (Cons ps' ps)
  obtain p s where ps': "ps' = (p, s)" by fastforce
  show ?case unfolding ps' depth_loop.simps
  proof (intro wp_bind wp_redis_query Cons.prems(1))
    fix w1 assume w1: "quiet w1" "shared w1 = shared w"
    show "wp (case xinfo_groups I s (rds (shared w)) of
        Reply gs \<Rightarrow> depth_loop I cfg ps (case group_named (consumer_group cfg) gs of None \<Rightarrow> out
          | Some g \<Rightarrow> (case gi_lag g of None \<Rightarrow> out | Some l \<Rightarrow> out @ [(l, [(''stream'', JobPriority_value p)])]))
      | ResponseError _ \<Rightarrow> depth_loop I cfg ps out | ServerError _ \<Rightarrow> return []) Q w1"
    proof (cases "xinfo_groups I s (rds (shared w))")
      case (Reply gs)
      have "(case group_named (consumer_group cfg) gs of None \<Rightarrow> out
          | Some g \<Rightarrow> (case gi_lag g of None \<Rightarrow> out | Some l \<Rightarrow> out @ [(l, [(''stream'', JobPriority_value p)])]))
        = out @ depth_report I cfg (rds (shared w)) (p, s)"
        by (simp add: depth_report_def Reply rows_of_def split: option.splits)
      then show ?thesis unfolding Reply reply.case
        by (simp only:) (rule Cons.IH [OF w1(1)], use Cons.prems(2) in \<open>simp add: Reply w1(2) ps' cong: if_cong split del: if_split\<close>)
    next
      case (ResponseError e)
      moreover have "depth_report I cfg (rds (shared w)) (p, s) = []"
        by (simp add: depth_report_def ResponseError rows_of_def group_named_def)
      ultimately show ?thesis
        by simp (rule Cons.IH [OF w1(1)], use Cons.prems(2) in \<open>simp add: ResponseError w1(2) ps' cong: if_cong split del: if_split\<close>)
    next
      case (ServerError e)
      then show ?thesis using Cons.prems(2) by (simp add: ps' wp_return)
    qed
  qed
qed (auto intro: wp_return)

lemma priority_stream_of: "(p, s) \<in> set (priority_streams cfg) \<Longrightarrow> s = stream_for_priority cfg p"
  by (auto simp: priority_streams_def)

context info_server
begin

lemma depth_report_true:
  assumes "(l, attrs) \<in> set (depth_report I cfg r (p, s))"
  shows "attrs = [(''stream'', JobPriority_value p)] \<and> l = int (length (waiting (view r) s (consumer_group cfg)))"
proof (cases "group_named (consumer_group cfg) (rows_of (xinfo_groups I s r))")
  case (Some g)
  with assms show ?thesis
    using lag_reported [OF Some] by (cases "gi_lag g") (auto simp: depth_report_def)
qed (use assms in \<open>simp add: depth_report_def\<close>)

end

text \<open>
  The gauge callbacks of the ticker always return, and on an undisturbed run report
  the truth or nothing: every reported depth is the number of undelivered entries of the stream of that
  priority; the number of scheduled jobs is the size of the delayed set; and the jobs by status are the
  row counts of all six statuses, as the statistics route reports them.
\<close>

lemma gauges_agree:
  assumes "info_server S tbl view idle I" and "quiet w"
  shows "(\<forall>(l, attrs) \<in> set (fst (run_state (queue_depth_observations I cfg) w)).
       \<exists>p. attrs = [(''stream'', JobPriority_value p)]
         \<and> l = int (length (waiting (view (rds (shared w))) (stream_for_priority cfg p) (consumer_group cfg))))
   \<and> (case zcard I (delayed_zset cfg) (rds (shared w)) of
       Reply n \<Rightarrow> fst (run_state (queue_scheduled_observations I cfg) w)
          = [(int (card (dom (zset (view (rds (shared w))) (delayed_zset cfg)))), [])]
     | _ \<Rightarrow> fst (run_state (queue_scheduled_observations I cfg) w) = [])
   \<and> (case select_counts I (db (shared w)) of
       Reply rows \<Rightarrow> fst (run_state (job_status_observations I) w)
          = map (\<lambda>st. (int (card (matching (\<lambda>j. status j = st) (tbl (db (shared w))))),
                       [(''status'', JobStatus_value st)])) all_JobStatus
     | _ \<Rightarrow> fst (run_state (job_status_observations I) w) = [])"
proof (intro conjI)
  have "wp (queue_depth_observations I cfg) (\<lambda>obs _. \<forall>(l, attrs) \<in> set obs.
      \<exists>p. attrs = [(''stream'', JobPriority_value p)]
        \<and> l = int (length (waiting (view (rds (shared w))) (stream_for_priority cfg p) (consumer_group cfg)))) w"
    unfolding queue_depth_observations_def
    by (rule wp_depth_loop [OF assms(2)])
      (auto dest!: info_server.depth_report_true [OF assms(1)] priority_stream_of)
  then show "\<forall>(l, attrs) \<in> set (fst (run_state (queue_depth_observations I cfg) w)).
       \<exists>p. attrs = [(''stream'', JobPriority_value p)]
         \<and> l = int (length (waiting (view (rds (shared w))) (stream_for_priority cfg p) (consumer_group cfg)))"
    by (simp add: wp_def split_beta)
  show "case zcard I (delayed_zset cfg) (rds (shared w)) of
       Reply n \<Rightarrow> fst (run_state (queue_scheduled_observations I cfg) w)
          = [(int (card (dom (zset (view (rds (shared w))) (delayed_zset cfg)))), [])]
     | _ \<Rightarrow> fst (run_state (queue_scheduled_observations I cfg) w) = []"
    using info_server.zcard_members [OF assms(1), of "delayed_zset cfg" "rds (shared w)"] assms(2)
    by (auto simp: queue_scheduled_observations_def run_simps redis_query_def run_atomically raised_def split: reply.splits)
  show "case select_counts I (db (shared w)) of
       Reply rows \<Rightarrow> fst (run_state (job_status_observations I) w)
          = map (\<lambda>st. (int (card (matching (\<lambda>j. status j = st) (tbl (db (shared w))))),
                       [(''status'', JobStatus_value st)])) all_JobStatus
     | _ \<Rightarrow> fst (run_state (job_status_observations I) w) = []"
    using assms(2) info_server.counts_members [OF assms(1), of "db (shared w)"] info_server.counts_in [OF assms(1), of "db (shared w)"]
    by (auto simp: job_status_observations_def run_simps sql_query_def run_atomically raised_def zero_fill split: reply.splits)
qed

end
