(* ===== verification/Health.thy ===== *)
theory Health
  imports Worker Observability
begin

text \<open>
  \<open>app/core/healthcheck.py\<close>: the heartbeat of the worker and ticker loops, the thresholds, and the two
  endpoints of the health server, and its start and stop as far as the code does them itself. Times are
  microseconds of the monotonic clock. What the socket and uvicorn answer are arguments.
\<close>

section \<open>Definitions\<close>

definition worker_heartbeat_threshold_s :: "settings \<Rightarrow> int" where
  "worker_heartbeat_threshold_s cfg = block_ms cfg * 1000 + job_handler_timeout_us cfg + 10 * second"

definition ticker_heartbeat_threshold_s :: "settings \<Rightarrow> int" where
  "ticker_heartbeat_threshold_s cfg = max (10 * second) (5 * ticker_interval_us cfg)"

record heartbeat =
  last_beat :: timestamp

definition Heartbeat :: "timestamp \<Rightarrow> heartbeat" where
  "Heartbeat monotonic = \<lparr>last_beat = monotonic\<rparr>"

definition beat :: "timestamp \<Rightarrow> heartbeat \<Rightarrow> heartbeat" where
  "beat monotonic hb = hb\<lparr>last_beat := monotonic\<rparr>"

definition age_seconds :: "timestamp \<Rightarrow> heartbeat \<Rightarrow> int" where
  "age_seconds monotonic hb = monotonic - last_beat hb"

text \<open>The format \<open>.0f\<close> of a number of seconds: to the nearest integer, a half to the even one.\<close>

definition format_0f :: "int \<Rightarrow> string" where
  "format_0f us = py_str_int (let q = us div second; r = us mod second in
     if 2 * r > second \<or> (2 * r = second \<and> odd q) then q + 1 else q)"

definition health :: "heartbeat \<Rightarrow> int \<Rightarrow> timestamp \<Rightarrow> nat \<times> HealthResponse" where
  "health hb max_age monotonic = (let age = age_seconds monotonic hb in
     if age \<le> max_age then (200, \<lparr>health_status = ''ok'', checks = [(''loop'', ''ok'')]\<rparr>)
     else (503, \<lparr>health_status = ''unavailable'',
       checks = [(''loop'', ''stale ('' @ format_0f age @ ''s > '' @ format_0f max_age @ ''s)'')]\<rparr>))"

text \<open>
  The probes of \<open>/ready\<close>: the database probe fails with any exception; the Redis probe answers after some
  time, is given up after two seconds, and its errors are caught when they are Redis errors.
\<close>

definition REDIS_PROBE_TIMEOUT :: int where
  "REDIS_PROBE_TIMEOUT = 2 * second"

datatype probe = ProbeOk | ProbeRedisError | ProbeOtherError

definition redis_probe :: "int \<Rightarrow> probe \<Rightarrow> string option" where
  "redis_probe latency p = (if latency > REDIS_PROBE_TIMEOUT then Some ''error''
     else case p of ProbeOk \<Rightarrow> Some ''ok'' | ProbeRedisError \<Rightarrow> Some ''error'' | ProbeOtherError \<Rightarrow> None)"

text \<open>\<open>None\<close> as the answer is an exception that leaves the handler.\<close>

definition health_ready :: "bool option \<Rightarrow> bool \<Rightarrow> int \<Rightarrow> probe \<Rightarrow> (nat \<times> HealthResponse) option" where
  "health_ready draining db_ok latency ping = (
     if draining = Some True
     then Some (503, \<lparr>health_status = ''draining'', checks = [(''draining'', ''true'')]\<rparr>)
     else
       let cs = dict_set [] ''postgres'' (if db_ok then ''ok'' else ''error'')
       in case redis_probe latency ping of
         None \<Rightarrow> None
       | Some r \<Rightarrow>
           let cs = dict_set cs ''redis'' r; ok = list_all (\<lambda>v. v = ''ok'') (map snd cs)
           in Some (if ok then 200 else 503, \<lparr>health_status = (if ok then ''ok'' else ''unavailable''), checks = cs\<rparr>))"

section \<open>Starting and stopping the server\<close>

text \<open>
  \<open>HealthServer.start\<close> binds the socket itself and then waits for the server task. What \<open>bind\<close> answers and
  what the loop sees each time it looks (whether the server has started, and how its task stands) are
  arguments; the result is \<open>None\<close> while the loop has not ended.
\<close>

datatype start_error = OSError string | RuntimeError string | TaskError string

record server_socket =
  reuse_addr :: bool
  backlog :: "nat option"
  non_blocking :: bool
  closed :: bool

definition LISTEN_BACKLOG :: nat where
  "LISTEN_BACKLOG = 100"

datatype task_state = Running | Ended "start_error + unit"

fun wait_started :: "nat \<Rightarrow> (nat \<Rightarrow> bool \<times> task_state) \<Rightarrow> nat \<Rightarrow> (start_error + unit) option" where
  "wait_started 0 look k = None"
| "wait_started (Suc fuel) look k = (case look k of (up, task) \<Rightarrow>
     if up then Some (Inr ())
     else case task of
       Ended (Inl e) \<Rightarrow> Some (Inl e)
     | Ended (Inr _) \<Rightarrow> Some (Inl (RuntimeError ''health server exited before startup''))
     | Running \<Rightarrow> wait_started fuel look (Suc k))"

definition HealthServer_start ::
  "bool \<Rightarrow> start_error + int \<Rightarrow> nat \<Rightarrow> (nat \<Rightarrow> bool \<times> task_state) \<Rightarrow> (start_error + int) option \<times> server_socket" where
  "HealthServer_start win32 bind_answer fuel look = (
     let sock = \<lparr>reuse_addr = False, backlog = None, non_blocking = False, closed = False\<rparr>;
         sock = (if \<not> win32 then sock\<lparr>reuse_addr := True\<rparr> else sock)
     in case bind_answer of
          Inl e \<Rightarrow> (Some (Inl e), sock\<lparr>closed := True\<rparr>)
        | Inr port \<Rightarrow>
            let sock = sock\<lparr>backlog := Some LISTEN_BACKLOG, non_blocking := True\<rparr>
            in (case wait_started fuel look 0 of
                  None \<Rightarrow> None
                | Some (Inl e) \<Rightarrow> Some (Inl e)
                | Some (Inr _) \<Rightarrow> Some (Inr port), sock))"

text \<open>\<open>HealthServer.stop\<close>: the exit is requested; the answer is what awaiting the task gives.\<close>

definition HealthServer_stop :: "(start_error + unit) option \<Rightarrow> bool \<times> (start_error + unit)" where
  "HealthServer_stop task = (True, case task of Some r \<Rightarrow> r | None \<Rightarrow> Inr ())"

lemma wait_started_ends:
  assumes "fst (look (k + d)) \<or> snd (look (k + d)) \<noteq> Running" and "\<forall>i < d. look (k + i) = (False, Running)" and "d < fuel"
  shows "wait_started fuel look k = Some (if fst (look (k + d)) then Inr () else
     case snd (look (k + d)) of Ended (Inl e) \<Rightarrow> Inl e | _ \<Rightarrow> Inl (RuntimeError ''health server exited before startup''))"
  using assms
proof (induction d arbitrary: fuel k)
  case 0
  then show ?case by (cases fuel) (auto split: task_state.splits sum.splits prod.splits)
next
  case (Suc d)
  then obtain f where f: "fuel = Suc f" "d < f" by (cases fuel) auto
  have "look k = (False, Running)" using Suc.prems(2) by (metis add.right_neutral zero_less_Suc)
  moreover have "\<forall>i < d. look (Suc k + i) = (False, Running)" using Suc.prems(2) by (metis Suc_less_eq add_Suc_shift)
  ultimately show ?case using Suc.IH [of "Suc k" f] Suc.prems(1) f by simp
qed

text \<open>
  A port that is taken raises out of \<open>start\<close> with the socket closed; otherwise \<open>start\<close> ends as soon as the
  server is up or its task has ended, and it returns only when the server is up.
\<close>

lemma start_outcomes:
  "HealthServer_start win32 (Inl e) fuel look = (Some (Inl e), \<lparr>reuse_addr = \<not> win32, backlog = None, non_blocking = False, closed = True\<rparr>)"
  "fst (look d) \<or> snd (look d) \<noteq> Running \<Longrightarrow> \<forall>i < d. look i = (False, Running) \<Longrightarrow> d < fuel \<Longrightarrow>
     fst (HealthServer_start win32 (Inr port) fuel look) = Some (if fst (look d) then Inr port else
       case snd (look d) of Ended (Inl e) \<Rightarrow> Inl e | _ \<Rightarrow> Inl (RuntimeError ''health server exited before startup''))
     \<and> \<not> closed (snd (HealthServer_start win32 (Inr port) fuel look))"
  using wait_started_ends [of look 0 d fuel] by (auto simp: HealthServer_start_def Let_def split: task_state.split sum.split)

section \<open>How long a program takes\<close>

text \<open>
  \<open>paced C m\<close>: an undisturbed run of \<open>m\<close> moves the clock only as \<open>C\<close> allows. The rules hold for every
  reflexive and transitive \<open>C\<close>; two are used: equality, for programs that let no time pass, and the
  relation that is always true.
\<close>

named_theorems pace_intros

definition paced :: "(timestamp \<Rightarrow> timestamp \<Rightarrow> bool) \<Rightarrow> ('d, 'r, 'a) io \<Rightarrow> bool" where
  "paced C m \<longleftrightarrow> (\<forall>w. quiet w \<longrightarrow> quiet (snd (run_state m w)) \<and> C (clock (shared w)) (clock (shared (snd (run_state m w)))))"

lemma wp_paced:
  assumes "paced C m" and "quiet w" and "\<And>a w'. quiet w' \<Longrightarrow> C (clock (shared w)) (clock (shared w')) \<Longrightarrow> Q a w'"
  shows "wp m Q w"
  using assms by (auto simp: paced_def wp_def split: prod.splits)

locale pace =
  fixes C :: "timestamp \<Rightarrow> timestamp \<Rightarrow> bool"
  assumes same: "C t t"
    and onwards: "C t u \<Longrightarrow> C u v \<Longrightarrow> C t v"
begin

lemma paced_primitives [pace_intros]:
  "paced C (return a)" "paced C utc_now" "paced C (sql_step f)" "paced C (sql_query q)"
  "paced C (redis_step h)" "paced C (redis_query k)"
  by (auto simp: paced_def same sql_step_def sql_query_def redis_step_def redis_query_def run_atomically
      run_simps quiet_def Let_def)

lemma paced_bind [pace_intros]: "paced C m \<Longrightarrow> (\<And>a. paced C (f a)) \<Longrightarrow> paced C (m \<bind> f)"
  unfolding paced_def run_state_bind by (auto simp: split_beta intro: onwards)

lemma paced_cases [pace_intros]:
  "(b \<Longrightarrow> paced C m) \<Longrightarrow> (\<not> b \<Longrightarrow> paced C n) \<Longrightarrow> paced C (if b then m else n)"
  "(x = None \<Longrightarrow> paced C m) \<Longrightarrow> (\<And>y. x = Some y \<Longrightarrow> paced C (f y)) \<Longrightarrow> paced C (case x of None \<Rightarrow> m | Some y \<Rightarrow> f y)"
  "(\<And>y. z = Inl y \<Longrightarrow> paced C (g y)) \<Longrightarrow> (\<And>y. z = Inr y \<Longrightarrow> paced C (h y)) \<Longrightarrow>
     paced C (case z of Inl y \<Rightarrow> g y | Inr y \<Rightarrow> h y)"
  "(\<And>a b. p = (a, b) \<Longrightarrow> paced C (k a b)) \<Longrightarrow> paced C (case p of (a, b) \<Rightarrow> k a b)"
  "(\<And>y. y = v \<Longrightarrow> paced C (e y)) \<Longrightarrow> paced C (Let v e)"
  "(xs = [] \<Longrightarrow> paced C m) \<Longrightarrow> (\<And>y ys. xs = y # ys \<Longrightarrow> paced C (l y ys)) \<Longrightarrow> paced C (case xs of [] \<Rightarrow> m | y # ys \<Rightarrow> l y ys)"
  by (auto split: option.split sum.split prod.split list.split)

lemma paced_statements [pace_intros]:
  "paced C (claim_job S i)" "paced C (get_job S i u)" "paced C (fail_job S i err)" "paced C (complete_job S i res pct)"
  "paced C (cancel_job S i summary)" "paced C (init_progress S i)" "paced C (retry_to_pending S i)"
  "paced C (retry_to_scheduled S i at)" "paced C (mark_synced S i)" "paced C (enqueue S st j carrier)"
  "paced C (schedule S k j at)" "paced C (ack S st g m)" "paced C (ctx_write S i p)" "paced C (ctx_read S i)"
  "paced C (ctx_cancelled S ctx)"
  unfolding claim_job_def get_job_def fail_job_def complete_job_def cancel_job_def init_progress_def
    retry_to_pending_def retry_to_scheduled_def mark_synced_def enqueue_def schedule_def ack_def
    ctx_cancelled_def ctx_write_def ctx_read_def
  by (intro pace_intros)+

lemma paced_retry [pace_intros]:
  "paced C (schedule_retry_or_fail S cfg job err carrier)" "paced C (retry_outcome_label S cfg job err lab)"
proof -
  show r: "paced C (schedule_retry_or_fail S cfg job err carrier)" for carrier
    unfolding schedule_retry_or_fail_def by (intro pace_intros)
  show "paced C (retry_outcome_label S cfg job err lab)"
    unfolding retry_outcome_label_def by (intro pace_intros r)
qed

lemma paced_settle [pace_intros]: "paced C (settle S cfg job r)"
  unfolding settle_def by (cases r) (auto split: exn.split intro!: pace_intros)

lemma paced_probe [pace_intros]: "paced C (probe_streams S ss grp consumer n)"
  by (induction ss) (auto intro!: pace_intros)

lemma paced_pull [pace_intros]: "paced C (pull_one S cfg consumer)"
  unfolding pull_one_def read_priority_def by (intro pace_intros)

end

interpretation timeless: pace "(=)"
  by unfold_locales auto

interpretation untimed: pace "\<lambda>_ _. True"
  by unfold_locales auto

lemma untimed_sleep [pace_intros]: "paced (\<lambda>_ _. True) (sleep_by d)"
  by (simp add: paced_def run_simps quiet_def)

lemma untimed_item [pace_intros]: "paced (\<lambda>_ _. True) (run_item deadline dr item)"
  by (cases item)
    (auto simp: run_item_def handle_email_def handle_webhook_def handle_report_def
      sleep_until_deadline_def intro!: pace_intros)

lemma untimed_batch [pace_intros]: "paced (\<lambda>_ _. True) (batch_loop S deadline rnd n i items sm ctx)"
proof (induction items arbitrary: i sm ctx)
  case (Cons item items)
  show ?case
    unfolding batch_loop.simps
    by (intro pace_intros) (auto split: handler_outcome.splits exn.splits intro: Cons.IH pace_intros)
qed (simp add: untimed.paced_primitives)

lemma untimed_handler [pace_intros]: "paced (\<lambda>_ _. True) (run_handler S deadline rnd p ctx)"
  by (cases p)
    (auto simp: run_handler_def handle_batch_def Let_def split: batch_end.splits intro!: pace_intros)

context backend
begin

lemma wp_timed_handler:
  assumes "quiet w" and "0 \<le> t" and "\<And>r w'. quiet w' \<Longrightarrow> clock (shared w') \<le> clock (shared w) + t \<Longrightarrow> Q r w'"
  shows "wp (run_with_timeout (\<lambda>deadline. run_handler S deadline rnd p ctx) t) Q w"
proof -
  have "wp (run_handler S (clock (shared w) + t) rnd p ctx) Q w"
    using wp_handler_clock [of w "clock (shared w) + t" rnd p ctx] assms
      wp_paced [OF untimed_handler [of S "clock (shared w) + t" rnd p ctx] assms(1), of "\<lambda>_. quiet"]
    by (auto simp: wp_def)
  then show ?thesis unfolding run_with_timeout_def by (intro wp_bind wp_utc_now)
qed

text \<open>A round of the worker lets at most the handler timeout pass, beyond what its read blocks.\<close>

lemma wp_round_clock:
  assumes "quiet w" and "0 \<le> job_handler_timeout_us cfg"
  shows "wp (work_round S P cfg consumer rnd) (\<lambda>_ w'. clock (shared w') \<le> clock (shared w) + job_handler_timeout_us cfg) w"
proof -
  have payload: "wp (run_payload S P cfg rnd job) (\<lambda>_ w'. quiet w' \<and> clock (shared w') \<le> clock (shared w) + job_handler_timeout_us cfg) w"
    if "quiet w" for job w
    unfolding run_payload_def Let_def
    by (intro wp_case_sum wp_bind wp_timed_handler [OF that assms(2)] wp_paced [OF timeless.paced_settle])
      (auto split: payload_error.split intro!: wp_paced [where C = "(=)"] wp_bind wp_return pace_intros that simp: assms(2))
  have job: "wp (process_job S P cfg rnd i) (\<lambda>_ w'. quiet w' \<and> clock (shared w') \<le> clock (shared w) + job_handler_timeout_us cfg) w"
    if "quiet w" for i w
    unfolding process_job_def
    by (intro wp_bind wp_paced [OF timeless.paced_statements(1) that] wp_if wp_case_option wp_return
        wp_paced [OF timeless.paced_statements(2)] wp_paced [OF timeless.paced_statements(3)]
        wp_paced [OF timeless.paced_statements(6)] wp_conseq [OF payload])
      (auto simp: assms(2))
  show ?thesis
    unfolding work_round_def handle_message_def
    by (intro wp_bind wp_paced [OF timeless.paced_pull assms(1)] wp_case_option wp_return wp_case_prod wp_case_sum
        wp_paced [OF timeless.paced_statements(12)] wp_conseq [OF job])
      (auto simp: assms(2) intro!: wp_return wp_bind wp_if wp_paced [OF timeless.paced_statements(12)])
qed

end

section \<open>Properties\<close>



text \<open>
  Both readiness endpoints tell the truth about each server. The route of the API, on an
  undisturbed request, answers 200 exactly when both servers answer and names each server's own state
  whatever the other's. The endpoint of the health server answers 503 while draining, and otherwise 200
  exactly when the database probe succeeds and the Redis probe succeeds in time.
\<close>

lemma readiness:
  assumes "quiet w"
  shows "(\<exists>code resp. fst (run_state (ready I) w) = Inr (code, resp)
     \<and> (code = 200 \<longleftrightarrow> select_1 I (db (shared w)) = Reply () \<and> redis_ping I (rds (shared w)) = Reply ())
     \<and> (code \<noteq> 200 \<longrightarrow> code = 503)
     \<and> (dict_get (checks resp) ''postgres'' = Some ''ok'' \<longleftrightarrow> select_1 I (db (shared w)) = Reply ())
     \<and> (dict_get (checks resp) ''redis'' = Some ''ok'' \<longleftrightarrow> redis_ping I (rds (shared w)) = Reply ()))
   \<and> (case health_ready draining db_ok latency ping of
       None \<Rightarrow> draining \<noteq> Some True \<and> ping = ProbeOtherError
     | Some (code, resp) \<Rightarrow> (code = 200 \<longleftrightarrow>
         draining \<noteq> Some True \<and> db_ok \<and> ping = ProbeOk \<and> latency \<le> 2 * second) \<and> (code \<noteq> 200 \<longrightarrow> code = 503))"
proof (rule conjI, goal_cases)
  case 1
  show ?case
    using assms
    by (cases "select_1 I (db (shared w))"; cases "redis_ping I (rds (shared w))")
      (simp_all add: ready_def check_readiness_def run_simps sql_query_def redis_query_def run_atomically
        quiet_def arriving_def ping_label_def Let_def)
next
  case 2
  show ?case
    by (auto simp: health_ready_def redis_probe_def REDIS_PROBE_TIMEOUT_def Let_def split: probe.splits)
qed

end
