(* ===== verification/Pipeline.thy ===== *)
theory Pipeline
  imports Routes Ticker Health
begin

text \<open>
  The way of a job through the system: the start of the API (\<open>lifespan\<close> in \<open>app/main.py\<close>), a submission
  and a round of the worker, one after the other. The components are those of the other theories; here
  are the lemmas on what each leaves for the next.
\<close>

section \<open>Start of the API\<close>

text \<open>
  What \<open>lifespan\<close> does before the application serves requests: the groups of all streams, and the limiter
  if it is enabled; the answer is whether the limiter was initialised.
\<close>

definition lifespan :: "('d, 'r) services \<Rightarrow> settings \<Rightarrow> ('d, 'r, bool) io" where
  "lifespan S cfg = do {
     foreach (ordered_streams cfg) (\<lambda>stream. ensure_group S stream (consumer_group cfg));
     return (rate_limit_enabled cfg)
   }"

section \<open>From one component to the next\<close>

lemma wp_conj: "wp m P w \<Longrightarrow> wp m Q w \<Longrightarrow> wp m (\<lambda>a w'. P a w' \<and> Q a w') w"
  by (auto simp: wp_def)

text \<open>An undisturbed job stays undisturbed to its end.\<close>

lemma untimed_process [pace_intros]: "paced (\<lambda>_ _. True) (process_job S P cfg rnd i)"
proof -
  have "paced (\<lambda>_ _. True) (run_payload S P cfg rnd job)" for job
    unfolding run_payload_def Let_def run_with_timeout_def
    by (intro pace_intros) (auto split: payload_error.split intro!: pace_intros)
  then show ?thesis unfolding process_job_def by (intro pace_intros)
qed

lemma settled_acks: "settled S cfg now f job v r row' v' \<Longrightarrow> \<exists>out. r = Inr out \<and> out_ack out"
  by (cases f) (auto simp: settled_def)

text \<open>Creating missing groups takes nothing from those who read already.\<close>

definition opens_groups :: "string set \<Rightarrow> string \<Rightarrow> redis_view \<Rightarrow> redis_view \<Rightarrow> bool" where
  "opens_groups ss g v v' \<longleftrightarrow> (\<forall>s \<in> ss. group_exists v' s g) \<and> (\<forall>s g'. group_exists v s g' \<longrightarrow> group_exists v' s g')
     \<and> waiting v' = waiting v \<and> in_flight v' = in_flight v \<and> zset v' = zset v"

lemma opens_groups_one:
  "opens_groups {s} g v (if group_exists v s g then v else open_group s g v)"
  by (auto simp: opens_groups_def group_exists_def waiting_def in_flight_def fun_eq_iff split: option.splits)

lemma opens_groups_trans:
  "opens_groups A g v v1 \<Longrightarrow> opens_groups B g v1 v2 \<Longrightarrow> opens_groups (A \<union> B) g v v2"
  by (auto simp: opens_groups_def)

context backend
begin

lemma wp_ensure_groups:
  assumes "quiet w"
  shows "wp (foreach ss (\<lambda>s. ensure_group S s g)) (\<lambda>_ w'. quiet w' \<and> db (shared w') = db (shared w)
     \<and> clock (shared w') = clock (shared w) \<and> opens_groups (set ss) g (V w) (V w')) w"
  using assms
proof (induction ss arbitrary: w)
  case Nil
  then show ?case by (simp add: wp_return opens_groups_def)
next
  case (Cons s ss)
  show ?case
    unfolding foreach.simps
  proof (rule wp_bind, rule wp_ensure_group [OF Cons.prems])
    fix w1 :: "('d, 'r) world"
    assume w1: "quiet w1" "db (shared w1) = db (shared w)" "clock (shared w1) = clock (shared w)"
      "V w1 = (if group_exists (V w) s g then V w else open_group s g (V w))"
    have one: "opens_groups {s} g (V w) (V w1)" unfolding w1(4) by (rule opens_groups_one)
    show "wp (foreach ss (\<lambda>s. ensure_group S s g)) (\<lambda>_ w'. quiet w' \<and> db (shared w') = db (shared w)
       \<and> clock (shared w') = clock (shared w) \<and> opens_groups (set (s # ss)) g (V w) (V w')) w1"
      by (rule wp_conseq [OF Cons.IH [OF w1(1)]]) (use w1(2,3) opens_groups_trans [OF one] in auto)
  qed
qed

lemma wp_lifespan:
  assumes "quiet w"
  shows "wp (lifespan S cfg) (\<lambda>_ w'. quiet w' \<and> db (shared w') = db (shared w) \<and> clock (shared w') = clock (shared w)
     \<and> opens_groups (set (ordered_streams cfg)) (consumer_group cfg) (V w) (V w')) w"
  unfolding lifespan_def
  by (rule wp_bind, rule wp_conseq [OF wp_ensure_groups [OF assms]]) (auto intro!: wp_return)

end

text \<open>What is left after a job's message has been handled: the settled row, and the message acknowledged.\<close>

definition job_ran ::
  "('d, 'r) services \<Rightarrow> schema_ops \<Rightarrow> settings \<Rightarrow> draw \<Rightarrow> timestamp \<Rightarrow> job \<Rightarrow> string \<Rightarrow> entry_id \<Rightarrow> table \<Rightarrow> redis_view
   \<Rightarrow> py_error + Outcome \<Rightarrow> table \<Rightarrow> redis_view \<Rightarrow> bool" where
  "job_ran S P cfg dr now j s e t v r t' v' \<longleftrightarrow> (\<exists>row' v1. t' = t(jid j \<mapsto> row') \<and> v' = ack_entry s (consumer_group cfg) e v1
     \<and> settled S cfg now (job_fate P cfg dr j) (j\<lparr>status := processing, started_at := Some now\<rparr>) v r row' v1)"

context backend
begin

lemma wp_message_single:
  assumes "quiet w" and "message_job_uuid fs = Inr (jid j)" and "T w (jid j) = Some j" and "claimable (status j)"
    and "user_id j \<noteq> None" and "jtype j \<noteq> batch" and "0 \<le> attempts j" and "retry_backoff_schedule cfg \<noteq> []"
  shows "wp (handle_message S P cfg rnd (s, e, fs))
     (\<lambda>r w'. job_ran S P cfg (rnd 0) (clock (shared w)) j s e (T w) (V w) r (T w') (V w')) w"
proof -
  let ?c = "j\<lparr>status := processing, started_at := Some (clock (shared w))\<rparr>"
  have run: "wp (process_job S P cfg rnd (jid j)) (\<lambda>r w'. quiet w' \<and> (\<exists>row'. T w' = (T w)(jid j \<mapsto> row')
      \<and> settled S cfg (clock (shared w)) (job_fate P cfg (rnd 0) j) ?c (V w) r row' (V w'))) w"
    by (rule wp_conj [OF wp_paced [OF untimed_process assms(1)]], assumption, rule wp_process_single) (use assms in simp_all)
  show ?thesis
    unfolding handle_message_def prod.case assms(2) sum.case
    by (rule wp_bind, rule wp_conseq [OF run], elim conjE exE, frule settled_acks)
      (auto simp: job_ran_def intro!: wp_bind wp_ack wp_return, blast)
qed

lemma guar_lifespan: "guarantees (lifecycle tbl) (lifespan S cfg)"
  unfolding lifespan_def by (intro guar_intros)

text \<open>The round of the worker that reads the message of a claimable job.\<close>

lemma wp_round_single:
  assumes "quiet w" and read: "served (ordered_streams cfg) (consumer_group cfg) 1 (V w) = ([(s, e, fs)], v)"
    and "message_job_uuid fs = Inr (jid j)" and "T w (jid j) = Some j" and "claimable (status j)"
    and "user_id j \<noteq> None" and "jtype j \<noteq> batch" and "0 \<le> attempts j" and "retry_backoff_schedule cfg \<noteq> []"
  shows "wp (work_round S P cfg consumer rnd) (\<lambda>r w'. \<exists>out. r = Some out
     \<and> job_ran S P cfg (rnd 0) (clock (shared w)) j s e (T w) v out (T w') (V w')) w"
  unfolding work_round_def pull_one_def
proof (intro wp_bind, rule wp_conseq [OF wp_read_priority [OF assms(1) zero_less_one]])
  fix batch w1
  let ?Q = "\<lambda>r w'. \<exists>out. r = Some out \<and> job_ran S P cfg (rnd 0) (clock (shared w)) j s e (T w) v out (T w') (V w')"
  assume w1: "quiet w1 \<and> db (shared w1) = db (shared w) \<and> clock (shared w1) = clock (shared w)
    \<and> (batch, V w1) = served (ordered_streams cfg) (consumer_group cfg) 1 (V w)"
  then have b: "batch = [(s, e, fs)]" "V w1 = v" unfolding read by simp_all
  have "wp (handle_message S P cfg rnd (s, e, fs))
      (\<lambda>r w'. job_ran S P cfg (rnd 0) (clock (shared w)) j s e (T w) v r (T w') (V w')) w1"
    using wp_message_single [of w1 fs j cfg P rnd s e] w1 b(2) assms by simp
  then have "wp (handle_message S P cfg rnd (s, e, fs) \<bind> (\<lambda>r. return (Some r))) ?Q w1"
    by (intro wp_bind, elim wp_conseq) (simp add: wp_return)
  with b(1) show "wp (case batch of [] \<Rightarrow> return None | m # _ \<Rightarrow> return (Some m))
      (\<lambda>m. wp (case m of None \<Rightarrow> return None | Some msg \<Rightarrow> handle_message S P cfg rnd msg \<bind> (\<lambda>r. return (Some r))) ?Q) w1"
    by (simp add: wp_return)
qed

end

section \<open>From the submission to the outcome\<close>

definition submit_and_work ::
  "('d, 'r) services \<Rightarrow> schema_ops \<Rightarrow> (string \<Rightarrow> string) \<Rightarrow> settings \<Rightarrow> uuid \<Rightarrow> json option \<Rightarrow> JobSubmission
   \<Rightarrow> AuthedUser \<Rightarrow> string \<Rightarrow> (nat \<Rightarrow> draw) \<Rightarrow> ('d, 'r, JobAccepted response \<times> (py_error + Outcome) option) io" where
  "submit_and_work S P sha cfg i carrier sub user consumer rnd = do {
     _ \<leftarrow> lifespan S cfg;
     a \<leftarrow> submit_job S P sha cfg i carrier sub user;
     r \<leftarrow> work_round S P cfg consumer rnd;
     return (a, r)
   }"

lemma in_flight_views [simp]:
  "in_flight (add_entry s m v) = in_flight v" "in_flight (set_score k mem x v) = in_flight v"
  "in_flight (deliver g n s v) s' g' = in_flight v s' g' @ (if s' = s \<and> g' = g then take n (waiting v s g) else [])"
  "in_flight (ack_entry s g e v) s' g' = (if s' = s \<and> g' = g then filter (\<lambda>m. fst m \<noteq> e) (in_flight v s g) else in_flight v s' g')"
  by (auto simp: in_flight_def waiting_def fun_eq_iff split: option.splits)

lemma waiting_moves [simp]:
  "waiting (deliver g n s v) s' g' = (if s' = s \<and> g' = g then drop n (waiting v s g) else waiting v s' g')"
  "waiting (ack_entry s g e v) = waiting v"
  by (auto simp: in_flight_def waiting_def fun_eq_iff split: option.splits)

text \<open>How the row and Redis stand after the round, by what the handler did.\<close>

definition carried_out :: "settings \<Rightarrow> fate \<Rightarrow> (py_error + Outcome) option \<Rightarrow> job \<Rightarrow> redis_view \<Rightarrow> bool" where
  "carried_out cfg f r row v = (attempts row = 1 \<and> (case f of
     Complete res d \<Rightarrow> r = Some (Inr \<lparr>out_ack = True, label = ''completed''\<rparr>) \<and> status row = completed \<and> result row = Some res
       \<and> (\<forall>s \<in> set (ordered_streams cfg). waiting v s (consumer_group cfg) = [])
   | Retry err lab d \<Rightarrow> r = Some (Inr \<lparr>out_ack = True, label = lab\<rparr>)
       \<and> (status row = failed \<and> error row = Some err \<or> claimable (status row) \<and> handed_off cfg v row)
   | Reject err \<Rightarrow> False))"

lemma first_message:
  assumes "\<forall>s \<in> set ss. waiting v s g = []" and "s \<in> set ss" and "group_exists v s g"
  shows "served ss g 1 (add_entry s (e, fs) v) = ([(s, e, fs)], deliver g 1 s (add_entry s (e, fs) v))"
proof -
  have "find (\<lambda>t. waiting (add_entry s (e, fs) v) t g \<noteq> []) ss = Some s"
    using assms(1,2)
  proof (induction ss)
    case (Cons t ss)
    then show ?case using assms(3) by (cases "t = s") simp_all
  qed simp
  then show ?thesis using assms by (simp add: served_def)
qed

lemma fate_valid:
  assumes "validate_payload P (jtype j) (payload j) (Some cfg) = Inr p"
  shows "job_fate P cfg dr j \<noteq> Reject err"
  using assms by (auto simp: job_fate_def Let_def split: handler_outcome.splits exn.splits)

context backend
begin

lemma handed_off_ack [simp]: "handed_off cfg (ack_entry s g e v) j = handed_off cfg v j"
proof -
  have "group_exists (ack_entry s g e v) = group_exists v" by (intro ext) (simp add: group_exists_def)
  then show ?thesis by (simp add: handed_off_def)
qed

lemma retry_hands_over:
  assumes "retry_outcome S cfg row err carrier now row v row' v'"
  shows "attempts row' = attempts row + 1" and "in_flight v' = in_flight v"
    and "status row' = failed \<and> error row' = Some err \<or> claimable (status row') \<and> handed_off cfg v' row'"
  using assms by (auto simp: retry_outcome_def handed_off_def Let_def split: option.splits if_splits)

lemma job_ran_carried:
  assumes "job_ran S P cfg dr now j s e t (deliver (consumer_group cfg) 1 s (add_entry s (e, fs) v)) r t' v'"
    and "s = stream_for_priority cfg (priority j)" and "attempts j = 0"
    and "\<forall>s \<in> set (ordered_streams cfg). waiting v s (consumer_group cfg) = []"
    and "group_exists v s (consumer_group cfg)" and "e \<notin> fst ` set (in_flight v s (consumer_group cfg))"
    and "\<And>err. job_fate P cfg dr j \<noteq> Reject err"
  shows "\<exists>row'. t' = t(jid j \<mapsto> row') \<and> carried_out cfg (job_fate P cfg dr j) (Some r) row' v' \<and> in_flight v' = in_flight v"
proof -
  let ?g = "consumer_group cfg" and ?c = "j\<lparr>status := processing, started_at := Some now\<rparr>"
  let ?v = "deliver ?g 1 s (add_entry s (e, fs) v)"
  obtain row' v1 where r: "t' = t(jid j \<mapsto> row')" "v' = ack_entry s ?g e v1"
    "settled S cfg now (job_fate P cfg dr j) ?c ?v r row' v1"
    using assms(1) by (auto simp: job_ran_def)
  have s: "waiting v s ?g = []" using assms(2,4) by simp
  have keep: "filter (\<lambda>m. fst m \<noteq> e) (in_flight v s ?g) = in_flight v s ?g"
    using assms(6) by (auto simp: filter_id_conv)
  have flight: "in_flight (ack_entry s ?g e v1) = in_flight v" if "in_flight v1 = in_flight ?v"
    by (intro ext) (simp add: that s assms(5) keep)
  show ?thesis
  proof (cases "job_fate P cfg dr j")
    case (Complete res d)
    with r(3) have "v1 = ?v" "row' = ?c\<lparr>status := completed, result := Some res, completed_at := Some (now + d), attempts := attempts ?c + 1\<rparr>"
      "r = Inr \<lparr>out_ack = True, label = ''completed''\<rparr>" by (simp_all add: settled_def)
    then show ?thesis
      using r(1,2) flight assms(3,4,5) Complete by (auto simp: carried_out_def s)
  next
    case (Retry err lab d)
    with r(3) have "r = Inr \<lparr>out_ack = True, label = lab\<rparr>" "retry_outcome S cfg ?c err None (now + d) ?c ?v row' v1"
      by (simp_all add: settled_def)
    with retry_hands_over [OF this(2)] show ?thesis
      using r(1,2) flight assms(3) Retry by (auto simp: carried_out_def)
  qed (use assms(7) in blast)
qed

lemma wp_round_new_job:
  assumes "quiet w" and "T w (jid j) = Some j" and "claimable (status j)" and "user_id j \<noteq> None" and "jtype j \<noteq> batch"
    and "attempts j = 0" and "retry_backoff_schedule cfg \<noteq> []" and "\<And>err. job_fate P cfg (rnd 0) j \<noteq> Reject err"
    and s: "s = stream_for_priority cfg (priority j)"
    and v: "V w = add_entry s (e, message_fields S s (uuid_str (jid j)) carrier) v"
    and idle: "\<forall>s \<in> set (ordered_streams cfg). waiting v s (consumer_group cfg) = []"
    and g: "group_exists v s (consumer_group cfg)"
  shows "wp (work_round S P cfg consumer rnd) (\<lambda>r w'. \<exists>row'. T w' = (T w)(jid j \<mapsto> row')
     \<and> carried_out cfg (job_fate P cfg (rnd 0) j) r row' (V w') \<and> in_flight (V w') = in_flight v) w"
proof -
  let ?g = "consumer_group cfg" and ?m = "(e, message_fields S s (uuid_str (jid j)) carrier)"
  have "s \<in> set (ordered_streams cfg)" using s by simp
  note read = first_message [OF idle this g, of "fst ?m" "snd ?m", unfolded fst_conv snd_conv, folded v]
  obtain gv where gv: "groups v s ?g = Some gv" using g by (auto simp: group_exists_def)
  then have "groups (V w) s ?g = Some (gv\<lparr>undelivered := undelivered gv @ [?m]\<rparr>)" by (simp add: v)
  from entry_order [OF this] have "e \<notin> fst ` set (in_flight v s ?g)"
    using gv by (auto simp: in_flight_def sorted_wrt_append)
  note carried = job_ran_carried [OF _ s assms(6) idle g this assms(8)]
  show ?thesis
    by (rule wp_conseq [OF wp_round_single [OF assms(1) read message_uuid assms(2-5) _ assms(7)]])
      (use assms(6) carried v in auto)
qed

lemma wp_submit_and_work:
  assumes "quiet w" and valid: "validate_payload P (sub_type sub) (sub_payload sub) (Some cfg) = Inr p"
    and "sub_type sub \<noteq> batch" and due: "\<And>at. sub_scheduled_at sub = Some at \<Longrightarrow> at \<le> clock (shared w)"
    and "T w i = None" and "\<forall>j \<in> ran (T w). \<forall>k. sub_key sub = Some k \<longrightarrow> \<not> holds_key k (au_id user) j"
    and idle: "\<forall>s \<in> set (ordered_streams cfg). waiting (V w) s (consumer_group cfg) = []"
    and "retry_backoff_schedule cfg \<noteq> []"
  shows "wp (submit_and_work S P sha cfg i carrier sub user consumer rnd) (\<lambda>(a, r) w'. \<exists>c row'.
     let row = submitted_row cfg (clock (shared w)) i carrier sub (sub_key sub) (map_option (\<lambda>_. req_hash_of sha sub) (sub_key sub)) user c
     in a = Inr (202, accepted row) \<and> T w' = (T w)(i \<mapsto> row')
        \<and> carried_out cfg (job_fate P cfg (rnd 0) row) r row' (V w') \<and> in_flight (V w') = in_flight (V w)) w"
  unfolding submit_and_work_def
proof (rule wp_bind, rule wp_conseq [OF wp_lifespan [OF assms(1)]], elim conjE, rule wp_bind)
  fix w1 :: "('d, 'r) world"
  let ?g = "consumer_group cfg" and ?h = "map_option (\<lambda>_. req_hash_of sha sub) (sub_key sub)"
  let ?row = "submitted_row cfg (clock (shared w)) i carrier sub (sub_key sub) ?h user"
  let ?s = "stream_for_priority cfg (sub_priority sub)"
  assume w1: "quiet w1" "db (shared w1) = db (shared w)" "clock (shared w1) = clock (shared w)"
    "opens_groups (set (ordered_streams cfg)) ?g (V w) (V w1)"
  have due': "(case sub_scheduled_at sub of Some at \<Rightarrow> if at > clock (shared w) then Some at else None | None \<Rightarrow> None) = None"
    using due by (auto split: option.split)
  have row: "scheduled_at (?row c) = None" "status (?row c) = pending" "jtype (?row c) = sub_type sub"
    "payload (?row c) = sub_payload sub" "attempts (?row c) = 0" for c
    by (simp_all add: submitted_row_def new_job_def Let_def due')
  show "wp (submit_job S P sha cfg i carrier sub user) (\<lambda>a. wp (work_round S P cfg consumer rnd \<bind> (\<lambda>r. return (a, r)))
      (\<lambda>(a, r) w'. \<exists>c row'. let row = ?row c in a = Inr (202, accepted row) \<and> T w' = (T w)(i \<mapsto> row')
        \<and> carried_out cfg (job_fate P cfg (rnd 0) row) r row' (V w') \<and> in_flight (V w') = in_flight (V w))) w1"
  proof (rule wp_conseq [OF wp_submit_new [OF w1(1) valid]])
    fix a w2
    assume "quiet w2 \<and> clock (shared w2) = clock (shared w1) \<and>
      stored S cfg (clock (shared w1)) i carrier sub ?h user (T w1) (V w1) a (T w2) (V w2)"
    then obtain c e where w2: "quiet w2" "a = Inr (202, accepted (?row c))"
      "T w2 = (T w)(i \<mapsto> ?row c\<lparr>is_synced_to_redis := True\<rparr>)"
      "V w2 = add_entry ?s (e, message_fields S ?s (uuid_str i) None) (V w1)"
      using w1(2,3) by (auto simp: stored_def handoff_def Let_def row)
    let ?j = "?row c\<lparr>is_synced_to_redis := True\<rparr>"
    have fate: "job_fate P cfg (rnd 0) ?j = job_fate P cfg (rnd 0) (?row c)" by (simp add: job_fate_def)
    have "wp (work_round S P cfg consumer rnd) (\<lambda>r w'. \<exists>row'. T w' = (T w2)(jid ?j \<mapsto> row')
       \<and> carried_out cfg (job_fate P cfg (rnd 0) ?j) r row' (V w') \<and> in_flight (V w') = in_flight (V w1)) w2"
      by (rule wp_round_new_job [where s = ?s and e = e and carrier = None])
        (use w1(4) w2 assms row fate_valid [of P "?row c" cfg p] in \<open>auto simp: opens_groups_def fate\<close>)
    then show "wp (work_round S P cfg consumer rnd \<bind> (\<lambda>r. return (a, r)))
      (\<lambda>(a, r) w'. \<exists>c row'. let row = ?row c in a = Inr (202, accepted row) \<and> T w' = (T w)(i \<mapsto> row')
        \<and> carried_out cfg (job_fate P cfg (rnd 0) row) r row' (V w') \<and> in_flight (V w') = in_flight (V w)) w2"
      by (intro wp_bind, elim wp_conseq, intro wp_return)
        (use w1(4) w2(2,3) fate in \<open>auto simp: opens_groups_def Let_def\<close>)
  qed (use w1 assms in simp_all)
qed

end

section \<open>Properties\<close>

text \<open>
  C3 (submitted_job_runs). From the start of the API to the outcome: the groups are created, a valid
  submission that is not a batch and not for later is accepted with 202, and the next round of an idle
  worker picks exactly this job, whatever its priority. It is completed with the handler's result and
  nothing is left waiting; or it is failed with the handler's error; or it is handed to Redis for its next
  attempt. One attempt is counted, no other row changes, and no message stays behind as pending.
\<close>

theorem submitted_job_runs:
  assumes "backend S tbl view idle" and "quiet w"
    and "validate_payload P (sub_type sub) (sub_payload sub) (Some cfg) = Inr p" and "sub_type sub \<noteq> batch"
    and "\<And>at. sub_scheduled_at sub = Some at \<Longrightarrow> at \<le> clock (shared w)" and "tbl (db (shared w)) i = None"
    and "\<forall>j \<in> ran (tbl (db (shared w))). \<forall>k. sub_key sub = Some k \<longrightarrow> \<not> holds_key k (au_id user) j"
    and "\<forall>s \<in> set (ordered_streams cfg). waiting (view (rds (shared w))) s (consumer_group cfg) = []"
    and "retry_backoff_schedule cfg \<noteq> []"
  shows "case run_state (submit_and_work S P sha cfg i carrier sub user consumer rnd) w of ((a, r), w') \<Rightarrow> \<exists>c row'.
     let row = submitted_row cfg (clock (shared w)) i carrier sub (sub_key sub) (map_option (\<lambda>_. req_hash_of sha sub) (sub_key sub)) user c
     in a = Inr (202, accepted row) \<and> tbl (db (shared w')) = (tbl (db (shared w)))(i \<mapsto> row')
        \<and> carried_out cfg (job_fate P cfg (rnd 0) row) r row' (view (rds (shared w')))
        \<and> in_flight (view (rds (shared w'))) = in_flight (view (rds (shared w)))"
  using backend.wp_submit_and_work [OF assms] unfolding wp_def by (simp add: case_prod_beta)

theorem submitted_job_runs_witness:
  "case run_state (submit_and_work ref_services sample_schema (\<lambda>s. s) sample_cfg 9 None (sample_submission None) sample_user ''worker-1''
       (\<lambda>_. \<lparr>nap = 4000000, coin = False, fresh_id = 5\<rparr>)) (sample_world []) of ((a, r), w') \<Rightarrow>
     r = Some (Inr \<lparr>out_ack = True, label = ''completed''\<rparr>) \<and> (\<exists>row'. ref_tbl (db (shared w')) 9 = Some row' \<and> status row' = completed)"
proof -
  let ?rnd = "\<lambda>_ :: nat. \<lparr>nap = 4000000, coin = False, fresh_id = 5\<rparr>"
  let ?row = "submitted_row sample_cfg 1000000000 9 None (sample_submission None) None None sample_user"
  have row: "jtype (?row c) = report" "payload (?row c) = JDict [(''report_type'', JStr ''ops'')]" for c
    by (simp_all add: submitted_row_def Let_def new_job_def sample_submission_def)
  have fate: "\<exists>res d. job_fate sample_schema sample_cfg (?rnd 0) (?row c) = Complete res d" for c
    using sample_valid [of None, unfolded sample_submission_def]
    by (simp add: job_fate_def row Let_def item_result_def elapsed_def)
  have idle: "\<forall>s \<in> set (ordered_streams sample_cfg). waiting (ref_view (rds (shared (sample_world [])))) s (consumer_group sample_cfg) = []"
    by (simp add: waiting_def ref_view_def ref_raw_view_def ref_norm_def ref_ok_def sample_redis_def sample_world_def ref_world_def ref_group_def ref_log_def)
  have sub: "sub_type (sample_submission None) \<noteq> batch" "sub_scheduled_at (sample_submission None) = None"
    by (simp_all add: sample_submission_def)
  obtain a r w' where run: "run_state (submit_and_work ref_services sample_schema (\<lambda>s. s) sample_cfg 9 None
      (sample_submission None) sample_user ''worker-1'' ?rnd) (sample_world []) = ((a, r), w')"
    by (metis surj_pair)
  have "\<exists>c row'. ref_tbl (db (shared w')) = (ref_tbl [])(9 \<mapsto> row')
      \<and> carried_out sample_cfg (job_fate sample_schema sample_cfg (?rnd 0) (?row c)) r row' (ref_view (rds (shared w')))"
    using submitted_job_runs [OF ref_backend _ sample_valid [of None] sub(1) _ _ _ idle, where i = 9
        and user = sample_user and sha = "\<lambda>s. s" and carrier = None and consumer = "''worker-1''" and rnd = ?rnd]
    unfolding run by (auto simp: sub(2) Let_def ref_tbl_def)
  then obtain c row' where row': "ref_tbl (db (shared w')) 9 = Some row'"
      "carried_out sample_cfg (job_fate sample_schema sample_cfg (?rnd 0) (?row c)) r row' (ref_view (rds (shared w')))"
    by auto
  with fate [of c] show ?thesis unfolding run by (auto simp: carried_out_def)
qed

end
