(* ===== verification/Batch.thy ===== *)
theory Batch
  imports Pipeline
begin

text \<open>
  Batch jobs end to end: \<open>process_job\<close> of \<open>worker/runner.py\<close> on a job of type \<open>batch\<close>, with the loop over its
  items, the progress it writes and the cancel requests it polls (\<open>Handlers\<close>). \<open>batch_fate\<close> is the reference: what
  the items alone say about the outcome, with no database, no context and no polls in it.
\<close>

section \<open>The reference\<close>

text \<open>
  The items in turn against the time that is left: the summary of them all, or nothing when one of them runs out of
  time; and the time it takes.
\<close>

definition account :: "nat \<Rightarrow> handler_outcome \<Rightarrow> batch_summary \<Rightarrow> batch_summary" where
  "account i r sm = (case r of Done v \<Rightarrow> add_result i v sm | Raised (Exn t msg) \<Rightarrow> add_error i msg sm | _ \<Rightarrow> sm)"

fun batch_fate :: "int \<Rightarrow> (nat \<Rightarrow> draw) \<Rightarrow> nat \<Rightarrow> item_payload list \<Rightarrow> batch_summary \<Rightarrow> batch_summary option \<times> int" where
  "batch_fate left rnd i [] sm = (Some sm, 0)"
| "batch_fate left rnd i (item # items) sm =
     (if nap (rnd i) > left then (None, max 0 left)
      else map_prod id ((+) (nap (rnd i)))
        (batch_fate (left - nap (rnd i)) rnd (i + 1) items (account i (item_result left (rnd i) item) sm)))"

text \<open>In time, the summary accounts for every item; and in time means that the items' own times fit together.\<close>

lemma account_ok:
  assumes "summary_ok n i sm" and "nap dr \<le> left"
  shows "summary_ok n (Suc i) (account i (item_result left dr item) sm)"
  using assms summary_ok_add by (cases item) (auto simp: account_def item_result_def)

lemma batch_fate_ok:
  assumes "summary_ok n i sm" and "i + length items = n" and "fst (batch_fate left rnd i items sm) = Some sm'"
  shows "summary_ok n n sm'"
  using assms
proof (induction left rnd i items sm rule: batch_fate.induct)
  case (2 left rnd i item items sm)
  then show ?case using account_ok [OF 2(2)] by (auto split: if_splits)
qed simp

lemma batch_fate_in_time:
  assumes "\<And>k. 0 \<le> nap (rnd k)" and "0 \<le> left"
  shows "fst (batch_fate left rnd i items sm) \<noteq> None \<longleftrightarrow> (\<Sum>k \<leftarrow> [i ..< i + length items]. nap (rnd k)) \<le> left"
  using assms
proof (induction left rnd i items sm rule: batch_fate.induct)
  case (2 left rnd i item items sm)
  have span: "[i ..< i + length (item # items)] = i # [i + 1 ..< i + 1 + length items]" using upt_conv_Cons [of i "i + length (item # items)"] by simp
  have "0 \<le> (\<Sum>k \<leftarrow> [i + 1 ..< i + 1 + length items]. nap (rnd k))"
    using 2(2) by (intro sum_list_nonneg) auto
  then show ?case unfolding span using 2 by auto
qed simp

definition batch_ends :: "batch_summary option \<Rightarrow> batch_end \<times> batch_summary \<Rightarrow> bool" where
  "batch_ends f res = (case f of Some sm \<Rightarrow> res = (BatchDone, sm) | None \<Rightarrow> fst res = BatchTimedOut)"

section \<open>The loop over the items\<close>

text \<open>All that a running job's row undergoes: its progress.\<close>

definition progressed :: "uuid \<Rightarrow> job \<Rightarrow> table \<Rightarrow> table \<Rightarrow> bool" where
  "progressed i j t t' \<longleftrightarrow> (\<exists>p. t' = t(i \<mapsto> j\<lparr>progress := p\<rparr>))"

lemma progressed_refl: "t i = Some j \<Longrightarrow> progressed i j t t"
  unfolding progressed_def by (rule exI [of _ "progress j"]) (auto simp: fun_eq_iff)

lemma progressed_once: "progressed i j t (t(i \<mapsto> j\<lparr>progress := p\<rparr>))"
  unfolding progressed_def by blast

lemma progressed_trans:
  "progressed i j t u \<Longrightarrow> u i = Some k \<Longrightarrow> progressed i k u t' \<Longrightarrow> progressed i j t t'"
  unfolding progressed_def by (elim exE, hypsubst, rule exI) auto

context backend
begin

text \<open>A poll of a running job that nobody asked to cancel: go on; at most the progress has changed.\<close>

lemma wp_poll_running:
  assumes "quiet w" and "T w (ctx_job ctx) = Some j" and "status j = processing" and "cancel_requested_at j = None"
    and "\<not> ctx_cached ctx"
  shows "wp (ctx_cancelled S ctx) (\<lambda>poll w'. quiet w' \<and> rds (shared w') = rds (shared w)
     \<and> clock (shared w') = clock (shared w) \<and> \<not> fst poll \<and> \<not> ctx_cached (snd poll) \<and> ctx_job (snd poll) = ctx_job ctx
     \<and> progressed (ctx_job ctx) j (T w) (T w')) w"
proof -
  have "wp (ctx_cancelled S ctx) (\<lambda>poll w'. \<not> fst poll \<and> \<not> ctx_cached (snd poll) \<and> ctx_job (snd poll) = ctx_job ctx
     \<and> progressed (ctx_job ctx) j (T w) (T w')) w"
    using poll_outcomes [OF backend_axioms assms(1), of ctx] assms progressed_refl [where t = "T w" and i = "ctx_job ctx" and j = j]
    unfolding wp_def by (auto simp: runs_on_def with_progress_def progressed_once split: prod.splits if_splits)
  then show ?thesis
    using wp_poll_clock [OF assms(1), of ctx] by (auto simp: wp_def)
qed

text \<open>The loop ends as the reference says, after the time it says, and leaves only the progress behind.\<close>

lemma wp_batch_running:
  assumes "quiet w" and "T w (ctx_job ctx) = Some j" and "status j = processing" and "cancel_requested_at j = None"
    and "\<not> ctx_cached ctx"
  shows "wp (batch_loop S deadline rnd n i items sm ctx) (\<lambda>res w'. quiet w' \<and> rds (shared w') = rds (shared w)
     \<and> progressed (ctx_job ctx) j (T w) (T w')
     \<and> (case batch_fate (deadline - clock (shared w)) rnd i items sm of (f, d) \<Rightarrow>
          clock (shared w') = clock (shared w) + d \<and> batch_ends f res)) w"
  using assms
proof (induction items arbitrary: w i sm ctx j)
  case Nil
  then show ?case by (simp add: wp_return batch_ends_def progressed_refl)
next
  case (Cons item items)
  let ?left = "deadline - clock (shared w)"
  let ?Q = "\<lambda>res w'. quiet w' \<and> rds (shared w') = rds (shared w) \<and> progressed (ctx_job ctx) j (T w) (T w')
     \<and> (case batch_fate ?left rnd i (item # items) sm of (f, d) \<Rightarrow>
          clock (shared w') = clock (shared w) + d \<and> batch_ends f res)"
  show ?case
    unfolding batch_loop.simps Let_def
  proof (rule wp_bind, rule wp_conseq [OF wp_poll_running [OF Cons.prems]], elim conjE, rule wp_if, simp)
    fix poll :: "bool \<times> job_ctx" and w1 :: "('d, 'r) world"
    let ?ctx = "set_progress (progress_percent (i + 1) n) (snd poll)"
    assume w1: "quiet w1" "rds (shared w1) = rds (shared w)" "clock (shared w1) = clock (shared w)"
      "\<not> ctx_cached (snd poll)" "ctx_job (snd poll) = ctx_job ctx" "progressed (ctx_job ctx) j (T w) (T w1)"
    then obtain j1 where j1: "T w1 (ctx_job ctx) = Some j1" "status j1 = processing" "cancel_requested_at j1 = None"
      using Cons.prems unfolding progressed_def by auto
    note on = progressed_trans [OF w1(6) j1(1)]
    have rest: "wp (batch_loop S deadline rnd n (i + 1) items (account i (item_result ?left (rnd i) item) sm) ?ctx) ?Q w2"
      if "quiet w2" "db (shared w2) = db (shared w1)" "rds (shared w2) = rds (shared w1)"
        "clock (shared w2) = clock (shared w) + nap (rnd i)" "nap (rnd i) \<le> ?left" for w2
      by (rule wp_conseq [OF Cons.IH [where j = j1]])
        (use that w1 j1 in \<open>auto simp: set_progress_def algebra_simps split: prod.splits dest: on\<close>)
    show "wp (run_item deadline (rnd i) item \<bind> (\<lambda>r. case r of
        Done v \<Rightarrow> batch_loop S deadline rnd n (i + 1) items (add_result i v sm) ?ctx
      | Raised e \<Rightarrow> (case e of Exn _ msg \<Rightarrow> batch_loop S deadline rnd n (i + 1) items (add_error i msg sm) ?ctx)
      | CancelledWith s \<Rightarrow> batch_loop S deadline rnd n (i + 1) items (add_error i ''job cancelled'' sm) ?ctx
      | TimedOut \<Rightarrow> return (BatchTimedOut, sm))) ?Q w1"
      by (rule wp_bind, rule wp_run_item, cases item)
        (use w1 rest in \<open>auto simp: quiet_def item_result_def account_def elapsed_def batch_ends_def intro!: wp_return\<close>)
  qed
qed

end

section \<open>The whole job\<close>

text \<open>The row and Redis afterwards, by the reference.\<close>

definition batch_settled ::
  "('d, 'r) services \<Rightarrow> settings \<Rightarrow> timestamp \<Rightarrow> batch_summary option \<times> int \<Rightarrow> job \<Rightarrow> redis_view
   \<Rightarrow> py_error + Outcome \<Rightarrow> job \<Rightarrow> redis_view \<Rightarrow> bool" where
  "batch_settled S cfg now f job v r row' v' = (case fst f of
     Some sm \<Rightarrow> r = Inr \<lparr>out_ack = True, label = ''completed''\<rparr> \<and> v' = v
       \<and> row' = job\<lparr>status := completed, result := Some (summary_json sm), completed_at := Some (now + snd f),
                    attempts := attempts job + 1, progress := Some 100\<rparr>
   | None \<Rightarrow> r = Inr \<lparr>out_ack = True, label = ''timeout''\<rparr>
       \<and> (\<exists>p. retry_outcome S cfg job (timeout_error cfg) None (now + snd f) (job\<lparr>progress := p\<rparr>) v row' v'))"

context backend
begin

lemma wp_settle_batch:
  assumes "quiet w" and "progressed (jid job) job t (T w)" and "status job = processing" and "jtype job = batch"
    and "0 \<le> attempts job" and "retry_backoff_schedule cfg \<noteq> []" and "clock (shared w) = now + snd f"
    and "r = (case fst f of Some sm \<Rightarrow> Done (summary_json sm) | None \<Rightarrow> TimedOut)"
  shows "wp (settle S cfg job r)
     (\<lambda>r w'. \<exists>row'. T w' = t(jid job \<mapsto> row') \<and> batch_settled S cfg now f job (V w) r row' (V w')) w"
proof -
  obtain p where p: "T w = t(jid job \<mapsto> job\<lparr>progress := p\<rparr>)" using assms(2) unfolding progressed_def by blast
  show ?thesis
  proof (cases "fst f")
    case (Some sm)
    then have r: "r = Done (summary_json sm)" using assms(8) by simp
    show ?thesis
      unfolding settle_def r handler_outcome.case
      by (intro wp_intros assms(1))
        (use p assms Some in \<open>auto simp: batch_settled_def\<close>)
  next
    case None
    then have r: "r = TimedOut" using assms(8) by simp
    show ?thesis
      unfolding settle_def r handler_outcome.case retry_outcome_label_def
      by (intro wp_bind, rule wp_conseq [OF wp_retry [OF assms(1,5,6)]])
        (use p assms None in \<open>auto simp: batch_settled_def intro!: wp_return\<close>)
  qed
qed

lemma wp_run_batch:
  assumes "quiet w" and row: "progressed (jid job) job t (T w)" and "status job = processing" and "jtype job = batch"
    and "cancel_requested_at job = None" and "0 \<le> attempts job" and "retry_backoff_schedule cfg \<noteq> []"
    and valid: "validate_payload P (jtype job) (payload job) (Some cfg) = Inr (BatchPayload items)"
  shows "wp (run_payload S P cfg rnd job) (\<lambda>r w'. \<exists>row'. T w' = t(jid job \<mapsto> row')
     \<and> batch_settled S cfg (clock (shared w))
         (batch_fate (job_handler_timeout_us cfg) rnd 0 items (new_summary (length items))) job (V w) r row' (V w')) w"
proof -
  let ?f = "batch_fate (job_handler_timeout_us cfg) rnd 0 items (new_summary (length items))"
  let ?ctx = "PgJobContext (jid job) (cancel_poll_interval_us cfg)"
  obtain j where j: "T w (jid job) = Some j" "status j = processing" "cancel_requested_at j = None"
    using row assms(3,5) unfolding progressed_def by auto
  note on = progressed_trans [OF row j(1)]
  have loop: "wp (batch_loop S (clock (shared w) + job_handler_timeout_us cfg) rnd (length items) 0 items
      (new_summary (length items)) ?ctx)
    (\<lambda>res w'. quiet w' \<and> rds (shared w') = rds (shared w) \<and> progressed (jid job) job t (T w')
      \<and> clock (shared w') = clock (shared w) + snd ?f \<and> batch_ends (fst ?f) res) w"
    by (rule wp_conseq [OF wp_batch_running [where j = j]])
      (use assms(1) j on in \<open>auto simp: PgJobContext_def split: prod.splits\<close>)
  have settle: "wp (settle S cfg job r) (\<lambda>r w'. \<exists>row'. T w' = t(jid job \<mapsto> row')
      \<and> batch_settled S cfg (clock (shared w)) ?f job (V w) r row' (V w')) w1"
    if "quiet w1" "rds (shared w1) = rds (shared w)" "progressed (jid job) job t (T w1)"
      "clock (shared w1) = clock (shared w) + snd ?f"
      "r = (case fst ?f of Some sm \<Rightarrow> Done (summary_json sm) | None \<Rightarrow> TimedOut)" for r w1
    using wp_settle_batch [OF that(1,3) assms(3,4,6,7) that(4,5)] that(2) by simp
  show ?thesis
    unfolding run_payload_def Let_def valid sum.case run_with_timeout_def run_handler_def
      payload_model.case handle_batch_def
    by (intro wp_bind wp_utc_now, rule wp_conseq [OF loop])
      (auto simp: batch_ends_def split: option.splits prod.splits intro!: wp_return settle)
qed

lemma wp_process_batch:
  assumes "quiet w" and "T w i = Some j" and "claimable (status j)" and "user_id j \<noteq> None" and "jtype j = batch"
    and "cancel_requested_at j = None" and "0 \<le> attempts j" and "retry_backoff_schedule cfg \<noteq> []"
    and valid: "validate_payload P batch (payload j) (Some cfg) = Inr (BatchPayload items)"
  shows "wp (process_job S P cfg rnd i) (\<lambda>r w'. \<exists>row'. T w' = (T w)(i \<mapsto> row')
     \<and> batch_settled S cfg (clock (shared w))
         (batch_fate (job_handler_timeout_us cfg) rnd 0 items (new_summary (length items)))
         (j\<lparr>status := processing, started_at := Some (clock (shared w))\<rparr>) (V w) r row' (V w')) w"
proof -
  let ?c = "j\<lparr>status := processing, started_at := Some (clock (shared w))\<rparr>"
  let ?f = "batch_fate (job_handler_timeout_us cfg) rnd 0 items (new_summary (length items))"
  have i: "jid j = i" using tbl_id assms(2) by blast
  have run: "wp (run_payload S P cfg rnd ?c) (\<lambda>r w'. \<exists>row'. T w' = (T w)(i \<mapsto> row')
      \<and> batch_settled S cfg (clock (shared w)) ?f ?c (V w) r row' (V w')) w2"
    if "quiet w2" "T w2 = (T w)(i \<mapsto> ?c\<lparr>progress := Some 0\<rparr>)" "rds (shared w2) = rds (shared w)"
      "clock (shared w2) = clock (shared w)" for w2
    by (rule wp_conseq [OF wp_run_batch [of w2 ?c "T w" cfg P items rnd]])
      (use that i assms progressed_once [of i ?c "T w" "Some 0"] in auto)
  show ?thesis
    unfolding process_job_def
    by (intro wp_intros assms(1))
      (use assms in \<open>auto simp: i claimable_def split: option.splits intro!: run wp_return\<close>)
qed

end

text \<open>
  C4 (process_job_batch). A claimable batch job that has an owner, a valid payload and no cancel request, processed
  without interference, does what its items alone say: it completes with the summary of the items, progress 100 and
  one attempt more, exactly when the items' times fit in the handler's time together, and that summary accounts for
  every item once; otherwise it is retried or failed as a timeout. No other row changes, and the message is
  acknowledged.
\<close>

theorem process_job_batch:
  assumes "backend S tbl view idle" and "quiet w" and "tbl (db (shared w)) i = Some j"
    and "claimable (status j)" and "user_id j \<noteq> None" and "jtype j = batch" and "cancel_requested_at j = None"
    and "0 \<le> attempts j" and "retry_backoff_schedule cfg \<noteq> []"
    and "validate_payload P batch (payload j) (Some cfg) = Inr (BatchPayload items)"
    and "\<And>k. 0 \<le> nap (rnd k)" and "0 \<le> job_handler_timeout_us cfg"
    and "f = batch_fate (job_handler_timeout_us cfg) rnd 0 items (new_summary (length items))"
  shows "(case run_state (process_job S P cfg rnd i) w of (r, w') \<Rightarrow>
     \<exists>row'. tbl (db (shared w')) = (tbl (db (shared w)))(i \<mapsto> row')
       \<and> batch_settled S cfg (clock (shared w)) f (j\<lparr>status := processing, started_at := Some (clock (shared w))\<rparr>)
           (view (rds (shared w))) r row' (view (rds (shared w'))))
     \<and> (fst f \<noteq> None \<longleftrightarrow> (\<Sum>k \<leftarrow> [0 ..< length items]. nap (rnd k)) \<le> job_handler_timeout_us cfg)
     \<and> (\<forall>sm. fst f = Some sm \<longrightarrow> summary_ok (length items) (length items) sm)"
proof (intro conjI allI impI)
  show "case run_state (process_job S P cfg rnd i) w of (r, w') \<Rightarrow>
     \<exists>row'. tbl (db (shared w')) = (tbl (db (shared w)))(i \<mapsto> row')
       \<and> batch_settled S cfg (clock (shared w)) f (j\<lparr>status := processing, started_at := Some (clock (shared w))\<rparr>)
           (view (rds (shared w))) r row' (view (rds (shared w')))"
    using backend.wp_process_batch [OF assms(1-10), of rnd] unfolding assms(13) by (simp add: wp_def)
  show "fst f \<noteq> None \<longleftrightarrow> (\<Sum>k \<leftarrow> [0 ..< length items]. nap (rnd k)) \<le> job_handler_timeout_us cfg"
    using batch_fate_in_time [where rnd = rnd and i = 0 and items = items, OF assms(11,12)] unfolding assms(13) by simp
  show "summary_ok (length items) (length items) sm" if "fst f = Some sm" for sm
    using batch_fate_ok [OF summary_ok_new _ that [unfolded assms(13)]] by simp
qed

text \<open>A batch of two reports and one call of a webhook that fails.\<close>

definition sample_batch :: job where
  "sample_batch = (sample_job pending)\<lparr>jtype := batch, payload := JDict [(''items'', JList
     [JDict [(''type'', JStr ''report''), (''report_type'', JStr ''sales'')],
      JDict [(''type'', JStr ''webhook''), (''url'', JStr ''https://example.com/x'')],
      JDict [(''type'', JStr ''report''), (''report_type'', JStr ''ops'')]])]\<rparr>"

definition sample_draws :: "nat \<Rightarrow> draw" where
  "sample_draws k = \<lparr>nap = 2000000, coin = (k = 1), fresh_id = 5\<rparr>"

definition sample_batch_cfg :: settings where
  "sample_batch_cfg = sample_cfg\<lparr>webhook_allowed_hosts := [''example.com'']\<rparr>"

theorem process_job_batch_witness:
  "case run_state (process_job ref_services sample_schema sample_batch_cfg sample_draws 7) (sample_world [sample_batch]) of
     (r, w') \<Rightarrow> \<exists>row'. ref_tbl (db (shared w')) = (ref_tbl [sample_batch])(7 \<mapsto> row')
       \<and> r = Inr \<lparr>out_ack = True, label = ''completed''\<rparr> \<and> status row' = completed \<and> progress row' = Some 100
       \<and> completed_at row' = Some 1006000000"
proof -
  let ?items = "[ReportPayload sales None,
    WebhookPayload \<lparr>url_text = ''https://example.com/x'', url_host = Some ''example.com''\<rparr> ''POST'', ReportPayload ops None]"
  define f where "f = batch_fate (job_handler_timeout_us sample_batch_cfg) sample_draws 0 ?items (new_summary (length ?items))"
  have job: "user_id sample_batch = Some 1" "jtype sample_batch = batch" "cancel_requested_at sample_batch = None"
    "attempts sample_batch = 0" "status sample_batch = pending" "jid sample_batch = 7"
    by (simp_all add: sample_batch_def)
  have valid: "validate_payload sample_schema batch (payload sample_batch) (Some sample_batch_cfg) = Inr (BatchPayload ?items)"
    by code_simp
  have "fst f \<noteq> None" and spent: "snd f = 6000000" unfolding f_def by code_simp+
  then obtain sm where sm: "fst f = Some sm" by blast
  have cfg: "retry_backoff_schedule sample_batch_cfg \<noteq> []" "0 \<le> job_handler_timeout_us sample_batch_cfg" by code_simp+
  have naps: "0 \<le> nap (sample_draws k)" for k by (simp add: sample_draws_def)
  have "ref_tbl (db (shared (sample_world [sample_batch]))) 7 = Some sample_batch"
    using sample_simps(5) [of sample_batch] job by simp
  from process_job_batch [OF ref_backend _ this _ _ job(2,3) _ cfg(1) valid naps cfg(2) f_def, THEN conjunct1]
  show ?thesis by (auto simp: job batch_settled_def claimable_def sm spent split: prod.splits)
qed

end
