(* ===== verification/Logging.thy ===== *)
theory Logging
  imports Idempotency Config
begin

text \<open>
  \<open>app/core/logging.py\<close>: the context bound to log records, the filter that merges it, the formatter, and
  the set-up of the loggers. The logger tree and the record are those of the standard library's
  \<open>logging\<close> (Python 3.11); the text of a time and of a traceback are arguments.
\<close>

section \<open>Bound context\<close>

type_synonym log_fields = "(string \<times> json) list"

text \<open>\<open>{**a, **b}\<close>.\<close>

definition dict_merge :: "('k \<times> 'v) list \<Rightarrow> ('k \<times> 'v) list \<Rightarrow> ('k \<times> 'v) list" where
  "dict_merge a b = fold (\<lambda>(k, v) d. dict_set d k v) b a"

text \<open>
  A piece of code reads and sets the context variable, emits records, and ends with a value or an
  exception.
\<close>

record log_state =
  log_context :: log_fields
  lines :: "log_fields list"

type_synonym 'a logging_code = "log_state \<Rightarrow> (py_error + 'a) \<times> log_state"

text \<open>\<open>with bind_log_context(**fields): body\<close>; the token restores the value before \<open>set\<close> on every exit.\<close>

definition bind_log_context :: "log_fields \<Rightarrow> 'a logging_code \<Rightarrow> 'a logging_code" where
  "bind_log_context bound body st = (
     let token = log_context st in
     case body (st\<lparr>log_context := dict_merge (log_context st) bound\<rparr>) of
       (r, st') \<Rightarrow> (r, st'\<lparr>log_context := token\<rparr>))"

definition bind_static_log_context :: "log_fields \<Rightarrow> unit logging_code" where
  "bind_static_log_context bound st = (Inr (), st\<lparr>log_context := dict_merge (log_context st) bound\<rparr>)"

section \<open>Records\<close>

text \<open>
  The attributes every \<open>LogRecord\<close> has in its \<open>__dict__\<close>, those of its class, and the reserved names.
\<close>

definition LogRecord_dict :: "string list" where
  "LogRecord_dict = [''name'', ''msg'', ''args'', ''levelname'', ''levelno'', ''pathname'', ''filename'', ''module'',
     ''exc_info'', ''exc_text'', ''stack_info'', ''lineno'', ''funcName'', ''created'', ''msecs'', ''relativeCreated'',
     ''thread'', ''threadName'', ''processName'', ''process'']"

definition LogRecord_class :: "string list" where
  "LogRecord_class = [''__class__'', ''__delattr__'', ''__dict__'', ''__dir__'', ''__doc__'', ''__eq__'', ''__format__'', ''__ge__'',
     ''__getattribute__'', ''__getstate__'', ''__gt__'', ''__hash__'', ''__init__'', ''__init_subclass__'', ''__le__'', ''__lt__'',
     ''__module__'', ''__ne__'', ''__new__'', ''__reduce__'', ''__reduce_ex__'', ''__repr__'', ''__setattr__'', ''__sizeof__'',
     ''__str__'', ''__subclasshook__'', ''__weakref__'', ''getMessage'']"

definition RESERVED :: "string list" where
  "RESERVED = LogRecord_dict @ [''message'', ''asctime'', ''taskName'']"

text \<open>
  A record: what its standard attributes say, and the further entries of its \<open>__dict__\<close> in order. The
  record factory of the OpenTelemetry instrumentation adds its entries before \<open>extra\<close> is merged.
\<close>

record log_record =
  created :: timestamp
  levelname :: string
  logger_name :: string
  message :: string
  exception :: "string option"
  attrs :: log_fields

definition hasattr_record :: "log_record \<Rightarrow> string \<Rightarrow> bool" where
  "hasattr_record r k \<longleftrightarrow> k \<in> set LogRecord_dict \<or> k \<in> set LogRecord_class \<or> k \<in> fst ` set (attrs r)"

text \<open>\<open>Logger.makeRecord\<close>: an \<open>extra\<close> field may not replace an attribute.\<close>

fun add_extra :: "log_fields \<Rightarrow> log_record \<Rightarrow> py_error + log_record" where
  "add_extra [] r = Inr r"
| "add_extra ((k, v) # extra) r =
     (if k \<in> {''message'', ''asctime''} \<or> k \<in> set LogRecord_dict \<or> k \<in> fst ` set (attrs r) then Inl KeyError
      else add_extra extra (r\<lparr>attrs := attrs r @ [(k, v)]\<rparr>))"

text \<open>\<open>ContextFilter.filter\<close>.\<close>

fun merge_context :: "log_fields \<Rightarrow> log_record \<Rightarrow> log_record" where
  "merge_context [] r = r"
| "merge_context ((k, v) # ctx) r =
     merge_context ctx (if hasattr_record r k then r else r\<lparr>attrs := attrs r @ [(k, v)]\<rparr>)"

definition ContextFilter_filter :: "log_fields \<Rightarrow> log_record \<Rightarrow> bool \<times> log_record" where
  "ContextFilter_filter ctx r = (True, merge_context ctx r)"

definition starts_with :: "string \<Rightarrow> string \<Rightarrow> bool" where
  "starts_with p s \<longleftrightarrow> take (length p) s = p"

text \<open>\<open>JsonFormatter.format\<close>: the dictionary, and its text.\<close>

definition hidden :: "string \<Rightarrow> bool" where
  "hidden k \<longleftrightarrow> k \<in> set RESERVED \<or> starts_with ''otel'' k"

definition getattr_record :: "log_record \<Rightarrow> string \<Rightarrow> json \<Rightarrow> json" where
  "getattr_record r k d = (case dict_get (attrs r) k of Some v \<Rightarrow> v | None \<Rightarrow> d)"

definition format_fields :: "(timestamp \<Rightarrow> string) \<Rightarrow> log_record \<Rightarrow> log_fields" where
  "format_fields isoformat r = (
     let out = [(''timestamp'', JStr (isoformat (created r))), (''level'', JStr (py_lower (levelname r))),
                (''logger'', JStr (logger_name r)), (''event'', JStr (message r))];
         out = fold (\<lambda>(k, v) out. if hidden k then out else dict_set out k v) (attrs r) out;
         trace_id = getattr_record r ''otelTraceID'' (JStr ''0'');
         out = (if trace_id \<noteq> JStr ''0''
                then dict_set (dict_set out ''trace_id'' trace_id) ''span_id'' (getattr_record r ''otelSpanID'' (JStr ''0''))
                else out);
         out = (case exception r of Some t \<Rightarrow> dict_set out ''exception'' (JStr t) | None \<Rightarrow> out)
     in out)"

definition JsonFormatter_format :: "(timestamp \<Rightarrow> string) \<Rightarrow> log_record \<Rightarrow> string" where
  "JsonFormatter_format isoformat r = json_dumps False '', '' '': '' (JDict (format_fields isoformat r))"

text \<open>
  One call \<open>log.info(event, extra=...)\<close> of an enabled logger, as far as the handler on standard output:
  the record is made, filtered and formatted. \<open>otel\<close> are the entries the record factory adds.
\<close>

definition emit :: "(timestamp \<Rightarrow> string) \<Rightarrow> log_fields \<Rightarrow> log_record \<Rightarrow> log_fields \<Rightarrow> unit logging_code" where
  "emit isoformat otel r extra st = (case add_extra extra (r\<lparr>attrs := otel\<rparr>) of
     Inl e \<Rightarrow> (Inl e, st)
   | Inr r \<Rightarrow> (case ContextFilter_filter (log_context st) r of (keep, r) \<Rightarrow>
       (Inr (), if keep then st\<lparr>lines := lines st @ [format_fields isoformat r]\<rparr> else st)))"

section \<open>What a line shows\<close>

lemma map_of_merge: "distinct (map fst b) \<Longrightarrow> map_of (dict_merge a b) = map_of a ++ map_of b"
  unfolding dict_merge_def
proof (induction b arbitrary: a)
  case (Cons p b)
  obtain k v where p: "p = (k, v)" by fastforce
  have "map_of b k = None" using Cons.prems by (simp add: p map_of_eq_None_iff)
  moreover have "map_of (fold (\<lambda>(k, v) d. dict_set d k v) b (dict_set a k v)) = (map_of a)(k \<mapsto> v) ++ map_of b"
    by (rule Cons.IH [of "dict_set a k v", unfolded map_of_dict_set]) (use Cons.prems in simp)
  ultimately show ?case by (simp add: p fun_eq_iff map_add_def split: option.split)
qed simp

lemma map_of_shown:
  "distinct (map fst as) \<Longrightarrow> map_of (fold (\<lambda>(k, v) out. if hidden k then out else dict_set out k v) as out) k =
     (if hidden k then map_of out k else case map_of as k of Some v \<Rightarrow> Some v | None \<Rightarrow> map_of out k)"
proof (induction "as" arbitrary: out)
  case (Cons p as)
  obtain k' v where p: "p = (k', v)" by fastforce
  have "map_of as k' = None" using Cons.prems by (simp add: p map_of_eq_None_iff)
  then show ?case using Cons.IH Cons.prems by (simp add: p split: option.split)
qed simp

lemma merge_context_attrs:
  "map_of (attrs (merge_context ctx r)) k = (case map_of (attrs r) k of Some v \<Rightarrow> Some v
     | None \<Rightarrow> if k \<in> set LogRecord_dict \<or> k \<in> set LogRecord_class then None else map_of ctx k)"
proof (induction ctx arbitrary: r)
  case (Cons p ctx)
  obtain k' v where p: "p = (k', v)" by fastforce
  have new: "map_of (attrs r @ [(k', v)]) k = (case map_of (attrs r) k of Some v \<Rightarrow> Some v | None \<Rightarrow> if k = k' then Some v else None)"
    by (simp add: map_add_def split: option.split)
  have old: "map_of (attrs r) k' \<noteq> None \<longleftrightarrow> k' \<in> fst ` set (attrs r)" by (simp add: map_of_eq_None_iff)
  show ?case
  proof (cases "hasattr_record r k'")
    case True
    then show ?thesis using Cons.IH [of r] old by (cases "k = k'") (auto simp: p hasattr_record_def split: option.split)
  next
    case False
    with Cons.IH [of "r\<lparr>attrs := attrs r @ [(k', v)]\<rparr>"] new show ?thesis
      by (cases "k = k'") (auto simp: p hasattr_record_def split: option.split)
  qed
qed (simp split: option.split)

lemma merge_context_distinct: "distinct (map fst (attrs r)) \<Longrightarrow> distinct (map fst (attrs (merge_context ctx r)))"
  by (induction ctx arbitrary: r) (auto simp: hasattr_record_def)

lemma merge_context_keeps [simp]:
  "created (merge_context ctx r) = created r" "levelname (merge_context ctx r) = levelname r"
  "logger_name (merge_context ctx r) = logger_name r" "message (merge_context ctx r) = message r"
  "exception (merge_context ctx r) = exception r"
  by (induction ctx arbitrary: r) auto

text \<open>The names an \<open>extra\<close> field may not have.\<close>

definition taken :: "log_fields \<Rightarrow> string \<Rightarrow> bool" where
  "taken otel k \<longleftrightarrow> k = ''message'' \<or> k = ''asctime'' \<or> k \<in> set LogRecord_dict \<or> k \<in> fst ` set otel"

lemma add_extra_outcome:
  assumes "distinct (map fst extra)"
  shows "add_extra extra r = (if \<exists>k \<in> fst ` set extra. taken (attrs r) k then Inl KeyError else Inr (r\<lparr>attrs := attrs r @ extra\<rparr>))"
  using assms
proof (induction extra arbitrary: r)
  case (Cons p extra)
  obtain k v where p: "p = (k, v)" by fastforce
  have "taken (attrs r @ [(k, v)]) k' \<longleftrightarrow> taken (attrs r) k'" if "k' \<in> fst ` set extra" for k'
    using that Cons.prems p by (auto simp: taken_def)
  then show ?case
    using Cons p by (auto simp: taken_def)
qed simp

definition fixed_fields :: "(timestamp \<Rightarrow> string) \<Rightarrow> log_record \<Rightarrow> string \<rightharpoonup> json" where
  "fixed_fields isoformat r = [''timestamp'' \<mapsto> JStr (isoformat (created r)), ''level'' \<mapsto> JStr (py_lower (levelname r)),
     ''logger'' \<mapsto> JStr (logger_name r), ''event'' \<mapsto> JStr (message r)]"

lemma format_lookup:
  assumes "distinct (map fst (attrs r))" and "\<not> hidden k" and "k \<notin> {''trace_id'', ''span_id'', ''exception''}"
  shows "dict_get (format_fields isoformat r) k = (case dict_get (attrs r) k of Some v \<Rightarrow> Some v | None \<Rightarrow> fixed_fields isoformat r k)"
proof -
  let ?fixed = "[(''timestamp'', JStr (isoformat (created r))), (''level'', JStr (py_lower (levelname r))),
      (''logger'', JStr (logger_name r)), (''event'', JStr (message r))]"
  let ?shown_fields = "fold (\<lambda>(k, v) out. if hidden k then out else dict_set out k v) (attrs r) ?fixed"
  have "dict_get (format_fields isoformat r) k = map_of ?shown_fields k"
    using assms(3) by (simp add: format_fields_def Let_def split: option.split)
  also have "\<dots> = (case map_of (attrs r) k of Some v \<Rightarrow> Some v | None \<Rightarrow> map_of ?fixed k)"
    using map_of_shown [OF assms(1), of ?fixed k] assms(2) by simp
  also have "map_of ?fixed k = fixed_fields isoformat r k" by (simp add: fixed_fields_def)
  finally show ?thesis .
qed

definition line_key :: "string \<Rightarrow> bool" where
  "line_key k \<longleftrightarrow> \<not> hidden k \<and> k \<notin> {''trace_id'', ''span_id'', ''exception''} \<and> k \<notin> set LogRecord_class"

lemma emitted_line:
  assumes "distinct (map fst extra)" and "distinct (map fst otel)" and "list_all (\<lambda>(k, _). starts_with ''otel'' k) otel"
    and "\<not> (\<exists>k \<in> fst ` set extra. taken otel k)"
  shows "\<exists>line. emit isoformat otel r extra st = (Inr (), st\<lparr>lines := lines st @ [line]\<rparr>)
     \<and> (\<forall>k. line_key k \<longrightarrow> dict_get line k = (fixed_fields isoformat r ++ map_of (log_context st) ++ map_of extra) k)"
proof -
  let ?r = "r\<lparr>attrs := otel @ extra\<rparr>"
  let ?m = "merge_context (log_context st) ?r"
  have extra: "add_extra extra (r\<lparr>attrs := otel\<rparr>) = Inr ?r"
    using add_extra_outcome [OF assms(1), of "r\<lparr>attrs := otel\<rparr>"] assms(4) by simp
  have dist: "distinct (map fst (attrs ?m))"
    by (rule merge_context_distinct) (use assms(1,2,4) in \<open>force simp: taken_def\<close>)
  have "dict_get (format_fields isoformat ?m) k = (fixed_fields isoformat r ++ map_of (log_context st) ++ map_of extra) k"
    if "line_key k" for k
  proof -
    have "k \<notin> fst ` set otel" using that assms(3) by (auto simp: line_key_def hidden_def list_all_iff)
    then have "map_of otel k = None" by (simp add: map_of_eq_None_iff)
    then have "map_of (otel @ extra) k = map_of extra k" by (simp add: map_add_def split: option.split)
    moreover have "k \<notin> set LogRecord_dict" "k \<notin> set LogRecord_class"
      using that by (auto simp: line_key_def hidden_def RESERVED_def)
    ultimately have "dict_get (attrs ?m) k = (map_of (log_context st) ++ map_of extra) k"
      unfolding merge_context_attrs by (simp add: map_add_def split: option.split)
    moreover have "fixed_fields isoformat ?m = fixed_fields isoformat r" by (simp add: fixed_fields_def)
    ultimately show ?thesis
      using format_lookup [OF dist, of k isoformat] that by (simp add: line_key_def map_add_def split: option.split)
  qed
  then show ?thesis by (auto simp: emit_def extra ContextFilter_filter_def)
qed

section \<open>Loggers\<close>

text \<open>A logger by the components of its dotted name; the root logger has none. A level of 0 is \<open>NOTSET\<close>.\<close>

type_synonym logger = "string list"

datatype log_handler = StdoutHandler | OtelHandler nat | OtherHandler nat

record logger_tree =
  level_of :: "logger \<Rightarrow> nat"
  handlers_of :: "logger \<Rightarrow> log_handler list"
  propagate_of :: "logger \<Rightarrow> bool"

definition setLevel :: "logger \<Rightarrow> nat \<Rightarrow> logger_tree \<Rightarrow> logger_tree" where
  "setLevel lg n t = t\<lparr>level_of := (level_of t)(lg := n)\<rparr>"

definition set_handlers :: "logger \<Rightarrow> log_handler list \<Rightarrow> logger_tree \<Rightarrow> logger_tree" where
  "set_handlers lg hs t = t\<lparr>handlers_of := (handlers_of t)(lg := hs)\<rparr>"

definition addHandler :: "logger \<Rightarrow> log_handler \<Rightarrow> logger_tree \<Rightarrow> logger_tree" where
  "addHandler lg h t = (if h \<in> set (handlers_of t lg) then t else set_handlers lg (handlers_of t lg @ [h]) t)"

definition removeHandler :: "logger \<Rightarrow> log_handler \<Rightarrow> logger_tree \<Rightarrow> logger_tree" where
  "removeHandler lg h t = set_handlers lg (remove1 h (handlers_of t lg)) t"

definition set_propagate :: "logger \<Rightarrow> bool \<Rightarrow> logger_tree \<Rightarrow> logger_tree" where
  "set_propagate lg b t = t\<lparr>propagate_of := (propagate_of t)(lg := b)\<rparr>"

text \<open>\<open>getEffectiveLevel\<close> and \<open>callHandlers\<close>: up to the root, or to a logger that does not propagate.\<close>

function effective_level :: "logger_tree \<Rightarrow> logger \<Rightarrow> nat" where
  "effective_level t lg = (if level_of t lg \<noteq> 0 \<or> lg = [] then level_of t lg else effective_level t (butlast lg))"
  by auto
termination by (relation "measure (\<lambda>(t, lg). length lg)") auto

function called_handlers :: "logger_tree \<Rightarrow> logger \<Rightarrow> log_handler list" where
  "called_handlers t lg = handlers_of t lg @ (if lg = [] \<or> \<not> propagate_of t lg then [] else called_handlers t (butlast lg))"
  by auto
termination by (relation "measure (\<lambda>(t, lg). length lg)") auto

declare effective_level.simps [simp del] called_handlers.simps [simp del]

text \<open>The handlers a call of level \<open>n\<close> reaches.\<close>

definition log_call :: "logger_tree \<Rightarrow> logger \<Rightarrow> nat \<Rightarrow> log_handler list" where
  "log_call t lg n = (if effective_level t lg \<le> n then called_handlers t lg else [])"

text \<open>
  \<open>getattr(logging, log_level.upper(), logging.INFO)\<close> and what \<open>setLevel\<close> makes of the attribute. The only
  upper-case attributes of the module besides the levels are a format text and a dictionary. Upper case
  concerns the ASCII letters: no attribute name has another letter.
\<close>

datatype level_attr = Level nat | NotALevelName | NotALevel

definition py_upper :: "string \<Rightarrow> string" where
  "py_upper = map (\<lambda>c. let n = of_char c :: nat in if 97 \<le> n \<and> n \<le> 122 then char_of (n - 32) else c)"

definition logging_attrs :: "(string \<times> level_attr) list" where
  "logging_attrs = [(''CRITICAL'', Level 50), (''FATAL'', Level 50), (''ERROR'', Level 40), (''WARNING'', Level 30), (''WARN'', Level 30),
     (''INFO'', Level 20), (''DEBUG'', Level 10), (''NOTSET'', Level 0), (''BASIC_FORMAT'', NotALevelName), (''_STYLES'', NotALevel)]"

definition checkLevel :: "level_attr \<Rightarrow> py_error + nat" where
  "checkLevel a = (case a of Level n \<Rightarrow> Inr n | NotALevelName \<Rightarrow> Inl (ValueError ''Unknown level'') | NotALevel \<Rightarrow> Inl TypeError)"

definition WARNING :: nat where "WARNING = 30"

definition configured_level :: "string \<Rightarrow> py_error + nat" where
  "configured_level name = checkLevel (case dict_get logging_attrs (py_upper name) of Some a \<Rightarrow> a | None \<Rightarrow> Level 20)"

definition hijack :: "logger \<Rightarrow> logger_tree \<Rightarrow> logger_tree" where
  "hijack lg t = setLevel lg WARNING (set_propagate lg True (set_handlers lg [] t))"

definition configure_logging :: "string \<Rightarrow> logger_tree \<Rightarrow> (py_error + unit) \<times> logger_tree" where
  "configure_logging name t = (
     let t = set_handlers [] [] t;
         t = addHandler [] StdoutHandler t;
         t = setLevel [] WARNING t
     in case configured_level name of
          Inl e \<Rightarrow> (Inl e, t)
        | Inr n \<Rightarrow>
            let t = setLevel [''app''] n t
            in (Inr (), fold hijack [[''uvicorn''], [''uvicorn'', ''error''], [''uvicorn'', ''access'']] t))"

text \<open>
  A process in which nobody but the server has set up loggers: no other logger has a level or a handler
  of its own or stops propagating.
\<close>

definition untouched :: "logger_tree \<Rightarrow> bool" where
  "untouched t \<longleftrightarrow> (\<forall>lg. lg \<noteq> [] \<and> lg \<notin> {[''uvicorn''], [''uvicorn'', ''error''], [''uvicorn'', ''access'']} \<longrightarrow>
     level_of t lg = 0 \<and> handlers_of t lg = [] \<and> propagate_of t lg)"

text \<open>After the set-up: who has a level, and that every record reaches the one handler of the root.\<close>

definition configured :: "nat \<Rightarrow> log_handler list \<Rightarrow> logger_tree \<Rightarrow> bool" where
  "configured n hs t \<longleftrightarrow> handlers_of t [] = hs \<and> level_of t [] = WARNING \<and> level_of t [''app''] = n
     \<and> (\<forall>lg. lg \<noteq> [] \<longrightarrow> handlers_of t lg = [] \<and> propagate_of t lg)
     \<and> (\<forall>lg. lg \<noteq> [] \<and> lg \<noteq> [''app''] \<longrightarrow> level_of t lg = 0 \<or> level_of t lg = WARNING \<and> hd lg = ''uvicorn'')"

lemma configure_configured:
  assumes "untouched t" and "configured_level name = Inr n"
  shows "fst (configure_logging name t) = Inr () \<and> configured n [StdoutHandler] (snd (configure_logging name t))"
  using assms
  by (auto simp: configure_logging_def Let_def untouched_def configured_def hijack_def setLevel_def set_propagate_def
      set_handlers_def addHandler_def)

lemma configured_handlers: "configured n hs t \<Longrightarrow> called_handlers t lg = hs"
proof (induction lg rule: rev_induct)
  case (snoc x lg)
  then show ?case by (subst called_handlers.simps) (simp add: configured_def)
qed (simp add: called_handlers.simps [of t "[]"] configured_def)

lemma configured_level:
  assumes "configured n hs t"
  shows "effective_level t lg = (if lg \<noteq> [] \<and> hd lg = ''app'' \<and> n \<noteq> 0 then n else WARNING)"
proof (induction lg rule: rev_induct)
  case Nil
  then show ?case using assms by (simp add: effective_level.simps [of t "[]"] configured_def)
next
  case (snoc x lg)
  have "level_of t (lg @ [x]) = 0 \<or> lg @ [x] = [''app''] \<or> level_of t (lg @ [x]) = WARNING \<and> hd (lg @ [x]) = ''uvicorn''"
    using assms snoc_eq_iff_butlast [of lg x "lg @ [x]"] unfolding configured_def by blast
  moreover have "level_of t [''app''] = n" "(0 :: nat) < WARNING" using assms by (simp_all add: configured_def WARNING_def)
  ultimately show ?case
    using snoc by (subst effective_level.simps) (cases lg; auto)
qed

section \<open>Properties\<close>

text \<open>
  C38 (log_lines_in_context). Fields bound with \<open>bind_log_context\<close> hold for the block and no longer: however the
  block ends, the context is the one before. A call inside it writes one line, in which every field is
  that of the call's \<open>extra\<close>, or else the bound one, or else the outer one, or else the fixed one; it
  raises, and writes nothing, exactly when \<open>extra\<close> names an attribute of the record. The
  fields meant are all but the reserved ones.
\<close>

theorem log_lines_in_context:
  assumes "distinct (map fst bound)" and "distinct (map fst extra)" and "distinct (map fst otel)"
    and "list_all (\<lambda>(k, _). starts_with ''otel'' k) otel"
  shows "log_context (snd (bind_log_context bound body st)) = log_context st
   \<and> fst (bind_log_context bound body st) = fst (body (st\<lparr>log_context := dict_merge (log_context st) bound\<rparr>))
   \<and> (if \<exists>k \<in> fst ` set extra. taken otel k
      then bind_log_context bound (emit isoformat otel r extra) st = (Inl KeyError, st)
      else \<exists>line. bind_log_context bound (emit isoformat otel r extra) st = (Inr (), st\<lparr>lines := lines st @ [line]\<rparr>)
        \<and> (\<forall>k. line_key k \<longrightarrow> dict_get line k =
              (fixed_fields isoformat r ++ map_of (log_context st) ++ map_of bound ++ map_of extra) k))"
proof (intro conjI)
  let ?st = "st\<lparr>log_context := dict_merge (log_context st) bound\<rparr>"
  show "if \<exists>k \<in> fst ` set extra. taken otel k
      then bind_log_context bound (emit isoformat otel r extra) st = (Inl KeyError, st)
      else \<exists>line. bind_log_context bound (emit isoformat otel r extra) st = (Inr (), st\<lparr>lines := lines st @ [line]\<rparr>)
        \<and> (\<forall>k. line_key k \<longrightarrow> dict_get line k =
              (fixed_fields isoformat r ++ map_of (log_context st) ++ map_of bound ++ map_of extra) k)"
  proof (cases "\<exists>k \<in> fst ` set extra. taken otel k")
    case True
    then have "emit isoformat otel r extra ?st = (Inl KeyError, ?st)"
      using add_extra_outcome [OF assms(2), of "r\<lparr>attrs := otel\<rparr>"] by (simp add: emit_def)
    with True show ?thesis by (simp add: bind_log_context_def)
  next
    case False
    from emitted_line [OF assms(2-4) this, of isoformat r ?st] obtain line where
      "emit isoformat otel r extra ?st = (Inr (), ?st\<lparr>lines := lines ?st @ [line]\<rparr>)"
      "\<forall>k. line_key k \<longrightarrow> dict_get line k =
         (fixed_fields isoformat r ++ map_of (dict_merge (log_context st) bound) ++ map_of extra) k"
      by auto
    with False show ?thesis
      by (auto simp: bind_log_context_def map_of_merge [OF assms(1)] map_add_assoc)
  qed
qed (simp_all add: bind_log_context_def Let_def split: prod.split)

text \<open>The worker's own fields: a retry inside the block of a message names the job, the stream and the consumer.\<close>

theorem log_lines_in_context_witness:
  "\<exists>line. snd (bind_log_context [(''job_id'', JStr ''7''), (''stream'', JStr ''high'')]
       (emit (\<lambda>_. ''now'') [(''otelTraceID'', JStr ''0'')] \<lparr>created = 0, levelname = ''INFO'', logger_name = ''app.retry'', message = ''retry.immediate'',
          exception = None, attrs = []\<rparr> [(''won'', JBool True)])
       \<lparr>log_context = [(''consumer'', JStr ''worker'')], lines = []\<rparr>)
     = \<lparr>log_context = [(''consumer'', JStr ''worker'')], lines = [line]\<rparr>
   \<and> dict_get line ''job_id'' = Some (JStr ''7'') \<and> dict_get line ''consumer'' = Some (JStr ''worker'')
   \<and> dict_get line ''won'' = Some (JBool True) \<and> dict_get line ''level'' = Some (JStr ''info'')"
proof -
  let ?bound = "[(''job_id'', JStr ''7''), (''stream'', JStr ''high'')]" and ?extra = "[(''won'', JBool True)]"
  let ?otel = "[(''otelTraceID'', JStr ''0'')]"
  let ?r = "\<lparr>created = 0, levelname = ''INFO'', logger_name = ''app.retry'', message = ''retry.immediate'', exception = None, attrs = []\<rparr>"
  let ?st = "\<lparr>log_context = [(''consumer'', JStr ''worker'')], lines = []\<rparr>"
  have line_key: "line_key ''job_id'' \<and> line_key ''consumer'' \<and> line_key ''won'' \<and> line_key ''level''" by code_simp
  have "\<not> (\<exists>k \<in> fst ` set ?extra. taken ?otel k)" by code_simp
  moreover have "py_lower ''INFO'' = ''info''" by code_simp
  ultimately show ?thesis
    using log_lines_in_context [of ?bound ?extra ?otel "emit (\<lambda>_. ''now'') ?otel ?r ?extra" ?st "\<lambda>_. ''now''" ?r] line_key
    by (auto simp: starts_with_def fixed_fields_def map_add_def)
qed

end
