(* ===== verification/Telemetry.thy ===== *)
theory Telemetry
  imports Logging
begin

text \<open>
  \<open>app/core/telemetry.py\<close>: setting up and shutting down OpenTelemetry. The SDK is a parameter: which of its
  calls raises is an argument, and of its objects only the providers that run and the log handler are
  kept. The logger tree is that of \<open>Logging\<close>.
\<close>

section \<open>Definitions\<close>

text \<open>A provider with the attributes of its resource and the endpoint it exports to.\<close>

type_synonym resource = "(string \<times> string) list"

datatype provider = TracerProvider resource string | MeterProvider resource string | LoggerProvider resource string

definition resource_attributes :: "string \<Rightarrow> string option \<Rightarrow> resource" where
  "resource_attributes service_name instance_id =
     (let attributes = [(''service.name'', service_name)]
      in case instance_id of None \<Rightarrow> attributes | Some i \<Rightarrow> dict_set attributes ''service.instance.id'' i)"

text \<open>The calls that can raise, in the order of \<open>configure_telemetry\<close>.\<close>

datatype setup_call =
    Resource_create
  | New_TracerProvider
  | Set_tracer_provider
  | New_MeterProvider
  | Set_meter_provider
  | New_LoggerProvider
  | Set_logger_provider
  | New_LoggingHandler
  | Instrument_logging
  | Instrument_sqlalchemy
  | Instrument_redis

text \<open>
  The state: the logger tree, the two lists of \<open>_state\<close>, the providers whose exporters have been started
  and those shut down, the instrumented libraries, and the warnings logged.
\<close>

record telemetry =
  tree :: logger_tree
  state_providers :: "provider list"
  state_handlers :: "log_handler list"
  started :: "provider list"
  stopped :: "provider list"
  instrumented :: "string list"
  warnings :: "string list"

definition start_provider :: "provider \<Rightarrow> telemetry \<Rightarrow> telemetry" where
  "start_provider p w = w\<lparr>started := started w @ [p]\<rparr>"

definition instrument :: "string \<Rightarrow> telemetry \<Rightarrow> telemetry" where
  "instrument lib w = w\<lparr>instrumented := instrumented w @ [lib]\<rparr>"

definition add_otel_handler :: "log_handler \<Rightarrow> telemetry \<Rightarrow> telemetry" where
  "add_otel_handler h w = w\<lparr>tree := addHandler [] h (tree w), state_handlers := state_handlers w @ [h]\<rparr>"

text \<open>The body of the \<open>try\<close>; \<open>n\<close> tells the log handler of this call from those of others.\<close>

definition setup_calls :: "resource \<Rightarrow> string \<Rightarrow> nat \<Rightarrow> (setup_call \<times> (telemetry \<Rightarrow> telemetry)) list" where
  "setup_calls res endpoint n =
     [(Resource_create, id),
      (New_TracerProvider, start_provider (TracerProvider res endpoint)), (Set_tracer_provider, id),
      (New_MeterProvider, start_provider (MeterProvider res endpoint)), (Set_meter_provider, id),
      (New_LoggerProvider, start_provider (LoggerProvider res endpoint)), (Set_logger_provider, id),
      (New_LoggingHandler, add_otel_handler (OtelHandler n)),
      (Instrument_logging, instrument ''logging''), (Instrument_sqlalchemy, instrument ''sqlalchemy''),
      (Instrument_redis, instrument ''redis'')]"

fun run_setup ::
  "(setup_call \<Rightarrow> bool) \<Rightarrow> (setup_call \<times> (telemetry \<Rightarrow> telemetry)) list \<Rightarrow> telemetry \<Rightarrow> bool \<times> telemetry" where
  "run_setup raises [] w = (True, w)"
| "run_setup raises ((c, f) # calls) w = (if raises c then (False, w) else run_setup raises calls (f w))"

definition configure_telemetry ::
  "(setup_call \<Rightarrow> bool) \<Rightarrow> settings \<Rightarrow> string \<Rightarrow> string option \<Rightarrow> nat \<Rightarrow> telemetry \<Rightarrow> telemetry" where
  "configure_telemetry raises cfg service_name instance_id n w = (
     if \<not> otel_enabled cfg then w
     else
       let res = resource_attributes service_name instance_id; endpoint = otel_exporter_otlp_endpoint cfg
       in case run_setup raises (setup_calls res endpoint n) w of
         (ok, w) \<Rightarrow>
           if ok then w\<lparr>state_providers := [TracerProvider res endpoint, MeterProvider res endpoint, LoggerProvider res endpoint]\<rparr>
           else w\<lparr>warnings := warnings w @ [''telemetry.configure_failed'']\<rparr>)"

text \<open>\<open>shutdown_telemetry\<close>: the flag is whether it returns; a provider's \<open>shutdown\<close> may raise.\<close>

fun stop_providers :: "(provider \<Rightarrow> bool) \<Rightarrow> provider list \<Rightarrow> telemetry \<Rightarrow> bool \<times> telemetry" where
  "stop_providers raises [] w = (True, w)"
| "stop_providers raises (p # ps) w =
     (if raises p then (False, w) else stop_providers raises ps (w\<lparr>stopped := stopped w @ [p]\<rparr>))"

definition shutdown_telemetry :: "(provider \<Rightarrow> bool) \<Rightarrow> telemetry \<Rightarrow> bool \<times> telemetry" where
  "shutdown_telemetry raises w = (
     let w = w\<lparr>tree := fold (removeHandler []) (state_handlers w) (tree w), state_handlers := []\<rparr>
     in case stop_providers raises (state_providers w) w of
          (ok, w) \<Rightarrow> (ok, if ok then w\<lparr>state_providers := []\<rparr> else w))"

definition current_trace_carrier :: "((string \<times> string) list \<Rightarrow> (string \<times> string) list) \<Rightarrow> (string \<times> string) list option" where
  "current_trace_carrier inject_carrier = (let carrier = inject_carrier [] in if carrier = [] then None else Some carrier)"

section \<open>What a set-up leaves behind\<close>

text \<open>The calls before the first that raises.\<close>

definition done_calls :: "(setup_call \<Rightarrow> bool) \<Rightarrow> setup_call list" where
  "done_calls raises = takeWhile (\<lambda>c. \<not> raises c) (map fst (setup_calls [] [] 0))"

lemma run_setup_fold:
  "run_setup raises calls w = (list_all (\<lambda>(c, _). \<not> raises c) calls, fold snd (takeWhile (\<lambda>(c, _). \<not> raises c) calls) w)"
  by (induction calls arbitrary: w) auto

lemma stop_providers_all:
  "stop_providers (\<lambda>_. False) ps w = (True, w\<lparr>stopped := stopped w @ ps\<rparr>)"
  by (induction ps arbitrary: w) auto

lemma remove_added: "h \<notin> set (handlers_of t lg) \<Longrightarrow> removeHandler lg h (addHandler lg h t) = t"
  by (cases t) (simp add: removeHandler_def addHandler_def set_handlers_def remove1_append)

text \<open>The running set-up, by the calls that were made.\<close>

definition providers_of :: "resource \<Rightarrow> string \<Rightarrow> setup_call list \<Rightarrow> provider list" where
  "providers_of res endpoint calls = (if New_TracerProvider \<in> set calls then [TracerProvider res endpoint] else [])
     @ (if New_MeterProvider \<in> set calls then [MeterProvider res endpoint] else [])
     @ (if New_LoggerProvider \<in> set calls then [LoggerProvider res endpoint] else [])"

lemma setup_effect:
  assumes "run_setup raises (setup_calls res endpoint n) w = (ok, w')"
  shows "ok \<longleftrightarrow> (\<forall>c. \<not> raises c)" and "started w' = started w @ providers_of res endpoint (done_calls raises)"
    and "tree w' = (if New_LoggingHandler \<in> set (done_calls raises) then addHandler [] (OtelHandler n) (tree w) else tree w)"
    and "state_handlers w' = state_handlers w @ (if New_LoggingHandler \<in> set (done_calls raises) then [OtelHandler n] else [])"
    and "state_providers w' = state_providers w" and "stopped w' = stopped w"
proof -
  have all: "(\<forall>c. \<not> raises c) \<longleftrightarrow> list_all (\<lambda>(c, _). \<not> raises c) (setup_calls res endpoint n)"
  proof
    assume calls: "list_all (\<lambda>(c, _). \<not> raises c) (setup_calls res endpoint n)"
    show "\<forall>c. \<not> raises c"
    proof
      fix c
      show "\<not> raises c" using calls by (cases c) (simp_all add: setup_calls_def)
    qed
  qed (simp add: setup_calls_def)
  show "ok \<longleftrightarrow> (\<forall>c. \<not> raises c)" using assms by (simp add: run_setup_fold all)
  note defs = done_calls_def setup_calls_def providers_of_def start_provider_def instrument_def add_otel_handler_def
  show "started w' = started w @ providers_of res endpoint (done_calls raises)"
    "tree w' = (if New_LoggingHandler \<in> set (done_calls raises) then addHandler [] (OtelHandler n) (tree w) else tree w)"
    "state_handlers w' = state_handlers w @ (if New_LoggingHandler \<in> set (done_calls raises) then [OtelHandler n] else [])"
    "state_providers w' = state_providers w" "stopped w' = stopped w"
    using assms by (auto simp: defs split: if_splits)
qed

text \<open>Shutting down, when no provider raises: the recorded handlers are gone, and the recorded providers stopped.\<close>

lemma stop_providers_ok: "stop_providers raises ps w = (True, w') \<Longrightarrow> w' = w\<lparr>stopped := stopped w @ ps\<rparr>"
  by (induction ps arbitrary: w) (fastforce split: if_splits)+

lemma shutdown_effect:
  assumes "shutdown_telemetry raises w = (True, w')"
  shows "tree w' = fold (removeHandler []) (state_handlers w) (tree w)" and "state_handlers w' = []"
    and "state_providers w' = []" and "stopped w' = stopped w @ state_providers w"
  using assms by (auto simp: shutdown_telemetry_def Let_def dest!: stop_providers_ok split: prod.splits if_splits)

lemma shutdown_never_raises: "fst (shutdown_telemetry (\<lambda>_. False) w)"
  by (simp add: shutdown_telemetry_def Let_def stop_providers_all)

text \<open>What set-up adds is recorded, so that shutting down takes it away again.\<close>

lemma configure_effect:
  assumes "OtelHandler n \<notin> set (handlers_of (tree w) [])" and "state_handlers w = []" and "state_providers w = []"
    and "w1 = configure_telemetry raises cfg service_name instance_id n w"
    and "res = resource_attributes service_name instance_id" and "endpoint = otel_exporter_otlp_endpoint cfg"
  shows "tree w1 = (if otel_enabled cfg \<and> New_LoggingHandler \<in> set (done_calls raises) then addHandler [] (OtelHandler n) (tree w) else tree w)"
    and "fold (removeHandler []) (state_handlers w1) (tree w1) = tree w"
    and "started w1 = started w @ (if otel_enabled cfg then providers_of res endpoint (done_calls raises) else [])"
    and "state_providers w1 = (if otel_enabled cfg \<and> (\<forall>c. \<not> raises c)
      then [TracerProvider res endpoint, MeterProvider res endpoint, LoggerProvider res endpoint] else [])"
    and "stopped w1 = stopped w"
proof -
  obtain ok w' where run: "run_setup raises (setup_calls res endpoint n) w = (ok, w')" by fastforce
  note eff = setup_effect [OF run]
  have w1: "w1 = (if \<not> otel_enabled cfg then w
      else if ok then w'\<lparr>state_providers := [TracerProvider res endpoint, MeterProvider res endpoint, LoggerProvider res endpoint]\<rparr>
      else w'\<lparr>warnings := warnings w' @ [''telemetry.configure_failed'']\<rparr>)"
    using assms(4-6) run by (simp add: configure_telemetry_def Let_def)
  show t: "tree w1 = (if otel_enabled cfg \<and> New_LoggingHandler \<in> set (done_calls raises) then addHandler [] (OtelHandler n) (tree w) else tree w)"
    using w1 eff(3) by simp
  show "fold (removeHandler []) (state_handlers w1) (tree w1) = tree w"
    using assms(1,2) w1 eff(4) unfolding t by (simp add: remove_added)
  show "started w1 = started w @ (if otel_enabled cfg then providers_of res endpoint (done_calls raises) else [])"
    "state_providers w1 = (if otel_enabled cfg \<and> (\<forall>c. \<not> raises c)
      then [TracerProvider res endpoint, MeterProvider res endpoint, LoggerProvider res endpoint] else [])"
    "stopped w1 = stopped w"
    using w1 eff assms(3) by auto
qed

section \<open>Properties\<close>

text \<open>
  C39 (telemetry_lifecycle). Setting up telemetry never fails, whatever the SDK does. While it runs, every record
  of an enabled logger still reaches standard output exactly once, and the exporter at most once. Shutting
  down gives back the logger tree as it was and forgets everything; the providers it stops are all that
  were started when the set-up went through, and none when some call of it raised.
\<close>

theorem telemetry_lifecycle:
  assumes "configured lv [StdoutHandler] (tree w)" and "state_handlers w = []" and "state_providers w = []"
    and "w1 = configure_telemetry raises cfg service_name instance_id n w"
    and "res = resource_attributes service_name instance_id" and "endpoint = otel_exporter_otlp_endpoint cfg"
  shows "called_handlers (tree w1) lg = StdoutHandler #
       (if otel_enabled cfg \<and> New_LoggingHandler \<in> set (done_calls raises) then [OtelHandler n] else [])
   \<and> effective_level (tree w1) lg = effective_level (tree w) lg
   \<and> started w1 = started w @ (if otel_enabled cfg then providers_of res endpoint (done_calls raises) else [])
   \<and> (case shutdown_telemetry (\<lambda>_. False) w1 of (ok, w2) \<Rightarrow>
       ok \<and> tree w2 = tree w \<and> state_handlers w2 = [] \<and> state_providers w2 = []
       \<and> stopped w2 = stopped w @ (if otel_enabled cfg \<and> (\<forall>c. \<not> raises c) then [TracerProvider res endpoint, MeterProvider res endpoint, LoggerProvider res endpoint] else []))"
proof -
  let ?h = "otel_enabled cfg \<and> New_LoggingHandler \<in> set (done_calls raises)"
  have "OtelHandler n \<notin> set (handlers_of (tree w) [])" using assms(1) by (simp add: configured_def)
  note eff = configure_effect [OF this assms(2-6)]
  have conf: "configured lv (StdoutHandler # (if ?h then [OtelHandler n] else [])) (tree w1)"
    unfolding eff(1) using assms(1) by (simp add: configured_def addHandler_def set_handlers_def)
  obtain w2 where down: "shutdown_telemetry (\<lambda>_. False) w1 = (True, w2)"
    using shutdown_never_raises [of w1] by (cases "shutdown_telemetry (\<lambda>_. False) w1") auto
  show ?thesis
    unfolding down prod.case configured_handlers [OF conf] configured_level [OF conf] configured_level [OF assms(1)]
      shutdown_effect [OF down] eff(2-5) by simp
qed

text \<open>A set-up whose last call raises: three providers run, and none is ever shut down.\<close>

definition sample_telemetry :: telemetry where
  "sample_telemetry = \<lparr>tree = snd (configure_logging ''info'' \<lparr>level_of = (\<lambda>_. 0), handlers_of = (\<lambda>_. []), propagate_of = (\<lambda>_. True)\<rparr>),
     state_providers = [], state_handlers = [], started = [], stopped = [], instrumented = [], warnings = []\<rparr>"

theorem telemetry_lifecycle_witness:
  "let w1 = configure_telemetry (\<lambda>c. c = Instrument_redis) ((default_settings ''pg'' ''redis'')\<lparr>otel_enabled := True\<rparr>)
       ''jobs-ticker'' None 0 sample_telemetry;
       res = [(''service.name'', ''jobs-ticker'')]; endpoint = ''http://localhost:4317'' in
     started w1 = [TracerProvider res endpoint, MeterProvider res endpoint, LoggerProvider res endpoint]
     \<and> called_handlers (tree w1) [''app'', ''worker''] = [StdoutHandler, OtelHandler 0]
     \<and> stopped (snd (shutdown_telemetry (\<lambda>_. False) w1)) = []
     \<and> tree (snd (shutdown_telemetry (\<lambda>_. False) w1)) = tree sample_telemetry"
proof -
  have "configured_level ''info'' = Inr 20" by code_simp
  then have "configured 20 [StdoutHandler] (tree sample_telemetry)"
    using configure_configured [of "\<lparr>level_of = (\<lambda>_. 0), handlers_of = (\<lambda>_. []), propagate_of = (\<lambda>_. True)\<rparr>" "''info''" 20]
    by (simp add: sample_telemetry_def untouched_def)
  from telemetry_lifecycle [OF this _ _ refl refl refl, of "\<lambda>c. c = Instrument_redis" "(default_settings ''pg'' ''redis'')\<lparr>otel_enabled := True\<rparr>"
      "''jobs-ticker''" None 0 "[''app'', ''worker'']"]
  show ?thesis
    by (auto simp: sample_telemetry_def done_calls_def setup_calls_def providers_of_def Let_def resource_attributes_def default_settings_def
      split: prod.splits)
qed

end
