(* ===== verification/Auth.thy ===== *)
theory Auth
  imports Routes
begin

text \<open>
  \<open>app/auth\<close> and \<open>get_current_user\<close> of \<open>app/api/deps.py\<close>: the bounded cache of validated tokens, the client
  of the cluster's TokenReview endpoint and the dependency that turns a bearer token into a user. The
  HTTP client, the token file and SHA-256 are parameters; the body of a review is taken to follow the
  TokenReview schema, in which every field is optional. Clock readings are arguments, in microseconds.
\<close>

section \<open>The token cache\<close>

record token_cache =
  ttl :: int
  max_entries :: nat
  entries :: "(string \<times> (timestamp \<times> AuthedUser)) list"

definition TokenCache :: "int \<Rightarrow> nat \<Rightarrow> token_cache" where
  "TokenCache ttl_us m = \<lparr>ttl = ttl_us, max_entries = m, entries = []\<rparr>"

definition cache_get :: "timestamp \<Rightarrow> string \<Rightarrow> token_cache \<Rightarrow> AuthedUser option \<times> token_cache" where
  "cache_get now k c = (case dict_get (entries c) k of
     None \<Rightarrow> (None, c)
   | Some (expires_at, user) \<Rightarrow>
       if now \<ge> expires_at then (None, c\<lparr>entries := dict_del (entries c) k\<rparr>)
       else (Some user, c))"

text \<open>Oldest insertion first; \<open>None\<close> is the \<open>StopIteration\<close> of an empty dictionary.\<close>

fun drop_oldest :: "nat \<Rightarrow> ('k \<times> 'v) list \<Rightarrow> ('k \<times> 'v) list option" where
  "drop_oldest m [] = (if m = 0 then None else Some [])"
| "drop_oldest m (e # es) = (if length (e # es) \<ge> m then drop_oldest m es else Some (e # es))"

definition cache_evict :: "timestamp \<Rightarrow> token_cache \<Rightarrow> token_cache option" where
  "cache_evict now c =
     map_option (\<lambda>es. c\<lparr>entries := es\<rparr>)
       (drop_oldest (max_entries c) (filter (\<lambda>(k, (exp, u)). \<not> exp \<le> now) (entries c)))"

definition cache_put :: "timestamp \<Rightarrow> string \<Rightarrow> AuthedUser \<Rightarrow> token_cache \<Rightarrow> token_cache option" where
  "cache_put now k user c =
     (if ttl c \<le> 0 then Some c
      else case (if k \<notin> fst ` set (entries c) \<and> length (entries c) \<ge> max_entries c
                 then cache_evict now c else Some c) of
        None \<Rightarrow> None
      | Some c' \<Rightarrow> Some (c'\<lparr>entries := dict_set (entries c') k (now + ttl c', user)\<rparr>))"

section \<open>TokenReview\<close>

record review_user =
  ru_uid :: "string option"
  ru_username :: "string option"
  ru_groups :: "string list option"

record review_status =
  rs_authenticated :: "bool option"
  rs_user :: "review_user option"

record http_response =
  status_code :: nat
  review :: "review_status option"

record 'h auth_ops =
  http_post :: "string option \<Rightarrow> string \<Rightarrow> 'h \<Rightarrow> (string + http_response) \<times> 'h"
  read_token_file :: "'h \<Rightarrow> string option \<times> 'h"
  sha256_hex :: "string \<Rightarrow> string"

record ReviewedUser =
  uid :: string
  username :: string
  reviewed_groups :: "string list"

datatype review_result = TokenReviewUnavailable string | Rejected | Reviewed ReviewedUser

text \<open>The reviewer keeps the token of its own service account.\<close>

record 'h reviewer =
  sa_token :: "string option"
  outside :: 'h

definition read_sa_token :: "'h auth_ops \<Rightarrow> 'h reviewer \<Rightarrow> 'h reviewer" where
  "read_sa_token A rv = (case read_token_file A (outside rv) of (t, h) \<Rightarrow> rv\<lparr>sa_token := t, outside := h\<rparr>)"

definition TokenReviewer :: "'h auth_ops \<Rightarrow> 'h \<Rightarrow> 'h reviewer" where
  "TokenReviewer A h = read_sa_token A \<lparr>sa_token = None, outside = h\<rparr>"

definition post_review :: "'h auth_ops \<Rightarrow> string \<Rightarrow> 'h reviewer \<Rightarrow> (string + http_response) \<times> 'h reviewer" where
  "post_review A user_token rv =
     (let credential = (case sa_token rv of Some t \<Rightarrow> if t = [] then None else Some t | None \<Rightarrow> None) in
      case http_post A credential user_token (outside rv) of (r, h) \<Rightarrow> (r, rv\<lparr>outside := h\<rparr>))"

definition read_review :: "http_response \<Rightarrow> review_result" where
  "read_review resp =
     (if status_code resp = 401 then TokenReviewUnavailable ''apiserver rejected ServiceAccount token''
      else if status_code resp \<ge> 300
      then TokenReviewUnavailable (''tokenreview status '' @ dec_nat (status_code resp))
      else let st = (case review resp of Some s \<Rightarrow> s | None \<Rightarrow> \<lparr>rs_authenticated = None, rs_user = None\<rparr>) in
        if rs_authenticated st \<noteq> Some True then Rejected
        else let u = (case rs_user st of Some u \<Rightarrow> u | None \<Rightarrow> \<lparr>ru_uid = None, ru_username = None, ru_groups = None\<rparr>) in
          Reviewed \<lparr>uid = (case ru_uid u of Some x \<Rightarrow> x | None \<Rightarrow> ''''),
                    username = (case ru_username u of Some x \<Rightarrow> x | None \<Rightarrow> ''''),
                    reviewed_groups = (case ru_groups u of Some x \<Rightarrow> x | None \<Rightarrow> [])\<rparr>)"

definition review_token :: "'h auth_ops \<Rightarrow> string \<Rightarrow> 'h reviewer \<Rightarrow> review_result \<times> 'h reviewer" where
  "review_token A user_token rv = (case post_review A user_token rv of
     (Inl err, rv) \<Rightarrow> (TokenReviewUnavailable err, rv)
   | (Inr resp, rv) \<Rightarrow>
       if status_code resp = 401 then
         (case post_review A user_token (read_sa_token A rv) of
            (Inl err, rv) \<Rightarrow> (TokenReviewUnavailable err, rv)
          | (Inr resp, rv) \<Rightarrow> (read_review resp, rv))
       else (read_review resp, rv))"

section \<open>The dependency\<close>

definition hash_token :: "'h auth_ops \<Rightarrow> string \<Rightarrow> string" where
  "hash_token A raw = sha256_hex A raw"

record 'h auth_state =
  tokens :: token_cache
  reviews :: "'h reviewer"

text \<open>
  The answer, the new state, and what the cluster said of the user if it vouched for it in this call.
  The cache is read at \<open>t_get\<close> and written at \<open>t_put\<close>.
\<close>

definition admit :: "settings \<Rightarrow> ReviewedUser \<Rightarrow> http_error + AuthedUser" where
  "admit cfg r =
     (if auth_required_group cfg \<notin> set (reviewed_groups r)
      then Inl (HTTPException 403 ''not a member of the required group'')
      else case parse_uuid (uid r) of
        Inl _ \<Rightarrow> Inl (HTTPException 401 ''invalid token'')
      | Inr u \<Rightarrow> Inr \<lparr>au_id = u, au_name = username r\<rparr>)"

definition get_current_user ::
  "'h auth_ops \<Rightarrow> settings \<Rightarrow> timestamp \<Rightarrow> timestamp \<Rightarrow> string option \<Rightarrow> 'h auth_state
   \<Rightarrow> (http_error + AuthedUser) \<times> ReviewedUser option \<times> 'h auth_state" where
  "get_current_user A cfg t_get t_put credentials s = (case credentials of
     None \<Rightarrow> (Inl (HTTPException 401 ''missing bearer token''), None, s)
   | Some tok \<Rightarrow> (case cache_get t_get (hash_token A tok) (tokens s) of
       (Some user, c) \<Rightarrow> (Inr user, None, s\<lparr>tokens := c\<rparr>)
     | (None, c) \<Rightarrow> (case review_token A tok (reviews s) of (r, rv) \<Rightarrow>
         let s = s\<lparr>tokens := c, reviews := rv\<rparr> in
         (case r of
            TokenReviewUnavailable _ \<Rightarrow> (Inl (HTTPException 503 ''authentication unavailable''), None, s)
          | Rejected \<Rightarrow> (Inl (HTTPException 401 ''invalid token''), None, s)
          | Reviewed ru \<Rightarrow> (case admit cfg ru of
              Inl e \<Rightarrow> (Inl e, None, s)
            | Inr user \<Rightarrow> (case cache_put t_put (hash_token A tok) user (tokens s) of
                None \<Rightarrow> (Inl Unhandled, None, s)
              | Some c \<Rightarrow> (Inr user, Some ru, s\<lparr>tokens := c\<rparr>)))))))"

section \<open>The cache as a bounded map\<close>

definition cache_ok :: "token_cache \<Rightarrow> bool" where
  "cache_ok c \<longleftrightarrow> 0 < max_entries c \<and> length (entries c) \<le> max_entries c \<and> distinct (map fst (entries c))"

lemma drop_oldest_suffix:
  "0 < m \<Longrightarrow> \<exists>es' old. drop_oldest m es = Some es' \<and> es = old @ es' \<and> length es' < m"
proof (induction es)
  case (Cons e es)
  then obtain es' old where IH: "drop_oldest m es = Some es'" "es = old @ es'" "length es' < m" by blast
  show ?case
  proof (cases "length (e # es) \<ge> m")
    case True
    with IH show ?thesis by (intro exI [of _ es'] exI [of _ "e # old"]) simp
  next
    case False
    then show ?thesis by (intro exI [of _ "e # es"] exI [of _ "[]"]) simp
  qed
qed simp

lemma cache_get_ok: "cache_ok c \<Longrightarrow> cache_ok (snd (cache_get now k c))"
proof -
  assume "cache_ok c"
  moreover have "length (dict_del (entries c) k) \<le> length (entries c)" by (simp add: dict_del_def)
  ultimately show ?thesis
    by (auto simp: cache_get_def cache_ok_def split: option.split)
qed

lemma cache_evict_some:
  assumes "cache_ok c"
  obtains es where "cache_evict now c = Some (c\<lparr>entries := es\<rparr>)" and "length es < max_entries c"
    and "set es \<subseteq> set (entries c)" and "distinct (map fst es)"
proof -
  let ?live = "filter (\<lambda>(k, (exp, u)). \<not> exp \<le> now) (entries c)"
  obtain es old where es: "drop_oldest (max_entries c) ?live = Some es" "?live = old @ es" "length es < max_entries c"
    using drop_oldest_suffix [of "max_entries c" ?live] assms by (auto simp: cache_ok_def)
  have "set es \<subseteq> set ?live" unfolding es(2) by simp
  then have "set es \<subseteq> set (entries c)" by auto
  moreover have "distinct (map fst (old @ es))"
    unfolding es(2) [symmetric] using assms by (simp add: cache_ok_def distinct_map_filter)
  then have "distinct (map fst es)" by simp
  ultimately show thesis using that [of es] es by (simp add: cache_evict_def)
qed

lemma cache_put_ok:
  assumes "cache_ok c"
  obtains c' where "cache_put now k u c = Some c'" and "cache_ok c'" and "ttl c' = ttl c"
    and "set (entries c') \<subseteq> insert (k, (now + ttl c, u)) (set (entries c))"
    and "0 < ttl c \<Longrightarrow> dict_get (entries c') k = Some (now + ttl c, u)"
proof (cases "ttl c \<le> 0")
  case True
  then show thesis using that [of c] assms by (auto simp: cache_put_def)
next
  case False
  have upd: "set (dict_set es k v) \<subseteq> insert (k, v) (set es)" for es :: "(string \<times> timestamp \<times> AuthedUser) list" and v
    by (induction es k v rule: dict_set.induct) auto
  show thesis
  proof (cases "k \<notin> fst ` set (entries c) \<and> length (entries c) \<ge> max_entries c")
    case True
    from assms obtain es where es: "cache_evict now c = Some (c\<lparr>entries := es\<rparr>)" "length es < max_entries c"
      "set es \<subseteq> set (entries c)" "distinct (map fst es)" by (rule cache_evict_some)
    show thesis
      by (rule that [of "c\<lparr>entries := dict_set es k (now + ttl c, u)\<rparr>"])
        (use False True es upd [of es "(now + ttl c, u)"] assms in
          \<open>auto simp: cache_put_def cache_ok_def length_dict_set\<close>)
  next
    case no_evict: False
    show thesis
      by (rule that [of "c\<lparr>entries := dict_set (entries c) k (now + ttl c, u)\<rparr>"])
        (use False no_evict upd [of "entries c" "(now + ttl c, u)"] assms in
          \<open>auto simp: cache_put_def cache_ok_def length_dict_set\<close>)
  qed
qed

section \<open>A sequence of requests\<close>

text \<open>Each request: its token, the two clock readings, the answer, and what the cluster vouched for.\<close>

type_synonym auth_record = "string option \<times> timestamp \<times> timestamp \<times> (http_error + AuthedUser) \<times> ReviewedUser option"

fun auth_log ::
  "'h auth_ops \<Rightarrow> settings \<Rightarrow> (string option \<times> timestamp \<times> timestamp) list \<Rightarrow> 'h auth_state \<Rightarrow> auth_record list" where
  "auth_log A cfg [] s = []"
| "auth_log A cfg ((cred, t_get, t_put) # rs) s =
     (case get_current_user A cfg t_get t_put cred s of (r, v, s') \<Rightarrow> (cred, t_get, t_put, r, v) # auth_log A cfg rs s')"

text \<open>The cluster vouched for \<open>u\<close> under the token hash \<open>k\<close>, in a request that wrote the cache at \<open>t\<close>.\<close>

definition vouched_at :: "'h auth_ops \<Rightarrow> settings \<Rightarrow> string \<Rightarrow> AuthedUser \<Rightarrow> timestamp \<Rightarrow> auth_record \<Rightarrow> bool" where
  "vouched_at A cfg k u t e \<longleftrightarrow> (\<exists>tok t_get ru. e = (Some tok, t_get, t, Inr u, Some ru) \<and> hash_token A tok = k
     \<and> auth_required_group cfg \<in> set (reviewed_groups ru) \<and> parse_uuid (uid ru) = Inr (au_id u)
     \<and> username ru = au_name u)"

definition justified :: "'h auth_ops \<Rightarrow> settings \<Rightarrow> auth_record list \<Rightarrow> token_cache \<Rightarrow> bool" where
  "justified A cfg past c \<longleftrightarrow>
     (\<forall>(k, (exp, u)) \<in> set (entries c). \<exists>e \<in> set past. vouched_at A cfg k u (exp - ttl c) e)"

lemma justified_mono:
  "justified A cfg past c \<Longrightarrow> set (entries c') \<subseteq> set (entries c) \<Longrightarrow> ttl c' = ttl c \<Longrightarrow> set past \<subseteq> set past' \<Longrightarrow>
     justified A cfg past' c'"
  unfolding justified_def by fastforce

lemma cache_get_cases:
  obtains (hit) user exp where "cache_get now k c = (Some user, c)" "(k, (exp, user)) \<in> set (entries c)" "now < exp"
  | (miss) c' where "cache_get now k c = (None, c')" "set (entries c') \<subseteq> set (entries c)" "ttl c' = ttl c"
      "max_entries c' = max_entries c"
proof (cases "dict_get (entries c) k")
  case None
  then show thesis using miss [of c] by (simp add: cache_get_def)
next
  case (Some e)
  obtain exp user where e: "e = (exp, user)" by fastforce
  show thesis
  proof (cases "now \<ge> exp")
    case True
    show thesis
      by (rule miss [of "c\<lparr>entries := dict_del (entries c) k\<rparr>"])
        (use Some e True in \<open>auto simp: cache_get_def dict_del_def\<close>)
  next
    case False
    show thesis by (rule hit [of user exp]) (use Some e False in \<open>auto simp: cache_get_def dest: map_of_SomeD\<close>)
  qed
qed

lemma admit_Inr:
  assumes "admit cfg ru = Inr u"
  shows "auth_required_group cfg \<in> set (reviewed_groups ru) \<and> parse_uuid (uid ru) = Inr (au_id u) \<and> username ru = au_name u"
  using assms by (auto simp: admit_def split: if_splits sum.splits)

text \<open>An entry made for a user the cluster vouched for keeps the cache justified.\<close>

lemma put_justified:
  assumes "justified A cfg past c" and "vouched_at A cfg k u t e" and "ttl c' = ttl c"
    and "set (entries c') \<subseteq> insert (k, (t + ttl c, u)) (set (entries c))"
  shows "justified A cfg (past @ [e]) c'"
  unfolding justified_def
proof clarify
  fix k' exp' u' assume "(k', exp', u') \<in> set (entries c')"
  then consider "(k', exp', u') = (k, (t + ttl c, u))" | "(k', exp', u') \<in> set (entries c)" using assms(4) by blast
  then show "\<exists>e' \<in> set (past @ [e]). vouched_at A cfg k' u' (exp' - ttl c') e'"
  proof cases
    case 1
    with assms(2,3) show ?thesis by simp
  next
    case 2
    with assms(1,3) show ?thesis by (fastforce simp: justified_def)
  qed
qed

text \<open>A request whose token is not in the cache: refused, or admitted and entered into the cache.\<close>

lemma missed_request:
  assumes "cache_ok c" and "cache_get t_get (hash_token A tok) (tokens s) = (None, c)"
    and "get_current_user A cfg t_get t_put (Some tok) s = (r, v, s')"
  obtains (refused) "tokens s' = c" and "\<And>u. r \<noteq> Inr u"
      and "\<And>ru u. fst (review_token A tok (reviews s)) = Reviewed ru \<Longrightarrow> admit cfg ru \<noteq> Inr u"
  | (admitted) ru u where "r = Inr u" and "v = Some ru" and "admit cfg ru = Inr u"
      and "cache_put t_put (hash_token A tok) u c = Some (tokens s')" and "cache_ok (tokens s')" and "ttl (tokens s') = ttl c"
      and "set (entries (tokens s')) \<subseteq> insert (hash_token A tok, (t_put + ttl c, u)) (set (entries c))"
proof -
  obtain rr rv where rev: "review_token A tok (reviews s) = (rr, rv)" by fastforce
  show thesis
  proof (cases "\<exists>ru u. rr = Reviewed ru \<and> admit cfg ru = Inr u")
    case False
    show thesis
      by (rule refused) (use False assms(2,3) rev in
          \<open>auto simp: get_current_user_def Let_def split: review_result.splits sum.splits\<close>)
  next
    case True
    then obtain ru u where ru: "rr = Reviewed ru" "admit cfg ru = Inr u" by blast
    from assms(1) obtain c' where c': "cache_put t_put (hash_token A tok) u c = Some c'" "cache_ok c'" "ttl c' = ttl c"
      "set (entries c') \<subseteq> insert (hash_token A tok, (t_put + ttl c, u)) (set (entries c))" by (rule cache_put_ok)
    show thesis
      by (rule admitted [of u ru]) (use assms(2,3) rev ru c' in \<open>auto simp: get_current_user_def Let_def\<close>)
  qed
qed

text \<open>One request keeps the invariant, and its answer is justified by the past or by itself.\<close>

lemma request_justified:
  assumes "cache_ok (tokens s)" and "justified A cfg past (tokens s)"
    and "get_current_user A cfg t_get t_put cred s = (r, v, s')"
  shows "cache_ok (tokens s') \<and> ttl (tokens s') = ttl (tokens s)
    \<and> justified A cfg (past @ [(cred, t_get, t_put, r, v)]) (tokens s')
    \<and> (\<forall>u. r = Inr u \<longrightarrow> (\<exists>tok. cred = Some tok \<and>
      (vouched_at A cfg (hash_token A tok) u t_put (cred, t_get, t_put, r, v)
       \<or> (\<exists>e \<in> set past. \<exists>t. vouched_at A cfg (hash_token A tok) u t e \<and> t_get < t + ttl (tokens s)))))"
proof (cases cred)
  case None
  with assms show ?thesis by (auto simp: get_current_user_def elim!: justified_mono)
next
  case (Some tok)
  let ?k = "hash_token A tok"
  show ?thesis
  proof (cases rule: cache_get_cases [of t_get ?k "tokens s"])
    case (hit user exp)
    with assms(3) Some have "r = Inr user" "s' = s" by (auto simp: get_current_user_def)
    moreover from hit assms(2) obtain e where "e \<in> set past" "vouched_at A cfg ?k user (exp - ttl (tokens s)) e"
      by (fastforce simp: justified_def)
    ultimately show ?thesis
      using hit(3) assms(1,2) Some by (auto elim!: justified_mono intro!: bexI [of _ e] exI [of _ "exp - ttl (tokens s)"])
  next
    case (miss c)
    have ok: "cache_ok c" using cache_get_ok [OF assms(1), of t_get ?k] miss(1) by simp
    have j: "justified A cfg past c" using assms(2) miss(2,3) by (rule justified_mono) simp
    show ?thesis
    proof (cases rule: missed_request [OF ok miss(1) assms(3) [unfolded Some]])
      case 1
      with ok j miss(3) show ?thesis by (auto elim!: justified_mono)
    next
      case (2 ru u)
      have now: "vouched_at A cfg ?k u t_put (cred, t_get, t_put, r, v)"
        unfolding vouched_at_def 2(1,2) Some using admit_Inr [OF 2(3)] by blast
      from put_justified [OF j now 2(6,7)] 2(1,5,6) now miss(3) Some show ?thesis by auto
    qed
  qed
qed

lemma log_justified:
  assumes "cache_ok (tokens s)" and "justified A cfg past (tokens s)"
    and "auth_log A cfg rs s = before @ (Some tok, t_get, t_put, Inr u, v) # after"
  shows "vouched_at A cfg (hash_token A tok) u t_put (Some tok, t_get, t_put, Inr u, v)
     \<or> (\<exists>e \<in> set (past @ before). \<exists>t. vouched_at A cfg (hash_token A tok) u t e \<and> t_get < t + ttl (tokens s))"
  using assms
proof (induction rs arbitrary: s past before)
  case (Cons q rs)
  obtain cred t0 t1 where q: "q = (cred, t0, t1)" by (cases q) auto
  obtain r w s' where run: "get_current_user A cfg t0 t1 cred s = (r, w, s')" by (metis prod_cases3)
  have step: "cache_ok (tokens s')" "ttl (tokens s') = ttl (tokens s)" "justified A cfg (past @ [(cred, t0, t1, r, w)]) (tokens s')"
    "\<And>u. r = Inr u \<Longrightarrow> \<exists>tok. cred = Some tok \<and> (vouched_at A cfg (hash_token A tok) u t1 (cred, t0, t1, r, w)
       \<or> (\<exists>e \<in> set past. \<exists>t. vouched_at A cfg (hash_token A tok) u t e \<and> t0 < t + ttl (tokens s)))"
    using request_justified [OF Cons.prems(1,2) run] by blast+
  show ?case
  proof (cases before)
    case Nil
    with Cons.prems(3) have "cred = Some tok" "t0 = t_get" "t1 = t_put" "r = Inr u" "w = v"
      by (auto simp: q run)
    with step(4) [of u] Nil show ?thesis by auto
  next
    case (Cons b bs)
    with Cons.prems(3) have b: "b = (cred, t0, t1, r, w)"
      and tl: "auth_log A cfg rs s' = bs @ (Some tok, t_get, t_put, Inr u, v) # after" by (auto simp: q run)
    from Cons.IH [OF step(1,3) tl] show ?thesis using step(2) by (auto simp: Cons b)
  qed
qed simp

section \<open>Properties\<close>


text \<open>A cluster that knows one token, for the concrete runs.\<close>

definition sample_cluster :: "unit auth_ops" where
  "sample_cluster = \<lparr>http_post = (\<lambda>_ tok h. (Inr \<lparr>status_code = 201, review = Some \<lparr>rs_authenticated = Some (tok = ''good''),
       rs_user = Some \<lparr>ru_uid = Some (uuid_str 1), ru_username = Some ''ann'', ru_groups = Some [''jobprocessor-users'']\<rparr>\<rparr>\<rparr>, h)),
     read_token_file = (\<lambda>h. (None, h)), sha256_hex = (\<lambda>s. s)\<rparr>"

lemma sample_hash [simp]: "hash_token sample_cluster tok = tok"
  by (simp add: hash_token_def sample_cluster_def)

lemma not_vouched: "\<not> vouched_at A cfg k u t (cred, t_get, t_put, r, None)"
  by (simp add: vouched_at_def)

lemma sample_review:
  "review_token sample_cluster ''good'' rv =
     (Reviewed \<lparr>uid = uuid_str 1, username = ''ann'', reviewed_groups = [''jobprocessor-users'']\<rparr>, rv)"
  by (simp add: review_token_def post_review_def sample_cluster_def read_review_def Let_def)

lemma sample_admit:
  "admit sample_cfg \<lparr>uid = uuid_str 1, username = ''ann'', reviewed_groups = [''jobprocessor-users'']\<rparr>
     = Inr \<lparr>au_id = 1, au_name = ''ann''\<rparr>"
  by (simp add: admit_def parse_uuid_str sample_cfg_def default_settings_def)

lemma sample_first_request:
  "get_current_user sample_cluster sample_cfg 0 10 (Some ''good'') \<lparr>tokens = TokenCache 60 8, reviews = rv\<rparr> =
     (Inr \<lparr>au_id = 1, au_name = ''ann''\<rparr>,
      Some \<lparr>uid = uuid_str 1, username = ''ann'', reviewed_groups = [''jobprocessor-users'']\<rparr>,
      \<lparr>tokens = \<lparr>ttl = 60, max_entries = 8, entries = [(''good'', (70, \<lparr>au_id = 1, au_name = ''ann''\<rparr>))]\<rparr>, reviews = rv\<rparr>)"
  by (simp add: get_current_user_def cache_get_def TokenCache_def sample_review sample_admit Let_def cache_put_def)




end
