(* ===== verification/Processes.thy ===== *)
theory Processes
  imports Batch Telemetry Auth
begin

text \<open>
  The three processes from start to end: \<open>main\<close> and \<open>run_forever\<close> of the worker and of the ticker
  (\<open>app/worker\<close>, \<open>app/ticker\<close>), and \<open>create_app\<close> with the \<open>lifespan\<close> of the API (\<open>app/main.py\<close>), with
  the connections they open (\<open>core/db.py\<close>, \<open>core/redis.py\<close>, \<open>auth/tokenreview.py\<close>), the health server, the
  telemetry, and the order in which all of it is given back. What a process does to the database and to Redis
  in between is that of the theories \<open>Worker\<close>, \<open>Ticker\<close> and \<open>Routes\<close>.
\<close>

section \<open>Connections\<close>

text \<open>What a process holds: each with the arguments it was created with.\<close>

type_synonym kwargs = "(string \<times> json) list"

datatype handle =
    AsyncEngine string kwargs
  | AsyncRedis string kwargs
  | HealthTask int int
  | SyncEngine string kwargs
  | SyncRedis string kwargs
  | HttpClient "string option" int

definition engine_kwargs :: "int \<Rightarrow> bool \<Rightarrow> kwargs" where
  "engine_kwargs pool_size disable_prepared_statements = (
     let kw = [(''pool_pre_ping'', JBool True), (''pool_timeout'', JInt 5), (''pool_size'', JInt pool_size)]
     in if disable_prepared_statements
        then dict_set kw ''connect_args'' (JDict [(''prepare_threshold'', JNull)]) else kw)"

definition make_engine :: "string \<Rightarrow> int \<Rightarrow> bool \<Rightarrow> handle" where
  "make_engine url pool_size disable_prepared_statements =
     AsyncEngine url (engine_kwargs pool_size disable_prepared_statements)"

definition redis_kwargs :: kwargs where
  "redis_kwargs = [(''decode_responses'', JBool True), (''socket_connect_timeout'', JInt 5), (''socket_timeout'', JInt 10)]"

definition create_redis_client :: "string \<Rightarrow> handle" where
  "create_redis_client url = AsyncRedis url redis_kwargs"

definition make_sync_observability_resources :: "settings \<Rightarrow> handle list" where
  "make_sync_observability_resources cfg =
     [SyncEngine (database_url cfg) [(''pool_pre_ping'', JBool True), (''pool_timeout'', JInt 5), (''pool_size'', JInt 1)],
      SyncRedis (redis_url cfg) redis_kwargs]"

text \<open>
  The client of the token reviewer: \<open>None\<close> verifies against the system's authorities. Whether the file with
  the cluster's own authority exists is an argument.
\<close>

definition review_client :: "settings \<Rightarrow> bool \<Rightarrow> handle" where
  "review_client cfg ca_is_file = HttpClient
     (if prefix ''https://'' (auth_tokenreview_url cfg) \<and> ca_is_file then Some (auth_ca_file cfg) else None)
     (auth_timeout_us cfg)"

section \<open>Processes\<close>

text \<open>
  A process: what it holds, its telemetry and loggers, the gauges it registered, whether its own handlers
  for the two signals are installed, and the lines that mark its start and its end.
\<close>

record process =
  held :: "handle list"
  telem :: telemetry
  gauges :: "string list"
  catches_signals :: bool
  announced :: "string list"

text \<open>What the environment answers while a process starts and ends.\<close>

record surroundings =
  setup_raises :: "setup_call \<Rightarrow> bool"
  flush_raises :: "provider \<Rightarrow> bool"
  bind_result :: "start_error + int"
  seen :: "nat \<Rightarrow> bool \<times> task_state"
  task_result :: "start_error + unit"
  close_raises :: "handle \<Rightarrow> bool"
  on_windows :: bool
  ca_present :: bool

datatype crash = LoggingCrash py_error | HealthCrash start_error | LoopCrash py_error | FlushCrash | CloseCrash handle

datatype process_end = Returned int | RaisedOut crash | Waiting

definition acquire :: "handle \<Rightarrow> process \<Rightarrow> process" where
  "acquire h p = p\<lparr>held := held p @ [h]\<rparr>"

definition release :: "handle \<Rightarrow> process \<Rightarrow> process" where
  "release h p = p\<lparr>held := remove1 h (held p)\<rparr>"

definition announce :: "string \<Rightarrow> process \<Rightarrow> process" where
  "announce line p = p\<lparr>announced := announced p @ [line]\<rparr>"

definition register_worker_resource_gauges :: "process \<Rightarrow> process" where
  "register_worker_resource_gauges p = p\<lparr>gauges := gauges p @ [''process.cpu.utilization'']\<rparr>"

definition register_ticker_gauges :: "process \<Rightarrow> process" where
  "register_ticker_gauges p = p\<lparr>gauges := gauges p @ [''queue.depth'', ''queue.scheduled'', ''jobs.saturation'']\<rparr>"

section \<open>Starting\<close>

text \<open>
  The part that worker and ticker share: telemetry, engine, client and the health server. A port that is
  taken raises out of it. \<open>fuel\<close> bounds how often the start looks whether the server is up.
\<close>

definition boot ::
  "surroundings \<Rightarrow> settings \<Rightarrow> string \<Rightarrow> string option \<Rightarrow> int \<Rightarrow> nat \<Rightarrow> nat \<Rightarrow> process \<Rightarrow> process_end option \<times> process" where
  "boot env cfg service instance_id max_age fuel n p = (
     let p = p\<lparr>telem := configure_telemetry (setup_raises env) cfg service instance_id n (telem p)\<rparr>;
         p = acquire (make_engine (database_url cfg) (db_pool_size cfg) (db_disable_prepared_statements cfg)) p;
         p = acquire (create_redis_client (redis_url cfg)) p
     in case health_port cfg of
          None \<Rightarrow> (None, p)
        | Some port \<Rightarrow> (case fst (HealthServer_start (on_windows env) (bind_result env) fuel (seen env)) of
              None \<Rightarrow> (Some Waiting, p)
            | Some (Inl e) \<Rightarrow> (Some (RaisedOut (HealthCrash e)), p)
            | Some (Inr _) \<Rightarrow> (None, acquire (HealthTask port max_age) p)))"

section \<open>Ending\<close>

text \<open>The calls at the end of a process, each of which may raise and then leaves the rest undone.\<close>

datatype closing = StopHealth handle | Flush | Close handle

fun wind_down :: "surroundings \<Rightarrow> closing list \<Rightarrow> process \<Rightarrow> process_end \<times> process" where
  "wind_down env [] p = (Returned 0, p)"
| "wind_down env (StopHealth h # cs) p = (case HealthServer_stop (Some (task_result env)) of
     (_, Inl e) \<Rightarrow> (RaisedOut (HealthCrash e), release h p)
   | (_, Inr _) \<Rightarrow> wind_down env cs (release h p))"
| "wind_down env (Flush # cs) p = (case shutdown_telemetry (flush_raises env) (telem p) of
     (ok, t) \<Rightarrow> if ok then wind_down env cs (p\<lparr>telem := t\<rparr>) else (RaisedOut FlushCrash, p\<lparr>telem := t\<rparr>))"
| "wind_down env (Close h # cs) p =
     (if close_raises env h then (RaisedOut (CloseCrash h), p) else wind_down env cs (release h p))"

section \<open>The worker\<close>

definition worker_opens :: "settings \<Rightarrow> handle list" where
  "worker_opens cfg =
     [make_engine (database_url cfg) (db_pool_size cfg) (db_disable_prepared_statements cfg),
      create_redis_client (redis_url cfg)]
     @ (case health_port cfg of None \<Rightarrow> [] | Some port \<Rightarrow> [HealthTask port (worker_heartbeat_threshold_s cfg)])"

definition worker_closes :: "settings \<Rightarrow> closing list" where
  "worker_closes cfg =
     (case health_port cfg of None \<Rightarrow> [] | Some port \<Rightarrow> [StopHealth (HealthTask port (worker_heartbeat_threshold_s cfg))])
     @ [Flush, Close (create_redis_client (redis_url cfg)),
        Close (make_engine (database_url cfg) (db_pool_size cfg) (db_disable_prepared_statements cfg))]"

definition worker_process ::
  "('d, 'r) services \<Rightarrow> schema_ops \<Rightarrow> settings \<Rightarrow> string \<Rightarrow> surroundings \<Rightarrow> nat \<Rightarrow> nat
   \<Rightarrow> (bool \<times> int \<times> (nat \<Rightarrow> draw)) list \<Rightarrow> process \<Rightarrow> ('d, 'r, process_end \<times> process) io" where
  "worker_process S P cfg consumer env fuel n rounds p = (
     case boot env cfg ''jobs-worker'' (Some consumer) (worker_heartbeat_threshold_s cfg) fuel n p of
       (Some e, p) \<Rightarrow> return (e, p)
     | (None, p) \<Rightarrow> do {
         foreach (ordered_streams cfg) (\<lambda>stream. ensure_group S stream (consumer_group cfg));
         let p = (if otel_enabled cfg then register_worker_resource_gauges p else p);
         let p = announce ''worker.started'' (p\<lparr>catches_signals := True\<rparr>);
         r \<leftarrow> run_rounds S P cfg consumer rounds (MemoryRecycler (worker_max_rss_mb cfg));
         case r of
           Inl e \<Rightarrow> return (RaisedOut (LoopCrash e), p)
         | Inr _ \<Rightarrow> return (wind_down env (worker_closes cfg) (announce ''worker.stopped'' p))
       })"

text \<open>\<open>main\<close> sets the loggers up first; its exit status is what \<open>run_forever\<close> returns.\<close>

definition worker_main ::
  "('d, 'r) services \<Rightarrow> schema_ops \<Rightarrow> settings \<Rightarrow> string \<Rightarrow> surroundings \<Rightarrow> nat \<Rightarrow> nat
   \<Rightarrow> (bool \<times> int \<times> (nat \<Rightarrow> draw)) list \<Rightarrow> process \<Rightarrow> ('d, 'r, process_end \<times> process) io" where
  "worker_main S P cfg consumer env fuel n rounds p = (case configure_logging (log_level cfg) (tree (telem p)) of
     (Inl e, t) \<Rightarrow> return (RaisedOut (LoggingCrash e), p\<lparr>telem := (telem p)\<lparr>tree := t\<rparr>\<rparr>)
   | (Inr _, t) \<Rightarrow> worker_process S P cfg consumer env fuel n rounds (p\<lparr>telem := (telem p)\<lparr>tree := t\<rparr>\<rparr>))"

section \<open>The ticker\<close>

definition ticker_opens :: "settings \<Rightarrow> handle list" where
  "ticker_opens cfg =
     [make_engine (database_url cfg) (db_pool_size cfg) (db_disable_prepared_statements cfg),
      create_redis_client (redis_url cfg)]
     @ (case health_port cfg of None \<Rightarrow> [] | Some port \<Rightarrow> [HealthTask port (ticker_heartbeat_threshold_s cfg)])
     @ (if otel_enabled cfg then make_sync_observability_resources cfg else [])"

definition ticker_closes :: "settings \<Rightarrow> closing list" where
  "ticker_closes cfg =
     (case health_port cfg of None \<Rightarrow> [] | Some port \<Rightarrow> [StopHealth (HealthTask port (ticker_heartbeat_threshold_s cfg))])
     @ [Flush, Close (create_redis_client (redis_url cfg)),
        Close (make_engine (database_url cfg) (db_pool_size cfg) (db_disable_prepared_statements cfg))]
     @ (if otel_enabled cfg then map Close (rev (make_sync_observability_resources cfg)) else [])"

text \<open>The number \<open>m\<close> is that of the rounds before the stop is requested.\<close>

definition ticker_process ::
  "('d, 'r) services \<Rightarrow> settings \<Rightarrow> surroundings \<Rightarrow> nat \<Rightarrow> nat \<Rightarrow> nat \<Rightarrow> nat \<Rightarrow> process
   \<Rightarrow> ('d, 'r, process_end \<times> process) io" where
  "ticker_process S cfg env fuel n m loop_fuel p = (
     case boot env cfg ''jobs-ticker'' None (ticker_heartbeat_threshold_s cfg) fuel n p of
       (Some e, p) \<Rightarrow> return (e, p)
     | (None, p) \<Rightarrow> do {
         foreach (ordered_streams cfg) (\<lambda>stream. ensure_group S stream (consumer_group cfg));
         let p = (if otel_enabled cfg
                  then register_ticker_gauges (fold acquire (make_sync_observability_resources cfg) p) else p);
         let p = announce ''ticker.started'' (p\<lparr>catches_signals := True\<rparr>);
         r \<leftarrow> run_ticks m loop_fuel S cfg ticker_init;
         case r of
           None \<Rightarrow> return (Waiting, p)
         | Some _ \<Rightarrow> return (wind_down env (ticker_closes cfg) (announce ''ticker.stopped'' p))
       })"

definition ticker_main ::
  "('d, 'r) services \<Rightarrow> settings \<Rightarrow> surroundings \<Rightarrow> nat \<Rightarrow> nat \<Rightarrow> nat \<Rightarrow> nat \<Rightarrow> process
   \<Rightarrow> ('d, 'r, process_end \<times> process) io" where
  "ticker_main S cfg env fuel n m loop_fuel p = (case configure_logging (log_level cfg) (tree (telem p)) of
     (Inl e, t) \<Rightarrow> return (RaisedOut (LoggingCrash e), p\<lparr>telem := (telem p)\<lparr>tree := t\<rparr>\<rparr>)
   | (Inr _, t) \<Rightarrow> ticker_process S cfg env fuel n m loop_fuel (p\<lparr>telem := (telem p)\<lparr>tree := t\<rparr>\<rparr>))"

section \<open>The API\<close>

text \<open>
  \<open>create_app\<close>: \<open>add_middleware\<close> puts each new one in front of those before it. \<open>lifespan\<close> runs around
  the requests; what they do is the program \<open>serve\<close>.
\<close>

record application =
  middleware :: "string list"
  cache :: token_cache
  limiter :: bool

definition add_middleware :: "string \<Rightarrow> application \<Rightarrow> application" where
  "add_middleware m a = a\<lparr>middleware := m # middleware a\<rparr>"

definition create_app :: "surroundings \<Rightarrow> settings \<Rightarrow> nat \<Rightarrow> process \<Rightarrow> (py_error + application) \<times> process" where
  "create_app env cfg n p = (case configure_logging (log_level cfg) (tree (telem p)) of
     (Inl e, t) \<Rightarrow> (Inl e, p\<lparr>telem := (telem p)\<lparr>tree := t\<rparr>\<rparr>)
   | (Inr _, t) \<Rightarrow>
       let p = p\<lparr>telem := (telem p)\<lparr>tree := t\<rparr>\<rparr>;
           p = p\<lparr>telem := configure_telemetry (setup_raises env) cfg ''jobs-api'' None n (telem p)\<rparr>;
           p = acquire (make_engine (database_url cfg) (db_pool_size cfg) (db_disable_prepared_statements cfg)) p;
           p = acquire (create_redis_client (redis_url cfg)) p;
           p = acquire (review_client cfg (ca_present env)) p;
           a = \<lparr>middleware = [], cache = TokenCache (auth_cache_ttl_us cfg) 1024, limiter = False\<rparr>;
           a = add_middleware ''BodySizeLimitMiddleware'' a;
           a = add_middleware ''ProxyHeadersMiddleware'' a;
           p = (if otel_enabled cfg then p\<lparr>telem := instrument ''fastapi'' (telem p)\<rparr> else p)
       in (Inr a, p))"

definition api_opens :: "surroundings \<Rightarrow> settings \<Rightarrow> handle list" where
  "api_opens env cfg =
     [make_engine (database_url cfg) (db_pool_size cfg) (db_disable_prepared_statements cfg),
      create_redis_client (redis_url cfg), review_client cfg (ca_present env)]"

definition api_closes :: "surroundings \<Rightarrow> settings \<Rightarrow> closing list" where
  "api_closes env cfg =
     [Close (create_redis_client (redis_url cfg)), Close (review_client cfg (ca_present env)),
      Close (make_engine (database_url cfg) (db_pool_size cfg) (db_disable_prepared_statements cfg)), Flush]"

definition api_process ::
  "('d, 'r) services \<Rightarrow> settings \<Rightarrow> surroundings \<Rightarrow> nat \<Rightarrow> (application \<Rightarrow> ('d, 'r, unit) io) \<Rightarrow> process
   \<Rightarrow> ('d, 'r, process_end \<times> process) io" where
  "api_process S cfg env n serve p = (case create_app env cfg n p of
     (Inl e, p) \<Rightarrow> return (RaisedOut (LoggingCrash e), p)
   | (Inr a, p) \<Rightarrow> do {
       limited \<leftarrow> lifespan S cfg;
       serve (a\<lparr>limiter := limited\<rparr>);
       return (wind_down env (api_closes env cfg) p)
     })"

section \<open>Giving everything back\<close>

fun closed_by :: "closing list \<Rightarrow> handle list" where
  "closed_by [] = []"
| "closed_by (StopHealth h # cs) = h # closed_by cs"
| "closed_by (Flush # cs) = closed_by cs"
| "closed_by (Close h # cs) = h # closed_by cs"

lemma closed_by_append [simp]: "closed_by (cs @ ds) = closed_by cs @ closed_by ds"
  by (induction cs rule: closed_by.induct) auto

lemma closed_by_map_Close [simp]: "closed_by (map Close hs) = hs"
  by (induction hs) auto

lemma mset_fold_remove1: "mset (fold remove1 xs ys) = mset ys - mset xs"
  by (induction xs arbitrary: ys) (auto simp: ac_simps)

text \<open>An environment in which nothing fails while a process ends.\<close>

definition untroubled :: "surroundings \<Rightarrow> bool" where
  "untroubled env \<longleftrightarrow> flush_raises env = (\<lambda>_. False) \<and> close_raises env = (\<lambda>_. False) \<and> task_result env = Inr ()"

lemma wind_down_untroubled:
  assumes "untroubled env"
  shows "fst (wind_down env cs p) = Returned 0"
proof (induction cs arbitrary: p)
  case (Cons c cs)
  then show ?case
    using assms shutdown_never_raises [of "telem p"]
    by (cases c) (auto simp: untroubled_def HealthServer_stop_def split: prod.splits)
qed simp

text \<open>Some of the calls are made and the others are not; without an exception, all are.\<close>

definition ends_within :: "closing list \<Rightarrow> process \<Rightarrow> process_end \<Rightarrow> process \<Rightarrow> bool" where
  "ends_within cs p e p' \<longleftrightarrow> (\<exists>made left. cs = made @ left \<and> held p' = fold remove1 (closed_by made) (held p)
     \<and> (e = Returned 0 \<and> left = [] \<or> (\<exists>c. e = RaisedOut c)))"

lemma ends_within_Cons:
  assumes "ends_within cs p e p'" and "held p = fold remove1 (closed_by [c]) (held p0)"
  shows "ends_within (c # cs) p0 e p'"
proof -
  obtain made left where "cs = made @ left" "held p' = fold remove1 (closed_by made) (held p)"
    "e = Returned 0 \<and> left = [] \<or> (\<exists>c. e = RaisedOut c)"
    using assms(1) unfolding ends_within_def by blast
  then show ?thesis
    using assms(2) closed_by_append [of "[c]" made] unfolding ends_within_def
    by (intro exI [of _ "c # made"] exI [of _ left]) simp
qed

lemma ends_within_raised: "held p' = held p \<Longrightarrow> ends_within cs p (RaisedOut c) p'"
  unfolding ends_within_def by (intro exI [of _ "[]"] exI [of _ cs]) simp

lemma wind_down_within: "ends_within cs p (fst (wind_down env cs p)) (snd (wind_down env cs p))"
proof (induction cs arbitrary: p)
  case Nil
  then show ?case by (simp add: ends_within_def)
next
  case (Cons c cs)
  show ?case
  proof (cases c)
    case (StopHealth h)
    then show ?thesis
      by (auto simp: HealthServer_stop_def release_def split: sum.split
          intro!: ends_within_Cons [OF Cons] ends_within_Cons [OF ends_within_raised])
  next
    case Flush
    then show ?thesis
      by (auto intro!: ends_within_Cons [OF Cons] ends_within_raised split: prod.split)
  next
    case (Close h)
    then show ?thesis by (auto simp: release_def intro!: ends_within_Cons [OF Cons] ends_within_raised)
  qed
qed

lemma wind_down_append:
  "wind_down env (cs @ ds) p = (case wind_down env cs p of
     (Returned _, p') \<Rightarrow> wind_down env ds p' | (e, p') \<Rightarrow> (e, p'))"
  by (induction env cs p rule: wind_down.induct) (auto split: prod.splits sum.splits process_end.splits)

lemma wind_down_telem: "Flush \<notin> set cs \<Longrightarrow> telem (snd (wind_down env cs p)) = telem p"
  by (induction env cs p rule: wind_down.induct) (auto simp: release_def split: prod.splits sum.splits)

lemma wind_down_rest:
  "gauges (snd (wind_down env cs p)) = gauges p" "announced (snd (wind_down env cs p)) = announced p"
  "catches_signals (snd (wind_down env cs p)) = catches_signals p"
  by (induction env cs p rule: wind_down.induct) (auto simp: release_def split: prod.splits sum.splits)

text \<open>
  How a process ends: with everything given back and the loggers as they were, or with an exception that leaves
  exactly what the calls not made would have closed.
\<close>

definition gave_back :: "process \<Rightarrow> closing list \<Rightarrow> process_end \<Rightarrow> process \<Rightarrow> bool" where
  "gave_back p closes e p' \<longleftrightarrow>
     e = Returned 0 \<and> mset (held p') = mset (held p) \<and> tree (telem p') = tree (telem p)
       \<and> state_handlers (telem p') = [] \<and> state_providers (telem p') = []
   \<or> (\<exists>c left. e = RaisedOut c \<and> suffix left closes \<and> mset (held p') = mset (held p) + mset (closed_by left))"

text \<open>The contract of a process: it closes what it opens, each once, and flushes its telemetry once.\<close>

locale resource_plan =
  fixes opens :: "handle list"
    and closes :: "closing list"
  assumes closes_opened: "mset (closed_by closes) = mset opens"
    and one_flush: "count_list closes Flush = 1"
begin

lemma handles_given_back:
  assumes "mset (held p1) = mset (held p) + mset opens" and "wind_down env closes p1 = (e, p2)"
  shows "e = Returned 0 \<and> mset (held p2) = mset (held p)
     \<or> (\<exists>c left. e = RaisedOut c \<and> suffix left closes \<and> mset (held p2) = mset (held p) + mset (closed_by left))"
proof -
  obtain made left where cs: "closes = made @ left" "held p2 = fold remove1 (closed_by made) (held p1)"
    "e = Returned 0 \<and> left = [] \<or> (\<exists>c. e = RaisedOut c)"
    using wind_down_within [of closes p1 env] assms(2) unfolding ends_within_def by auto
  have "mset opens = mset (closed_by made) + mset (closed_by left)"
    using closes_opened [symmetric] cs(1) by simp
  then have "mset (held p2) = mset (held p) + mset (closed_by left)"
    unfolding cs(2) mset_fold_remove1 assms(1) by simp
  then show ?thesis using cs(1,3) by (auto simp: suffix_def)
qed

lemma flushed:
  assumes "wind_down env closes p1 = (Returned 0, p2)"
  shows "shutdown_telemetry (flush_raises env) (telem p1) = (True, telem p2)"
proof -
  have "Flush \<in> set closes" using one_flush by (metis count_list_0_iff zero_neq_one)
  then obtain as bs where cs: "closes = as @ Flush # bs" "Flush \<notin> set as" by (blast dest: split_list_first)
  then have "Flush \<notin> set bs" using one_flush by (simp add: count_list_0_iff)
  obtain c p3 where p3: "wind_down env as p1 = (Returned c, p3)" "wind_down env (Flush # bs) p3 = (Returned 0, p2)"
    using assms unfolding cs(1) wind_down_append by (auto split: prod.splits process_end.splits)
  have "telem p3 = telem p1" using wind_down_telem [OF cs(2), of env p1] p3(1) by simp
  then show ?thesis
    using p3(2) wind_down_telem [OF \<open>Flush \<notin> set bs\<close>, of env]
    by (simp split: prod.splits if_splits) (metis process.select_convs(2) process.surjective process.update_convs(2) snd_conv)
qed

lemma given_back:
  assumes "mset (held p1) = mset (held p) + mset opens"
    and "fold (removeHandler []) (state_handlers (telem p1)) (tree (telem p1)) = tree (telem p)"
  shows "gave_back p closes (fst (wind_down env closes p1)) (snd (wind_down env closes p1))"
proof -
  obtain e p2 where run: "wind_down env closes p1 = (e, p2)" by fastforce
  have "tree (telem p2) = tree (telem p) \<and> state_handlers (telem p2) = [] \<and> state_providers (telem p2) = []"
    if "e = Returned 0"
    using shutdown_effect [OF flushed [OF run [unfolded that]]] assms(2) by simp
  then show ?thesis
    using handles_given_back [OF assms(1) run] unfolding run gave_back_def by auto
qed

end

interpretation worker_plan: resource_plan "worker_opens cfg" "worker_closes cfg" for cfg
  by unfold_locales (auto simp: worker_opens_def worker_closes_def split: option.split)

interpretation ticker_plan: resource_plan "ticker_opens cfg" "ticker_closes cfg" for cfg
  by unfold_locales (auto simp: ticker_opens_def ticker_closes_def count_list_0_iff split: option.split)

interpretation api_plan: resource_plan "api_opens env cfg" "api_closes env cfg" for env cfg
  by unfold_locales (auto simp: api_opens_def api_closes_def)

section \<open>From start to end\<close>

text \<open>Telemetry not yet set up.\<close>

definition fresh :: "nat \<Rightarrow> process \<Rightarrow> bool" where
  "fresh n p \<longleftrightarrow> state_handlers (telem p) = [] \<and> state_providers (telem p) = []
     \<and> OtelHandler n \<notin> set (handlers_of (tree (telem p)) [])"

text \<open>Once the loggers are set up, a process that has no telemetry yet is fresh, and \<open>main\<close> is \<open>run_forever\<close>.\<close>

lemma configured_fresh:
  assumes "configure_logging (log_level cfg) (tree (telem p)) = (Inr (), t)"
    and "state_handlers (telem p) = []" and "state_providers (telem p) = []"
  shows "fresh n (p\<lparr>telem := (telem p)\<lparr>tree := t\<rparr>\<rparr>)"
    and "worker_main S P cfg consumer env fuel n rounds p
       = worker_process S P cfg consumer env fuel n rounds (p\<lparr>telem := (telem p)\<lparr>tree := t\<rparr>\<rparr>)"
    and "ticker_main S cfg env fuel n m loop_fuel p
       = ticker_process S cfg env fuel n m loop_fuel (p\<lparr>telem := (telem p)\<lparr>tree := t\<rparr>\<rparr>)"
  using assms
  by (auto simp: fresh_def worker_main_def ticker_main_def configure_logging_def Let_def hijack_def setLevel_def
      set_propagate_def set_handlers_def addHandler_def split: sum.splits)

text \<open>Whether the start gets through: there is no health server, or it comes up.\<close>

definition comes_up :: "surroundings \<Rightarrow> settings \<Rightarrow> nat \<Rightarrow> bool" where
  "comes_up env cfg fuel \<longleftrightarrow> health_port cfg = None
     \<or> (\<exists>port. fst (HealthServer_start (on_windows env) (bind_result env) fuel (seen env)) = Some (Inr port))"

definition connections :: "settings \<Rightarrow> handle list" where
  "connections cfg = [make_engine (database_url cfg) (db_pool_size cfg) (db_disable_prepared_statements cfg),
     create_redis_client (redis_url cfg)]"

lemma boot_up:
  assumes "comes_up env cfg fuel" and "fresh n p"
  obtains p1 where "boot env cfg service instance_id max_age fuel n p = (None, p1)"
    and "held p1 = held p @ connections cfg @ (case health_port cfg of None \<Rightarrow> [] | Some port \<Rightarrow> [HealthTask port max_age])"
    and "fold (removeHandler []) (state_handlers (telem p1)) (tree (telem p1)) = tree (telem p)"
    and "gauges p1 = gauges p" and "announced p1 = announced p" and "catches_signals p1 = catches_signals p"
proof -
  let ?p1 = "snd (boot env cfg service instance_id max_age fuel n p)"
  have t: "telem ?p1 = configure_telemetry (setup_raises env) cfg service instance_id n (telem p)"
    by (simp add: boot_def Let_def acquire_def split: option.split sum.split)
  show ?thesis
  proof (rule that)
    show "boot env cfg service instance_id max_age fuel n p = (None, ?p1)"
      using assms(1) by (auto simp: boot_def comes_up_def Let_def split: option.split)
    show "fold (removeHandler []) (state_handlers (telem ?p1)) (tree (telem ?p1)) = tree (telem p)"
      using configure_effect(2) [OF _ _ _ t refl refl] assms(2) by (simp add: fresh_def)
  qed (use assms(1) in \<open>auto simp: boot_def comes_up_def Let_def acquire_def connections_def split: option.split\<close>)
qed

lemma boot_down:
  assumes "\<not> comes_up env cfg fuel"
  obtains e p1 where "boot env cfg service instance_id max_age fuel n p = (Some e, p1)"
    and "e = Waiting \<or> (\<exists>err. e = RaisedOut (HealthCrash err))" and "held p1 = held p @ connections cfg"
    and "announced p1 = announced p" and "catches_signals p1 = catches_signals p"
proof -
  let ?answer = "fst (HealthServer_start (on_windows env) (bind_result env) fuel (seen env))"
  let ?e = "case ?answer of Some (Inl err) \<Rightarrow> RaisedOut (HealthCrash err) | _ \<Rightarrow> Waiting"
  obtain port where port: "health_port cfg = Some port" "\<nexists>q. ?answer = Some (Inr q)"
    using assms unfolding comes_up_def by auto
  show ?thesis
  proof (rule that)
    show "boot env cfg service instance_id max_age fuel n p = (Some ?e, snd (boot env cfg service instance_id max_age fuel n p))"
      using port by (auto simp: boot_def Let_def split: option.split sum.split)
  qed (use port in \<open>auto simp: boot_def Let_def acquire_def connections_def split: option.split sum.split\<close>)
qed

text \<open>To the servers, a process is its loop, or nothing when it does not start.\<close>

lemma worker_process_world:
  "snd (run_state (worker_process S P cfg consumer env fuel n rounds p) w) =
     (if comes_up env cfg fuel then snd (run_state (worker_run_forever S P cfg consumer rounds) w) else w)"
  by (auto simp: worker_process_def worker_run_forever_def boot_def comes_up_def run_simps Let_def
      split: prod.splits option.splits sum.splits)

lemma ticker_process_world:
  "snd (run_state (ticker_process S cfg env fuel n m loop_fuel p) w) =
     (if comes_up env cfg fuel then snd (run_state (ticker_run_forever m loop_fuel S cfg) w) else w)"
  by (auto simp: ticker_process_def ticker_run_forever_def boot_def comes_up_def run_simps Let_def
      split: prod.splits option.splits sum.splits)

text \<open>The ticker keeps to the same contract; its loop raises nothing.\<close>

lemma fold_acquire: "held (fold acquire hs p) = held p @ hs" "telem (fold acquire hs p) = telem p"
  by (induction hs arbitrary: p) (auto simp: acquire_def)

lemma ticker_process_ends:
  assumes "fresh n p" and "comes_up env cfg fuel"
    and "run_state (ticker_process S cfg env fuel n m loop_fuel p) w = ((e, p'), w')"
  shows "w' = snd (run_state (ticker_run_forever m loop_fuel S cfg) w)
     \<and> (case fst (run_state (ticker_run_forever m loop_fuel S cfg) w) of
         None \<Rightarrow> e = Waiting
       | Some st \<Rightarrow> gave_back p (ticker_closes cfg) e p' \<and> (untroubled env \<longrightarrow> e = Returned 0))"
proof -
  obtain p1 where b: "boot env cfg ''jobs-ticker'' None (ticker_heartbeat_threshold_s cfg) fuel n p = (None, p1)"
    "held p1 = held p @ connections cfg @ (case health_port cfg of None \<Rightarrow> [] | Some port \<Rightarrow> [HealthTask port (ticker_heartbeat_threshold_s cfg)])"
    "fold (removeHandler []) (state_handlers (telem p1)) (tree (telem p1)) = tree (telem p)"
    using boot_up [OF assms(2,1)] by blast
  let ?p2 = "announce ''ticker.stopped'' (announce ''ticker.started''
     ((if otel_enabled cfg then register_ticker_gauges (fold acquire (make_sync_observability_resources cfg) p1) else p1)
       \<lparr>catches_signals := True\<rparr>))"
  have "gave_back p (ticker_closes cfg) (fst (wind_down env (ticker_closes cfg) ?p2)) (snd (wind_down env (ticker_closes cfg) ?p2))"
    by (rule ticker_plan.given_back)
      (use b(2,3) in \<open>simp_all add: announce_def register_ticker_gauges_def fold_acquire ticker_opens_def connections_def\<close>)
  then show ?thesis
    using assms(3) b(1) wind_down_untroubled [of env "ticker_closes cfg" ?p2]
    by (auto simp: ticker_process_def ticker_run_forever_def run_simps Let_def split: prod.splits option.splits)
qed

text \<open>
  So does the API, around whatever its requests do; the request passes the proxy headers before the body limit,
  and the limiter is on exactly when it is enabled.
\<close>

lemma api_process_ends:
  assumes "fresh n (p\<lparr>telem := (telem p)\<lparr>tree := t\<rparr>\<rparr>)" and "configure_logging (log_level cfg) (tree (telem p)) = (Inr (), t)"
    and "run_state (api_process S cfg env n serve p) w = ((e, p'), w')"
  shows "gave_back (p\<lparr>telem := (telem p)\<lparr>tree := t\<rparr>\<rparr>) (api_closes env cfg) e p' \<and> (untroubled env \<longrightarrow> e = Returned 0)
     \<and> w' = snd (run_state (lifespan S cfg \<bind> (\<lambda>limited. serve \<lparr>middleware = [''ProxyHeadersMiddleware'', ''BodySizeLimitMiddleware''],
           cache = TokenCache (auth_cache_ttl_us cfg) 1024, limiter = limited\<rparr>)) w)"
proof -
  let ?p0 = "p\<lparr>telem := (telem p)\<lparr>tree := t\<rparr>\<rparr>"
  obtain a p1 where app: "create_app env cfg n p = (Inr a, p1)" "a = \<lparr>middleware = [''ProxyHeadersMiddleware'', ''BodySizeLimitMiddleware''],
      cache = TokenCache (auth_cache_ttl_us cfg) 1024, limiter = False\<rparr>" "held p1 = held p @ api_opens env cfg"
    "state_handlers (telem p1) = state_handlers (configure_telemetry (setup_raises env) cfg ''jobs-api'' None n (telem ?p0))"
    "tree (telem p1) = tree (configure_telemetry (setup_raises env) cfg ''jobs-api'' None n (telem ?p0))"
    by (simp add: create_app_def assms(2) Let_def acquire_def add_middleware_def api_opens_def instrument_def)
  have "fold (removeHandler []) (state_handlers (telem p1)) (tree (telem p1)) = tree (telem ?p0)"
    unfolding app(4,5) by (rule configure_effect(2) [OF _ _ _ refl refl refl]) (use assms(1) in \<open>simp_all add: fresh_def\<close>)
  then have "gave_back ?p0 (api_closes env cfg) (fst (wind_down env (api_closes env cfg) p1)) (snd (wind_down env (api_closes env cfg) p1))"
    using app(3) by (intro api_plan.given_back) simp_all
  then show ?thesis
    using assms(3) app(1,2) wind_down_untroubled [of env "api_closes env cfg" p1]
    by (auto simp: api_process_def run_simps split: prod.splits)
qed

text \<open>
  C19 (worker_process_ends). The worker process from start to end, under every interference and whatever fails
  around it. Without its health server it does not start: no statement is sent, no signal is caught, and it
  raises (or still waits for the server). Otherwise it does to the servers exactly what the loop does. When the
  loop fails, the process raises and keeps what it holds; when the loop was asked to stop or to recycle, the
  process announces its end and either returns 0 with every connection closed and the loggers as they were, as
  it does whenever nothing fails, or raises with exactly the calls undone that follow the failing one.
\<close>

theorem worker_process_ends:
  assumes "fresh n p"
    and "run_state (worker_process S P cfg consumer env fuel n rounds p) w = ((e, p'), w')"
  shows "if \<not> comes_up env cfg fuel
     then w' = w \<and> (e = Waiting \<or> (\<exists>err. e = RaisedOut (HealthCrash err))) \<and> held p' = held p @ connections cfg
       \<and> announced p' = announced p \<and> catches_signals p' = catches_signals p
     else w' = snd (run_state (worker_run_forever S P cfg consumer rounds) w) \<and> catches_signals p'
       \<and> (case fst (run_state (worker_run_forever S P cfg consumer rounds) w) of
           Inl err \<Rightarrow> e = RaisedOut (LoopCrash err) \<and> held p' = held p @ worker_opens cfg
             \<and> announced p' = announced p @ [''worker.started'']
         | Inr rc \<Rightarrow> gave_back p (worker_closes cfg) e p' \<and> (untroubled env \<longrightarrow> e = Returned 0)
             \<and> announced p' = announced p @ [''worker.started'', ''worker.stopped''])"
proof (cases "comes_up env cfg fuel")
  case False
  obtain e1 p1 where b: "boot env cfg ''jobs-worker'' (Some consumer) (worker_heartbeat_threshold_s cfg) fuel n p = (Some e1, p1)"
    "e1 = Waiting \<or> (\<exists>err. e1 = RaisedOut (HealthCrash err))" "held p1 = held p @ connections cfg"
    "announced p1 = announced p" "catches_signals p1 = catches_signals p"
    using boot_down [OF False] by blast
  then show ?thesis using assms(2) False by (auto simp: worker_process_def run_simps)
next
  case True
  obtain p1 where b: "boot env cfg ''jobs-worker'' (Some consumer) (worker_heartbeat_threshold_s cfg) fuel n p = (None, p1)"
    "held p1 = held p @ connections cfg @ (case health_port cfg of None \<Rightarrow> [] | Some port \<Rightarrow> [HealthTask port (worker_heartbeat_threshold_s cfg)])"
    "fold (removeHandler []) (state_handlers (telem p1)) (tree (telem p1)) = tree (telem p)"
    "announced p1 = announced p"
    using boot_up [OF True assms(1)] by blast
  have opened: "held p1 = held p @ worker_opens cfg" using b(2) by (simp add: worker_opens_def connections_def)
  let ?p2 = "announce ''worker.stopped'' (announce ''worker.started''
     ((if otel_enabled cfg then register_worker_resource_gauges p1 else p1)\<lparr>catches_signals := True\<rparr>))"
  have "gave_back p (worker_closes cfg) (fst (wind_down env (worker_closes cfg) ?p2)) (snd (wind_down env (worker_closes cfg) ?p2))"
    by (rule worker_plan.given_back) (use opened b(3) in \<open>simp_all add: announce_def register_worker_resource_gauges_def\<close>)
  then show ?thesis
    using assms(2) True b(1,4) opened wind_down_untroubled [of env "worker_closes cfg" ?p2] wind_down_rest [of env "worker_closes cfg" ?p2]
    by (auto simp: worker_process_def worker_run_forever_def run_simps announce_def register_worker_resource_gauges_def Let_def
        split: prod.splits sum.splits)
qed

definition calm :: surroundings where
  "calm = \<lparr>setup_raises = (\<lambda>_. False), flush_raises = (\<lambda>_. False), bind_result = Inr 8081,
     seen = (\<lambda>k. (k = 2, Running)), task_result = Inr (), close_raises = (\<lambda>_. False), on_windows = False, ca_present = True\<rparr>"

definition sample_process :: process where
  "sample_process = \<lparr>held = [], telem = sample_telemetry, gauges = [], catches_signals = False, announced = []\<rparr>"

definition sample_process_cfg :: settings where
  "sample_process_cfg = sample_cfg\<lparr>health_port := Some 8081, otel_enabled := True\<rparr>"

text \<open>A worker with a health server, which looks three times until the server is up, and is then told to stop.\<close>

theorem worker_process_ends_witness:
  "let end = fst (run_state (worker_process ref_services sample_schema sample_process_cfg ''worker-1'' calm 3 0
       [(True, 0, sample_draws)] sample_process) (sample_world [])) in
     fst end = Returned 0 \<and> held (snd end) = [] \<and> announced (snd end) = [''worker.started'', ''worker.stopped'']
     \<and> tree (telem (snd end)) = tree sample_telemetry"
proof -
  let ?m = "worker_process ref_services sample_schema sample_process_cfg ''worker-1'' calm 3 0 [(True, 0, sample_draws)] sample_process"
  obtain e p' w' where run: "run_state ?m (sample_world []) = ((e, p'), w')" by (metis surj_pair)
  have "handlers_of (tree sample_telemetry) [] = [StdoutHandler]" by code_simp
  then have "fresh 0 sample_process" by (simp add: fresh_def sample_process_def sample_telemetry_def)
  note ends = worker_process_ends [OF this run]
  have "comes_up calm sample_process_cfg 3"
    by (simp add: comes_up_def calm_def HealthServer_start_def numeral_3_eq_3 numeral_2_eq_2)
  moreover have "\<exists>rc. fst (run_state (worker_run_forever ref_services sample_schema sample_process_cfg ''worker-1'' [(True, 0, sample_draws)])
      (sample_world [])) = Inr rc"
    by (simp add: worker_run_forever_def run_simps split: prod.split)
  moreover have "untroubled calm" by (simp add: untroubled_def calm_def)
  ultimately show ?thesis
    using ends unfolding run by (auto simp: gave_back_def sample_process_def Let_def)
qed

end
