(* ===== verification/Metrics.thy ===== *)
theory Metrics
  imports Worker Observability
begin

text \<open>
  The measurements of the worker: \<open>_record_outcome\<close> and the queue wait of \<open>handle_message\<close>
  (\<open>app/worker/runner.py\<close>), over the instruments of \<open>app/core/metrics.py\<close>. Durations are in microseconds.
\<close>

datatype instrument_kind = Counter | Histogram

definition instruments :: "(string \<times> instrument_kind) list" where
  "instruments = [(''jobs.submitted'', Counter), (''jobs.processed'', Counter), (''jobs.failed'', Counter),
     (''job.processing.duration'', Histogram), (''job.queue.wait'', Histogram), (''ticker.promoted'', Counter),
     (''ticker.reaped'', Counter), (''ticker.reconciled'', Counter), (''auth.validations'', Counter),
     (''jobs.dropped_ownerless'', Counter), (''worker.recycles'', Counter)]"

type_synonym attributes = "(string \<times> string) list"

datatype measurement = Add string int attributes | Record string int attributes

fun well_typed :: "measurement \<Rightarrow> bool" where
  "well_typed (Add name n attrs) \<longleftrightarrow> dict_get instruments name = Some Counter \<and> 0 \<le> n"
| "well_typed (Record name d attrs) \<longleftrightarrow> dict_get instruments name = Some Histogram \<and> 0 \<le> d"

definition record_outcome :: "job option \<Rightarrow> string \<Rightarrow> timestamp \<Rightarrow> timestamp \<Rightarrow> measurement list" where
  "record_outcome got lab started now = (
     let attrs = [(''outcome'', lab)];
         attrs = (case got of None \<Rightarrow> attrs | Some job \<Rightarrow>
           dict_set (dict_set attrs ''type'' (JobType_value (jtype job))) ''priority'' (JobPriority_value (priority job)))
     in [Add ''jobs.processed'' 1 attrs,
         Record ''job.processing.duration'' (now - started) (filter (\<lambda>(k, v). k \<in> {''type'', ''outcome''}) attrs)])"

definition queue_wait :: "settings \<Rightarrow> timestamp \<Rightarrow> delivery \<Rightarrow> measurement" where
  "queue_wait cfg now msg = (case msg of (stream, message_id, fs) \<Rightarrow>
     let sent_ms = int (fst message_id);
         priority_by_stream = fold (\<lambda>(p, s) d. dict_set d s (JobPriority_value p)) (priority_streams cfg) []
     in Record ''job.queue.wait'' (max 0 (now - sent_ms * 1000))
          [(''stream'', case dict_get priority_by_stream stream of Some v \<Rightarrow> v | None \<Rightarrow> stream)])"

section \<open>What is measured\<close>

text \<open>
  Both measurements of an outcome go to instruments of their kind; the counter has the labels of the histogram and
  the priority besides, when there is a job.
\<close>

lemma outcome_measured:
  assumes "started \<le> now"
  shows "list_all well_typed (record_outcome got lab started now)"
    and "record_outcome got lab started now = [Add ''jobs.processed'' 1 (ls @ ps), Record ''job.processing.duration'' (now - started) ls]
      \<Longrightarrow> set (map fst ls) \<subseteq> {''outcome'', ''type''} \<and> length ps = (if got = None then 0 else 1)"
  using assms by (auto simp: record_outcome_def instruments_def Let_def split: option.splits)

text \<open>
  A message of a priority's stream is measured under the label of that priority, the one under which
  \<open>queue_depth_observations\<close> reports the stream, and never as a negative time, whatever the clocks say.
\<close>

lemma wait_measured:
  assumes "distinct (ordered_streams cfg)"
  shows "queue_wait cfg now (stream_for_priority cfg p, (ms, k), fs)
     = Record ''job.queue.wait'' (max 0 (now - int ms * 1000)) [(''stream'', JobPriority_value p)]"
    and "well_typed (queue_wait cfg now msg)"
  using assms
  by (cases p) (auto simp: queue_wait_def priority_streams_def ordered_streams_def instruments_def Let_def split: prod.split)

end
