(* ===== verification/Races.thy ===== *)
theory Races
  imports Pipeline
begin

text \<open>
  Interleavings that go wrong: concrete runs on the reference servers in which another process acts between two
  statements of a call, as the code allows it. Each shows what a guard that the code does not have would prevent;
  the theorems of the other theories are stated so that they hold without it.
\<close>

section \<open>Evaluation\<close>

text \<open>What another process does in the meantime, as interference: its own program, undisturbed.\<close>

definition meanwhile :: "('d, 'r, 'a) io \<Rightarrow> ('d, 'r) shared \<Rightarrow> ('d, 'r) shared" where
  "meanwhile m s = shared (snd (run_state m \<lparr>shared = s, script = [], trace = []\<rparr>))"

lemma ref_parts:
  "redis ref_services = ref_redis_ops" "sql ref_services = ref_postgres" "inject ref_services = (\<lambda>_ _ _ fs. fs)"
  by (simp_all add: ref_services_def)

lemmas step_eval = run_simps redis_step_def redis_query_def sql_step_def sql_query_def run_atomically arriving_def
  ref_parts sample_world_def ref_world_def Let_def

lemmas run_eval = step_eval meanwhile_def

lemmas redis_eval = ref_redis_ops_def ref_xreadgroup_def ref_xack_def ref_norm_def ref_ok_def ref_log_def
  ref_raw_view_def ref_group_def ref_entries_def ref_deliver_def waiting_def in_flight_def sample_redis_def Let_def

text \<open>The table with one row, and the default streams.\<close>

lemma ref_one_row:
  "pg_insert ref_postgres j [] = (True, [j\<lparr>created_at := 0\<rparr>])"
  "pg_update ref_postgres g f [j] = (if g j then (1, [f j]) else (0, [j]))"
  "pg_select ref_postgres g [j] = (if g j then [j] else [])"
  "ref_tbl [j] i = (if i = jid j then Some j else None)"
  by (simp_all add: ref_postgres_def ref_tbl_def)

lemma sample_streams:
  "ordered_streams sample_cfg = [''jobs:stream:high'', ''jobs:stream:normal'', ''jobs:stream:low'']"
  "map fst (stream_dict [''jobs:stream:high'', ''jobs:stream:normal'', ''jobs:stream:low''])
     = [''jobs:stream:high'', ''jobs:stream:normal'', ''jobs:stream:low'']"
  "consumer_group sample_cfg = ''workers''" "stream_for_priority sample_cfg high = ''jobs:stream:high''"
  by code_simp+

section \<open>The cancel route\<close>

text \<open>
  \<open>cancel_job_route\<close>: the job runs when it is first asked for, is back in the queue when the route reads it, and
  completes before the second round. The second round still sees the row of the first one in its session, and the
  route answers that the job is cancelled.
\<close>

lemma cancel_answers_from_session:
  "case run_state (cancel_job_route ref_services sample_cfg 7 sample_user)
      ((sample_world [sample_job pending])\<lparr>script := [id, meanwhile (claim_job ref_services 7),
         meanwhile (retry_to_pending ref_services 7), id,
         meanwhile (do { claim_job ref_services 7; complete_job ref_services 7 (JStr ''done'') None })]\<rparr>) of
     (r, w') \<Rightarrow> map_option status (ref_tbl (db (shared w')) 7) = Some completed
       \<and> (case r of Inr (code, out) \<Rightarrow> code = 200 \<and> out_status out = cancelled | Inl _ \<Rightarrow> False)"
  by code_simp

section \<open>The read of the worker\<close>

text \<open>
  \<open>run_forever\<close> takes the first message of what \<open>read_priority\<close> answers. Two jobs arrive between the probes and
  the blocking read: both are delivered to this worker, and it only runs the first.
\<close>

lemma empty_reads:
  "xreadgroup ref_redis_ops ''workers'' c [''jobs:stream:high''] n b sample_redis = ([], sample_redis)"
  "xreadgroup ref_redis_ops ''workers'' c [''jobs:stream:normal''] n b sample_redis = ([], sample_redis)"
  "xreadgroup ref_redis_ops ''workers'' c [''jobs:stream:low''] n b sample_redis = ([], sample_redis)"
  by (simp_all add: redis_eval)

lemma two_arrivals:
  "snd (xadd ref_redis_ops ''jobs:stream:low'' f2 (snd (xadd ref_redis_ops ''jobs:stream:high'' f1 sample_redis)))
    = sample_redis\<lparr>logs := [(''jobs:stream:high'', [f1]), (''jobs:stream:low'', [f2])]\<rparr>"
  by (simp add: redis_eval)

lemma two_deliveries:
  "xreadgroup ref_redis_ops ''workers'' c [''jobs:stream:high'', ''jobs:stream:normal'', ''jobs:stream:low''] (Suc 0) b
      (sample_redis\<lparr>logs := [(''jobs:stream:high'', [f1]), (''jobs:stream:low'', [f2])]\<rparr>)
     = ([(''jobs:stream:high'', [((1, 0), f1)]), (''jobs:stream:low'', [((1, 0), f2)])],
        \<lparr>logs = [(''jobs:stream:high'', [f1]), (''jobs:stream:low'', [f2])],
          readers = [((''jobs:stream:high'', ''workers''), (1, [])), ((''jobs:stream:normal'', ''workers''), (0, [])),
            ((''jobs:stream:low'', ''workers''), (1, []))], scores = []\<rparr>)"
  by (simp add: redis_eval)

lemma second_delivery_ignored:
  "case run_state (pull_one ref_services sample_cfg ''w1'')
      ((sample_world [])\<lparr>script := [id, id, id, meanwhile (do {
         enqueue ref_services ''jobs:stream:high'' (uuid_str 8) None; enqueue ref_services ''jobs:stream:low'' (uuid_str 9) None })]\<rparr>) of
     (m, w') \<Rightarrow> m = Some (''jobs:stream:high'', (1, 0), [(''job_id'', uuid_str 8)])
       \<and> (let v = ref_view (rds (shared w')) in waiting v ''jobs:stream:low'' ''workers'' = []
          \<and> in_flight v ''jobs:stream:low'' ''workers'' = [((1, 0), [(''job_id'', uuid_str 9)])])"
  by (simp add: pull_one_def read_priority_def enqueue_def message_fields_def sample_streams run_eval
      empty_reads two_arrivals two_deliveries)
    (simp add: ref_view_def redis_eval)

section \<open>Retrying by a stale count\<close>

text \<open>
  \<open>schedule_retry_or_fail\<close>: while a worker runs the first of two attempts, the reaper takes the job for lost and
  another worker claims the second attempt. The first worker then retries by the count it read, and so releases the
  execution of the other: the row has used up its attempts and waits for a third.
\<close>

lemma sample_report_valid:
  "validate_payload sample_schema report (JDict [(''report_type'', JStr ''sales'')])
     (Some (sample_cfg\<lparr>retry_backoff_schedule := x\<rparr>)) = Inr (SinglePayload (ReportPayload sales None))"
  by (simp add: validate_payload_def job_model_def item_model_def report_payload_def only_keys_def check_policy_def
      check_item_policy_def)

lemmas retry_eval = schedule_retry_or_fail_def backoff_delay_def py_index_def retry_to_pending_def mark_synced_def
  enqueue_def message_fields_def claim_job_def get_job_def one_or_none_def

lemma stale_retry_beyond_max:
  "case run_state (process_job ref_services sample_schema (sample_cfg\<lparr>retry_backoff_schedule := [0]\<rparr>)
        (\<lambda>_. \<lparr>nap = 90000000, coin = False, fresh_id = 5\<rparr>) 7)
      ((sample_world [(sample_job pending)\<lparr>max_attempts := 2\<rparr>])\<lparr>script := [id, id, meanwhile (do {
         reap_one ref_services (sample_cfg\<lparr>retry_backoff_schedule := [0]\<rparr>) ''jobs:stream:normal'' (1, 0) 7;
         claim_job ref_services 7 })]\<rparr>) of
     (r, w') \<Rightarrow> (case ref_tbl (db (shared w')) 7 of
        Some row \<Rightarrow> status row = pending \<and> attempts row = 2 \<and> max_attempts row = 2 | None \<Rightarrow> False)"
proof -
  have "job_handler_timeout_us sample_cfg = 45000000" by code_simp
  then show ?thesis
    by (simp add: process_job_def run_eval ref_one_row sample_report_valid run_payload_def run_with_timeout_def
        run_handler_def run_item_def handle_report_def sleep_until_deadline_def settle_def retry_outcome_label_def
        retry_eval reap_one_def reap_recover_def ack_def)
qed

section \<open>Marking a row that has moved on\<close>

text \<open>
  \<open>mark_synced\<close>: between the message of a submission and the mark, a worker takes the job, has to retry it at once
  and dies before it sends the new message. The mark is then set on a row that is not in Redis any more, and when
  the reaper has acknowledged the message of the dead worker, no process finds the job again.
\<close>

definition one_read :: "fields \<Rightarrow> entry_id list \<Rightarrow> ref_redis" where
  "one_read f acked = sample_redis\<lparr>logs := [(''jobs:stream:high'', [f])],
     readers := dict_set (readers sample_redis) (''jobs:stream:high'', ''workers'') (1, acked)\<rparr>"

lemma one_read_eval:
  "snd (xreadgroup ref_redis_ops ''workers'' c [''jobs:stream:high''] (Suc 0) b
      (snd (xadd ref_redis_ops ''jobs:stream:high'' f sample_redis))) = one_read f []"
  "snd (xack ref_redis_ops ''jobs:stream:high'' ''workers'' (Suc 0, 0) (one_read f [])) = one_read f [(1, 0)]"
  "waiting (ref_view (one_read f [(1, 0)])) ''jobs:stream:high'' ''workers'' = []"
  "in_flight (ref_view (one_read f [(1, 0)])) ''jobs:stream:high'' ''workers'' = []"
  by (simp_all add: one_read_def ref_view_def redis_eval)

lemma new_job_fields:
  "jid (new_job i t p st sched prio maxa key hash ctx uid uname) = i"
  "status (new_job i t p st sched prio maxa key hash ctx uid uname) = st"
  by (simp_all add: new_job_def)

definition dying_worker :: "(job list, ref_redis, bool) io" where
  "dying_worker = do {
     redis_step (xreadgroup (redis ref_services) ''workers'' ''w1'' [''jobs:stream:high''] 1 None);
     claim_job ref_services 9;
     retry_to_pending ref_services 9
   }"

lemma meanwhile_dying_worker:
  assumes "jid j = 9" and "status j = pending"
  shows "meanwhile dying_worker \<lparr>db = [j], rds = r, clock = t\<rparr>
    = \<lparr>db = [j\<lparr>status := pending, started_at := None, attempts := attempts j + 1, is_synced_to_redis := False\<rparr>],
        rds = snd (xreadgroup ref_redis_ops ''workers'' ''w1'' [''jobs:stream:high''] 1 None r), clock = t\<rparr>"
  using assms by (simp add: dying_worker_def run_eval ref_one_row claim_job_def retry_to_pending_def)

lemma overtaken_handoff:
  fixes w1 :: "(job list, ref_redis) world"
  assumes "w1 = snd (run_state (create_and_handoff ref_services sample_cfg 9 None (sample_submission None) None None 1 ''ann'')
      ((sample_world [])\<lparr>script := [id, id, id, meanwhile dying_worker]\<rparr>))"
  obtains j where "db (shared w1) = [j]" and "jid j = 9" and "status j = pending" and "is_synced_to_redis j"
    and "script w1 = []" and "rds (shared w1) = one_read [(''job_id'', uuid_str 9)] []"
  using assms that
  by (simp add: create_and_handoff_def create_job_def new_job_fields step_eval ref_one_row sample_streams one_or_none_def
      enqueue_def message_fields_def mark_synced_def meanwhile_dying_worker one_read_eval sample_submission_def)

lemma overtaken_mark_strands_job:
  "case run_state (do {
       create_and_handoff ref_services sample_cfg 9 None (sample_submission None) None None 1 ''ann'';
       reap_one ref_services sample_cfg ''jobs:stream:high'' (1, 0) 9 })
      ((sample_world [])\<lparr>script := [id, id, id, meanwhile dying_worker]\<rparr>) of
     (r, w') \<Rightarrow> (case ref_tbl (db (shared w')) 9 of
        Some row \<Rightarrow> status row = pending \<and> is_synced_to_redis row | None \<Rightarrow> False)
       \<and> (let v = ref_view (rds (shared w')) in waiting v ''jobs:stream:high'' ''workers'' = []
          \<and> in_flight v ''jobs:stream:high'' ''workers'' = [])"
proof -
  obtain r0 w1 where run: "run_state (create_and_handoff ref_services sample_cfg 9 None (sample_submission None) None None 1 ''ann'')
      ((sample_world [])\<lparr>script := [id, id, id, meanwhile dying_worker]\<rparr>) = (r0, w1)" by fastforce
  obtain j where j: "db (shared w1) = [j]" "jid j = 9" "status j = pending" "is_synced_to_redis j" "script w1 = []"
    "rds (shared w1) = one_read [(''job_id'', uuid_str 9)] []"
    using overtaken_handoff [of w1] run by auto
  have "case run_state (reap_one ref_services sample_cfg ''jobs:stream:high'' (1, 0) 9) w1 of
     (r, w') \<Rightarrow> db (shared w') = [j] \<and> rds (shared w') = one_read [(''job_id'', uuid_str 9)] [(1, 0)]"
    using j by (simp add: reap_one_def reap_recover_def get_job_def one_or_none_def ack_def step_eval ref_one_row sample_streams
        one_read_eval)
  then show ?thesis
    using j by (auto simp: run_simps run ref_one_row one_read_eval [unfolded One_nat_def] Let_def split: prod.splits)
qed

end
