(* ===== verification/Migrations.thy ===== *)
theory Migrations
  imports Job_Model
begin

text \<open>
  The migrations under \<open>alembic/versions\<close>, and the table that \<open>app/models/job.py\<close> declares. A migration is a
  list of operations of alembic; \<open>apply_op\<close> interprets one on a database, with the errors PostgreSQL raises:
  an object that is missing, exists already or is still depended on, a unique index or a foreign key that
  the rows violate. Rows are functions from column names to values, \<open>VNull\<close> outside the columns of the
  table, so that the effect of a migration on existing jobs is part of the model.
\<close>

section \<open>Databases\<close>

datatype pg_value = VNull | VBool bool | VInt int | VText string

type_synonym row = "string \<Rightarrow> pg_value"

datatype pg_type = PG_UUID | PG_JSONB | PG_TIMESTAMPTZ | PG_TEXT | PG_INTEGER | PG_BOOLEAN | PG_ENUM string

datatype default_expr = Literal pg_value | SqlFunc string

record column =
  col_name :: string
  col_type :: pg_type
  nullable :: bool
  server_default :: "default_expr option"

text \<open>The two conditions of the partial indexes.\<close>

datatype index_where = IsNotNull string | UnsyncedWaiting

record pg_index =
  ix_name :: string
  ix_table :: string
  ix_columns :: "string list"
  ix_unique :: bool
  ix_where :: "index_where option"

record foreign_key =
  fk_name :: string
  fk_table :: string
  fk_target :: string
  fk_column :: string
  fk_target_column :: string

record pg_table =
  columns :: "column list"
  primary_key :: string
  rows :: "row list"

record database =
  enums :: "(string \<times> string list) list"
  tables :: "(string \<times> pg_table) list"
  indexes :: "pg_index list"
  foreign_keys :: "foreign_key list"

datatype pg_error =
    UndefinedObject string
  | DuplicateObject string
  | DependentObjects string
  | UniqueViolation string
  | ForeignKeyViolation string
  | NotNullViolation string
  | VolatileDefault string

datatype op =
    CreateEnum string "string list"
  | DropEnum string
  | AddEnumValue string string
  | CreateTable string "column list" string
  | DropTable string
  | AddColumn string column
  | DropColumn string string
  | CreateIndex pg_index
  | DropIndex string
  | CreateForeignKey foreign_key
  | DropConstraint string
  | UpdateAll string string pg_value

section \<open>Operations\<close>

definition where_holds :: "index_where option \<Rightarrow> row \<Rightarrow> bool" where
  "where_holds c r = (case c of
     None \<Rightarrow> True
   | Some (IsNotNull k) \<Rightarrow> r k \<noteq> VNull
   | Some UnsyncedWaiting \<Rightarrow> r ''is_synced_to_redis'' = VBool False
       \<and> (r ''status'' = VText ''pending'' \<or> r ''status'' = VText ''scheduled''))"

definition where_columns :: "index_where option \<Rightarrow> string set" where
  "where_columns c = (case c of None \<Rightarrow> {} | Some (IsNotNull k) \<Rightarrow> {k}
     | Some UnsyncedWaiting \<Rightarrow> {''is_synced_to_redis'', ''status''})"

text \<open>The keys a unique index compares; a key with a null is equal to no other.\<close>

definition index_keys :: "pg_index \<Rightarrow> row list \<Rightarrow> pg_value list list" where
  "index_keys ix rs = filter (\<lambda>k. VNull \<notin> set k) (map (\<lambda>r. map r (ix_columns ix)) (filter (where_holds (ix_where ix)) rs))"

definition default_value :: "default_expr option \<Rightarrow> pg_value option" where
  "default_value d = (case d of None \<Rightarrow> Some VNull | Some (Literal v) \<Rightarrow> Some v | Some (SqlFunc _) \<Rightarrow> None)"

definition uses_enum :: "string \<Rightarrow> column \<Rightarrow> bool" where
  "uses_enum e c \<longleftrightarrow> col_type c = PG_ENUM e"

definition enum_known :: "database \<Rightarrow> column \<Rightarrow> bool" where
  "enum_known d c \<longleftrightarrow> (case col_type c of PG_ENUM e \<Rightarrow> dict_get (enums d) e \<noteq> None | _ \<Rightarrow> True)"

fun apply_op :: "op \<Rightarrow> database \<Rightarrow> pg_error + database" where
  "apply_op (CreateEnum e vs) d =
     (if dict_get (enums d) e \<noteq> None then Inr d else Inr (d\<lparr>enums := enums d @ [(e, vs)]\<rparr>))"
| "apply_op (DropEnum e) d =
     (if dict_get (enums d) e = None then Inr d
      else if list_ex (\<lambda>(_, t). list_ex (uses_enum e) (columns t)) (tables d) then Inl (DependentObjects e)
      else Inr (d\<lparr>enums := dict_del (enums d) e\<rparr>))"
| "apply_op (AddEnumValue e v) d = (case dict_get (enums d) e of
     None \<Rightarrow> Inl (UndefinedObject e)
   | Some vs \<Rightarrow> Inr (if v \<in> set vs then d else d\<lparr>enums := dict_set (enums d) e (vs @ [v])\<rparr>))"
| "apply_op (CreateTable t cs pk) d =
     (if dict_get (tables d) t \<noteq> None then Inl (DuplicateObject t)
      else if \<not> list_all (enum_known d) cs then Inl (UndefinedObject t)
      else Inr (d\<lparr>tables := tables d @ [(t, \<lparr>columns = cs, primary_key = pk, rows = []\<rparr>)]\<rparr>))"
| "apply_op (DropTable t) d =
     (if dict_get (tables d) t = None then Inl (UndefinedObject t)
      else if list_ex (\<lambda>f. fk_target f = t \<and> fk_table f \<noteq> t) (foreign_keys d) then Inl (DependentObjects t)
      else Inr (d\<lparr>tables := dict_del (tables d) t, indexes := filter (\<lambda>ix. ix_table ix \<noteq> t) (indexes d),
                  foreign_keys := filter (\<lambda>f. fk_table f \<noteq> t) (foreign_keys d)\<rparr>))"
| "apply_op (AddColumn t c) d = (case dict_get (tables d) t of
     None \<Rightarrow> Inl (UndefinedObject t)
   | Some tb \<Rightarrow>
       if col_name c \<in> col_name ` set (columns tb) then Inl (DuplicateObject (col_name c))
       else if \<not> enum_known d c then Inl (UndefinedObject (col_name c))
       else case default_value (server_default c) of
         None \<Rightarrow> Inl (VolatileDefault (col_name c))
       | Some v \<Rightarrow>
           if v = VNull \<and> \<not> nullable c \<and> rows tb \<noteq> [] then Inl (NotNullViolation (col_name c))
           else Inr (d\<lparr>tables := dict_set (tables d) t
             (tb\<lparr>columns := columns tb @ [c], rows := map (\<lambda>r. r(col_name c := v)) (rows tb)\<rparr>)\<rparr>))"
| "apply_op (DropColumn t c) d = (case dict_get (tables d) t of
     None \<Rightarrow> Inl (UndefinedObject t)
   | Some tb \<Rightarrow>
       if c \<notin> col_name ` set (columns tb) then Inl (UndefinedObject c)
       else if list_ex (\<lambda>f. fk_target f = t \<and> fk_target_column f = c \<and> fk_table f \<noteq> t) (foreign_keys d) then Inl (DependentObjects c)
       else Inr (d\<lparr>tables := dict_set (tables d) t
              (tb\<lparr>columns := filter (\<lambda>k. col_name k \<noteq> c) (columns tb), rows := map (\<lambda>r. r(c := VNull)) (rows tb)\<rparr>),
            indexes := filter (\<lambda>ix. \<not> (ix_table ix = t \<and> (c \<in> set (ix_columns ix) \<or> c \<in> where_columns (ix_where ix)))) (indexes d),
            foreign_keys := filter (\<lambda>f. \<not> (fk_table f = t \<and> fk_column f = c)) (foreign_keys d)\<rparr>))"
| "apply_op (CreateIndex ix) d = (case dict_get (tables d) (ix_table ix) of
     None \<Rightarrow> Inl (UndefinedObject (ix_table ix))
   | Some tb \<Rightarrow>
       if ix_name ix \<in> ix_name ` set (indexes d) then Inl (DuplicateObject (ix_name ix))
       else if \<not> set (ix_columns ix) \<subseteq> col_name ` set (columns tb) then Inl (UndefinedObject (ix_name ix))
       else if ix_unique ix \<and> \<not> distinct (index_keys ix (rows tb)) then Inl (UniqueViolation (ix_name ix))
       else Inr (d\<lparr>indexes := indexes d @ [ix]\<rparr>))"
| "apply_op (DropIndex n) d =
     (if n \<notin> ix_name ` set (indexes d) then Inl (UndefinedObject n)
      else Inr (d\<lparr>indexes := filter (\<lambda>ix. ix_name ix \<noteq> n) (indexes d)\<rparr>))"
| "apply_op (CreateForeignKey f) d = (case (dict_get (tables d) (fk_table f), dict_get (tables d) (fk_target f)) of
     (Some tb, Some target) \<Rightarrow>
       if \<not> list_all (\<lambda>r. r (fk_column f) = VNull \<or> list_ex (\<lambda>q. q (fk_target_column f) = r (fk_column f)) (rows target)) (rows tb)
       then Inl (ForeignKeyViolation (fk_name f))
       else Inr (d\<lparr>foreign_keys := foreign_keys d @ [f]\<rparr>)
   | _ \<Rightarrow> Inl (UndefinedObject (fk_name f)))"
| "apply_op (DropConstraint n) d =
     (if n \<notin> fk_name ` set (foreign_keys d) then Inl (UndefinedObject n)
      else Inr (d\<lparr>foreign_keys := filter (\<lambda>f. fk_name f \<noteq> n) (foreign_keys d)\<rparr>))"
| "apply_op (UpdateAll t c v) d = (case dict_get (tables d) t of
     None \<Rightarrow> Inl (UndefinedObject t)
   | Some tb \<Rightarrow> Inr (d\<lparr>tables := dict_set (tables d) t (tb\<lparr>rows := map (\<lambda>r. r(c := v)) (rows tb)\<rparr>)\<rparr>))"

text \<open>A migration runs in a transaction: the first error undoes it.\<close>

fun run_ops :: "op list \<Rightarrow> database \<Rightarrow> pg_error + database" where
  "run_ops [] d = Inr d"
| "run_ops (o1 # os) d = (case apply_op o1 d of Inl e \<Rightarrow> Inl e | Inr d' \<Rightarrow> run_ops os d')"

definition plain_index :: "string \<Rightarrow> string \<Rightarrow> string list \<Rightarrow> pg_index" where
  "plain_index n t cs = \<lparr>ix_name = n, ix_table = t, ix_columns = cs, ix_unique = False, ix_where = None\<rparr>"

definition nullable_column :: "string \<Rightarrow> pg_type \<Rightarrow> column" where
  "nullable_column n ty = \<lparr>col_name = n, col_type = ty, nullable = True, server_default = None\<rparr>"

definition required_column :: "string \<Rightarrow> pg_type \<Rightarrow> default_expr option \<Rightarrow> column" where
  "required_column n ty dflt = \<lparr>col_name = n, col_type = ty, nullable = False, server_default = dflt\<rparr>"

section \<open>The migrations\<close>

definition JOB_TYPE :: "string \<times> string list" where
  "JOB_TYPE = (''job_type'', [''email'', ''webhook'', ''report''])"

definition JOB_STATUS :: "string \<times> string list" where
  "JOB_STATUS = (''job_status'', [''scheduled'', ''pending'', ''processing'', ''completed'', ''failed'', ''cancelled''])"

definition upgrade_0001 :: "op list" where
  "upgrade_0001 =
     [CreateEnum (fst JOB_TYPE) (snd JOB_TYPE), CreateEnum (fst JOB_STATUS) (snd JOB_STATUS),
      CreateTable ''jobs''
        [required_column ''id'' PG_UUID (Some (SqlFunc ''gen_random_uuid()'')),
         required_column ''type'' (PG_ENUM ''job_type'') None, required_column ''payload'' PG_JSONB None,
         required_column ''status'' (PG_ENUM ''job_status'') None, nullable_column ''result'' PG_JSONB,
         nullable_column ''error'' PG_JSONB, required_column ''created_at'' PG_TIMESTAMPTZ (Some (SqlFunc ''now()'')),
         nullable_column ''started_at'' PG_TIMESTAMPTZ, nullable_column ''completed_at'' PG_TIMESTAMPTZ] ''id'',
      CreateIndex (plain_index ''ix_jobs_status'' ''jobs'' [''status'']),
      CreateIndex (plain_index ''ix_jobs_type'' ''jobs'' [''type'']),
      CreateIndex (plain_index ''ix_jobs_created_at_id'' ''jobs'' [''created_at'', ''id''])]"

definition downgrade_0001 :: "op list" where
  "downgrade_0001 =
     [DropIndex ''ix_jobs_created_at_id'', DropIndex ''ix_jobs_type'', DropIndex ''ix_jobs_status'', DropTable ''jobs'',
      DropEnum (fst JOB_STATUS), DropEnum (fst JOB_TYPE)]"

definition unsynced_index :: pg_index where
  "unsynced_index = \<lparr>ix_name = ''ix_jobs_unsynced'', ix_table = ''jobs'', ix_columns = [''created_at'', ''id''],
     ix_unique = False, ix_where = Some UnsyncedWaiting\<rparr>"

definition upgrade_0002 :: "op list" where
  "upgrade_0002 =
     [AddColumn ''jobs'' (nullable_column ''scheduled_at'' PG_TIMESTAMPTZ),
      AddColumn ''jobs'' (required_column ''is_synced_to_redis'' PG_BOOLEAN (Some (Literal (VBool False)))),
      UpdateAll ''jobs'' ''is_synced_to_redis'' (VBool True), CreateIndex unsynced_index]"

definition downgrade_0002 :: "op list" where
  "downgrade_0002 =
     [DropIndex ''ix_jobs_unsynced'', DropColumn ''jobs'' ''is_synced_to_redis'', DropColumn ''jobs'' ''scheduled_at'']"

definition JOB_PRIORITY :: "string \<times> string list" where
  "JOB_PRIORITY = (''job_priority'', [''high'', ''normal'', ''low''])"

definition upgrade_0003 :: "op list" where
  "upgrade_0003 =
     [CreateEnum (fst JOB_PRIORITY) (snd JOB_PRIORITY),
      AddColumn ''jobs'' (required_column ''priority'' (PG_ENUM ''job_priority'') (Some (Literal (VText ''normal'')))),
      CreateIndex (plain_index ''ix_jobs_priority'' ''jobs'' [''priority''])]"

definition downgrade_0003 :: "op list" where
  "downgrade_0003 = [DropIndex ''ix_jobs_priority'', DropColumn ''jobs'' ''priority'', DropEnum (fst JOB_PRIORITY)]"

definition upgrade_0004 :: "op list" where
  "upgrade_0004 =
     [AddColumn ''jobs'' (required_column ''attempts'' PG_INTEGER (Some (Literal (VInt 0)))),
      AddColumn ''jobs'' (required_column ''max_attempts'' PG_INTEGER (Some (Literal (VInt 4))))]"

definition downgrade_0004 :: "op list" where
  "downgrade_0004 = [DropColumn ''jobs'' ''max_attempts'', DropColumn ''jobs'' ''attempts'']"

definition key_index :: pg_index where
  "key_index = \<lparr>ix_name = ''uq_jobs_idempotency_key'', ix_table = ''jobs'', ix_columns = [''idempotency_key''],
     ix_unique = True, ix_where = Some (IsNotNull ''idempotency_key'')\<rparr>"

definition upgrade_0005 :: "op list" where
  "upgrade_0005 =
     [AddColumn ''jobs'' (nullable_column ''progress'' PG_INTEGER),
      AddColumn ''jobs'' (nullable_column ''cancel_requested_at'' PG_TIMESTAMPTZ),
      AddColumn ''jobs'' (nullable_column ''idempotency_key'' PG_TEXT),
      AddColumn ''jobs'' (nullable_column ''idempotency_hash'' PG_TEXT),
      AddEnumValue ''job_type'' ''batch'', CreateIndex key_index]"

definition downgrade_0005 :: "op list" where
  "downgrade_0005 =
     [DropIndex ''uq_jobs_idempotency_key'', DropColumn ''jobs'' ''idempotency_hash'', DropColumn ''jobs'' ''idempotency_key'',
      DropColumn ''jobs'' ''cancel_requested_at'', DropColumn ''jobs'' ''progress'']"

definition upgrade_0006 :: "op list" where
  "upgrade_0006 = [CreateIndex (plain_index ''ix_jobs_status_created_at'' ''jobs'' [''status'', ''created_at''])]"

definition downgrade_0006 :: "op list" where
  "downgrade_0006 = [DropIndex ''ix_jobs_status_created_at'']"

definition upgrade_0007 :: "op list" where
  "upgrade_0007 = [AddColumn ''jobs'' (nullable_column ''trace_context'' PG_JSONB)]"

definition downgrade_0007 :: "op list" where
  "downgrade_0007 = [DropColumn ''jobs'' ''trace_context'']"

text \<open>The \<open>users\<close> table of revision 0008, which 0009 drops and its downgrade creates again.\<close>

definition create_users :: "op list" where
  "create_users =
     [CreateTable ''users'' [required_column ''id'' PG_UUID None, required_column ''name'' PG_TEXT None,
        required_column ''key_hash'' PG_TEXT None, required_column ''created_at'' PG_TIMESTAMPTZ (Some (SqlFunc ''now()''))] ''id'',
      CreateIndex \<lparr>ix_name = ''uq_users_name'', ix_table = ''users'', ix_columns = [''name''], ix_unique = True, ix_where = None\<rparr>,
      CreateIndex \<lparr>ix_name = ''uq_users_key_hash'', ix_table = ''users'', ix_columns = [''key_hash''], ix_unique = True, ix_where = None\<rparr>]"

definition user_key :: foreign_key where
  "user_key = \<lparr>fk_name = ''fk_jobs_user_id_users'', fk_table = ''jobs'', fk_target = ''users'', fk_column = ''user_id'', fk_target_column = ''id''\<rparr>"

definition user_key_index :: pg_index where
  "user_key_index = \<lparr>ix_name = ''uq_jobs_user_idempotency_key'', ix_table = ''jobs'', ix_columns = [''user_id'', ''idempotency_key''],
     ix_unique = True, ix_where = Some (IsNotNull ''idempotency_key'')\<rparr>"

definition upgrade_0008 :: "op list" where
  "upgrade_0008 = create_users @
     [AddColumn ''jobs'' (nullable_column ''user_id'' PG_UUID), CreateForeignKey user_key,
      CreateIndex (plain_index ''ix_jobs_user_id_created_at_id'' ''jobs'' [''user_id'', ''created_at'', ''id'']),
      DropIndex ''uq_jobs_idempotency_key'', CreateIndex user_key_index]"

definition downgrade_0008 :: "op list" where
  "downgrade_0008 =
     [DropIndex ''uq_jobs_user_idempotency_key'', CreateIndex key_index, DropIndex ''ix_jobs_user_id_created_at_id'',
      DropConstraint ''fk_jobs_user_id_users'', DropColumn ''jobs'' ''user_id'', DropIndex ''uq_users_key_hash'',
      DropIndex ''uq_users_name'', DropTable ''users'']"

definition upgrade_0009 :: "op list" where
  "upgrade_0009 =
     [AddColumn ''jobs'' (nullable_column ''user_name'' PG_TEXT), DropConstraint ''fk_jobs_user_id_users'',
      DropIndex ''uq_users_key_hash'', DropIndex ''uq_users_name'', DropTable ''users'']"

definition downgrade_0009 :: "op list" where
  "downgrade_0009 = create_users @
     [UpdateAll ''jobs'' ''user_id'' VNull, CreateForeignKey user_key, DropColumn ''jobs'' ''user_name'']"

text \<open>The chain of revisions, each after the one it names in \<open>down_revision\<close>.\<close>

definition upgrades :: "op list" where
  "upgrades = upgrade_0002 @ upgrade_0003 @ upgrade_0004 @ upgrade_0005 @ upgrade_0006 @ upgrade_0007 @ upgrade_0008 @ upgrade_0009"

definition downgrades :: "op list" where
  "downgrades = downgrade_0009 @ downgrade_0008 @ downgrade_0007 @ downgrade_0006 @ downgrade_0005 @ downgrade_0004
     @ downgrade_0003 @ downgrade_0002"

section \<open>The declared table\<close>

text \<open>The columns and indexes of \<open>Job\<close>: name, type and nullability; \<open>index=True\<close> names its index \<open>ix_jobs_<column>\<close>.\<close>

definition Job_columns :: "(string \<times> pg_type \<times> bool) list" where
  "Job_columns =
     [(''id'', PG_UUID, False), (''user_id'', PG_UUID, True), (''user_name'', PG_TEXT, True), (''type'', PG_ENUM ''job_type'', False),
      (''payload'', PG_JSONB, False), (''status'', PG_ENUM ''job_status'', False), (''priority'', PG_ENUM ''job_priority'', False),
      (''result'', PG_JSONB, True), (''error'', PG_JSONB, True), (''attempts'', PG_INTEGER, False), (''max_attempts'', PG_INTEGER, False),
      (''created_at'', PG_TIMESTAMPTZ, False), (''started_at'', PG_TIMESTAMPTZ, True), (''completed_at'', PG_TIMESTAMPTZ, True),
      (''scheduled_at'', PG_TIMESTAMPTZ, True), (''is_synced_to_redis'', PG_BOOLEAN, False), (''progress'', PG_INTEGER, True),
      (''cancel_requested_at'', PG_TIMESTAMPTZ, True), (''idempotency_key'', PG_TEXT, True), (''idempotency_hash'', PG_TEXT, True),
      (''trace_context'', PG_JSONB, True)]"

definition Job_indexes :: "pg_index list" where
  "Job_indexes =
     [user_key_index, plain_index ''ix_jobs_status_created_at'' ''jobs'' [''status'', ''created_at''],
      plain_index ''ix_jobs_user_id_created_at_id'' ''jobs'' [''user_id'', ''created_at'', ''id''],
      plain_index ''ix_jobs_status'' ''jobs'' [''status''], plain_index ''ix_jobs_priority'' ''jobs'' [''priority'']]"

section \<open>The revisions with their rows\<close>

definition empty_database :: database where
  "empty_database = \<lparr>enums = [], tables = [], indexes = [], foreign_keys = []\<rparr>"

definition columns_0001 :: "column list" where
  "columns_0001 =
     [required_column ''id'' PG_UUID (Some (SqlFunc ''gen_random_uuid()'')),
      required_column ''type'' (PG_ENUM ''job_type'') None, required_column ''payload'' PG_JSONB None,
      required_column ''status'' (PG_ENUM ''job_status'') None, nullable_column ''result'' PG_JSONB,
      nullable_column ''error'' PG_JSONB, required_column ''created_at'' PG_TIMESTAMPTZ (Some (SqlFunc ''now()'')),
      nullable_column ''started_at'' PG_TIMESTAMPTZ, nullable_column ''completed_at'' PG_TIMESTAMPTZ]"

definition indexes_0001 :: "pg_index list" where
  "indexes_0001 = [plain_index ''ix_jobs_status'' ''jobs'' [''status''], plain_index ''ix_jobs_type'' ''jobs'' [''type''],
     plain_index ''ix_jobs_created_at_id'' ''jobs'' [''created_at'', ''id'']]"

text \<open>Revision 0001 holding some rows; the labels of \<open>job_type\<close> are an argument.\<close>

definition rev_0001 :: "string list \<Rightarrow> row list \<Rightarrow> database" where
  "rev_0001 types R = \<lparr>enums = [(''job_type'', types), JOB_STATUS],
     tables = [(''jobs'', \<lparr>columns = columns_0001, primary_key = ''id'', rows = R\<rparr>)],
     indexes = indexes_0001, foreign_keys = []\<rparr>"

definition columns_0005 :: "column list" where
  "columns_0005 = columns_0001 @
     [nullable_column ''scheduled_at'' PG_TIMESTAMPTZ,
      required_column ''is_synced_to_redis'' PG_BOOLEAN (Some (Literal (VBool False))),
      required_column ''priority'' (PG_ENUM ''job_priority'') (Some (Literal (VText ''normal''))),
      required_column ''attempts'' PG_INTEGER (Some (Literal (VInt 0))),
      required_column ''max_attempts'' PG_INTEGER (Some (Literal (VInt 4))),
      nullable_column ''progress'' PG_INTEGER, nullable_column ''cancel_requested_at'' PG_TIMESTAMPTZ,
      nullable_column ''idempotency_key'' PG_TEXT, nullable_column ''idempotency_hash'' PG_TEXT]"

definition rev_0005 :: "row list \<Rightarrow> database" where
  "rev_0005 R = \<lparr>enums = [(''job_type'', [''email'', ''webhook'', ''report'', ''batch'']), JOB_STATUS, JOB_PRIORITY],
     tables = [(''jobs'', \<lparr>columns = columns_0005, primary_key = ''id'', rows = R\<rparr>)],
     indexes = indexes_0001 @ [unsynced_index, plain_index ''ix_jobs_priority'' ''jobs'' [''priority''], key_index],
     foreign_keys = []\<rparr>"

definition head_columns :: "column list" where
  "head_columns = columns_0005 @
     [nullable_column ''trace_context'' PG_JSONB, nullable_column ''user_id'' PG_UUID, nullable_column ''user_name'' PG_TEXT]"

definition head :: "row list \<Rightarrow> database" where
  "head R = \<lparr>enums = [(''job_type'', [''email'', ''webhook'', ''report'', ''batch'']), JOB_STATUS, JOB_PRIORITY],
     tables = [(''jobs'', \<lparr>columns = head_columns, primary_key = ''id'', rows = R\<rparr>)],
     indexes = indexes_0001 @ [unsynced_index, plain_index ''ix_jobs_priority'' ''jobs'' [''priority''],
       plain_index ''ix_jobs_status_created_at'' ''jobs'' [''status'', ''created_at''],
       plain_index ''ix_jobs_user_id_created_at_id'' ''jobs'' [''user_id'', ''created_at'', ''id''], user_key_index],
     foreign_keys = []\<rparr>"

text \<open>What the chain makes of a row.\<close>

definition upgraded_0005 :: "row \<Rightarrow> row" where
  "upgraded_0005 r = r(''scheduled_at'' := VNull, ''is_synced_to_redis'' := VBool True, ''priority'' := VText ''normal'',
     ''attempts'' := VInt 0, ''max_attempts'' := VInt 4, ''progress'' := VNull, ''cancel_requested_at'' := VNull,
     ''idempotency_key'' := VNull, ''idempotency_hash'' := VNull)"

definition upgraded :: "row \<Rightarrow> row" where
  "upgraded r = (upgraded_0005 r)(''trace_context'' := VNull, ''user_id'' := VNull, ''user_name'' := VNull)"

lemmas upgraded_defs = upgraded_def upgraded_0005_def

lemma run_ops_append: "run_ops (xs @ ys) d = (case run_ops xs d of Inl e \<Rightarrow> Inl e | Inr d' \<Rightarrow> run_ops ys d')"
  by (induction xs arbitrary: d) (auto split: sum.splits)

lemma index_keys_Nil [simp]: "index_keys ix [] = []"
  by (simp add: index_keys_def)

lemmas schema_defs = plain_index_def nullable_column_def required_column_def JOB_TYPE_def JOB_STATUS_def
  JOB_PRIORITY_def unsynced_index_def key_index_def user_key_def user_key_index_def create_users_def
  columns_0001_def indexes_0001_def enum_known_def default_value_def uses_enum_def where_columns_def

lemma first_revision: "run_ops upgrade_0001 empty_database = Inr (rev_0001 (snd JOB_TYPE) [])"
  by (simp add: upgrade_0001_def empty_database_def rev_0001_def schema_defs)

lemma upgrade_to_0005:
  "run_ops (upgrade_0002 @ upgrade_0003 @ upgrade_0004 @ upgrade_0005) (rev_0001 (snd JOB_TYPE) R)
     = Inr (rev_0005 (map upgraded_0005 R))"
  by (simp add: upgrade_0002_def upgrade_0003_def upgrade_0004_def upgrade_0005_def rev_0001_def schema_defs
      index_keys_def where_holds_def filter_map comp_def rev_0005_def columns_0005_def upgraded_0005_def)

lemma upgrade_to_head:
  "run_ops (upgrade_0006 @ upgrade_0007 @ upgrade_0008 @ upgrade_0009) (rev_0005 R) =
     (if distinct (index_keys user_key_index (map (\<lambda>r. r(''trace_context'' := VNull, ''user_id'' := VNull)) R))
      then Inr (head (map (\<lambda>r. r(''trace_context'' := VNull, ''user_id'' := VNull, ''user_name'' := VNull)) R))
      else Inl (UniqueViolation ''uq_jobs_user_idempotency_key''))"
  by (simp add: upgrade_0006_def upgrade_0007_def upgrade_0008_def upgrade_0009_def rev_0005_def schema_defs
      comp_def list_all_iff head_def head_columns_def columns_0005_def dict_del_def)

lemma upgrade_chain: "run_ops upgrades (rev_0001 (snd JOB_TYPE) R) = Inr (head (map upgraded R))"
proof -
  have "index_keys user_key_index (map (\<lambda>r. r(''trace_context'' := VNull, ''user_id'' := VNull)) (map upgraded_0005 R)) = []"
    by (auto simp: index_keys_def user_key_index_def where_holds_def filter_empty_conv)
  moreover have "run_ops upgrades d = (case run_ops (upgrade_0002 @ upgrade_0003 @ upgrade_0004 @ upgrade_0005) d of
      Inl e \<Rightarrow> Inl e | Inr d' \<Rightarrow> run_ops (upgrade_0006 @ upgrade_0007 @ upgrade_0008 @ upgrade_0009) d')" for d
    unfolding run_ops_append [symmetric] by (simp add: upgrades_def)
  ultimately show ?thesis by (simp add: upgrade_to_0005 upgrade_to_head upgraded_def [abs_def] comp_def)
qed

text \<open>And what the way back makes of one: the columns added since are gone.\<close>

definition downgraded :: "row \<Rightarrow> row" where
  "downgraded r = r(''user_name'' := VNull, ''user_id'' := VNull, ''trace_context'' := VNull, ''idempotency_hash'' := VNull,
     ''idempotency_key'' := VNull, ''cancel_requested_at'' := VNull, ''progress'' := VNull, ''max_attempts'' := VNull,
     ''attempts'' := VNull, ''priority'' := VNull, ''is_synced_to_redis'' := VNull, ''scheduled_at'' := VNull)"

definition shared_keys :: "row list \<Rightarrow> bool" where
  "shared_keys R \<longleftrightarrow> \<not> distinct (filter (\<lambda>v. v \<noteq> VNull) (map (\<lambda>r. r ''idempotency_key'') R))"

lemma key_index_keys:
  "distinct (index_keys key_index (map (\<lambda>r. r(''user_id'' := VNull, ''user_name'' := VNull)) R)) \<longleftrightarrow> \<not> shared_keys R"
proof -
  have "index_keys key_index (map (\<lambda>r. r(''user_id'' := VNull, ''user_name'' := VNull)) R)
      = map (\<lambda>v. [v]) (filter (\<lambda>v. v \<noteq> VNull) (map (\<lambda>r. r ''idempotency_key'') R))"
    by (induction R) (auto simp: index_keys_def key_index_def where_holds_def)
  then show ?thesis by (simp add: shared_keys_def distinct_map inj_on_def)
qed

lemma downgrade_to_0005:
  "run_ops (downgrade_0009 @ downgrade_0008 @ downgrade_0007 @ downgrade_0006) (head R) =
     (if shared_keys R then Inl (UniqueViolation ''uq_jobs_idempotency_key'')
      else Inr (rev_0005 (map (\<lambda>r. r(''user_name'' := VNull, ''user_id'' := VNull, ''trace_context'' := VNull)) R)))"
proof -
  note k = key_index_keys [of R, unfolded key_index_def]
  show ?thesis
    by (simp add: downgrade_0006_def downgrade_0007_def downgrade_0008_def downgrade_0009_def schema_defs k
      comp_def list_all_iff head_def head_columns_def columns_0005_def rev_0005_def dict_del_def)
qed

lemma downgrade_to_0001:
  "run_ops (downgrade_0005 @ downgrade_0004 @ downgrade_0003 @ downgrade_0002) (rev_0005 R) =
     Inr (rev_0001 [''email'', ''webhook'', ''report'', ''batch'']
       (map (\<lambda>r. r(''idempotency_hash'' := VNull, ''idempotency_key'' := VNull, ''cancel_requested_at'' := VNull,
         ''progress'' := VNull, ''max_attempts'' := VNull, ''attempts'' := VNull, ''priority'' := VNull,
         ''is_synced_to_redis'' := VNull, ''scheduled_at'' := VNull)) R))"
  by (simp add: downgrade_0002_def downgrade_0003_def downgrade_0004_def downgrade_0005_def rev_0001_def schema_defs
      comp_def rev_0005_def columns_0005_def dict_del_def)

lemma downgrade_chain:
  "run_ops downgrades (head R) = (if shared_keys R then Inl (UniqueViolation ''uq_jobs_idempotency_key'')
     else Inr (rev_0001 [''email'', ''webhook'', ''report'', ''batch''] (map downgraded R)))"
proof -
  have "run_ops downgrades d = (case run_ops (downgrade_0009 @ downgrade_0008 @ downgrade_0007 @ downgrade_0006) d of
      Inl e \<Rightarrow> Inl e | Inr d' \<Rightarrow> run_ops (downgrade_0005 @ downgrade_0004 @ downgrade_0003 @ downgrade_0002) d')" for d
    unfolding run_ops_append [symmetric] by (simp add: downgrades_def)
  then show ?thesis by (simp add: downgrade_to_0005 downgrade_to_0001 comp_def downgraded_def [abs_def])
qed

section \<open>Properties\<close>

text \<open>
  C36 (migrations_reach_model). The migrations run through: from an empty database, and from a database of
  the first revision with any jobs in it, they end without an error. No job is lost or changed in what it
  had; jobs from before the sync flag count as handed over, and all get normal priority, no attempts of
  four and no owner. The table then has exactly the columns \<open>Job\<close> declares, with their types and
  nullability, the labels of the three enumerations, and every index \<open>Job\<close> declares.
\<close>

theorem migrations_reach_model:
  "run_ops (upgrade_0001 @ upgrades) empty_database = Inr (head [])
   \<and> run_ops upgrades (rev_0001 (snd JOB_TYPE) R) = Inr (head (map upgraded R))
   \<and> map (upgraded r \<circ> col_name) columns_0001 = map (r \<circ> col_name) columns_0001
   \<and> set (map (\<lambda>c. (col_name c, col_type c, nullable c)) head_columns) = set Job_columns
   \<and> enums (head R) = [(''job_type'', map JobType_value all_JobType), (''job_status'', map JobStatus_value all_JobStatus),
        (''job_priority'', map JobPriority_value all_JobPriority)]
   \<and> set Job_indexes \<subseteq> set (indexes (head R))"
proof (intro conjI)
  show "run_ops (upgrade_0001 @ upgrades) empty_database = Inr (head [])"
    using upgrade_chain [of "[]"] by (simp add: run_ops_append first_revision)
  show "map (upgraded r \<circ> col_name) columns_0001 = map (r \<circ> col_name) columns_0001"
    by (simp add: columns_0001_def nullable_column_def required_column_def upgraded_defs)
  show "set (map (\<lambda>c. (col_name c, col_type c, nullable c)) head_columns) = set Job_columns"
    by (auto simp: head_columns_def columns_0005_def columns_0001_def nullable_column_def required_column_def Job_columns_def)
  show "enums (head R) = [(''job_type'', map JobType_value all_JobType), (''job_status'', map JobStatus_value all_JobStatus),
        (''job_priority'', map JobPriority_value all_JobPriority)]"
    by (simp add: head_def JOB_STATUS_def JOB_PRIORITY_def all_JobType_def all_JobStatus_def all_JobPriority_def)
  show "set Job_indexes \<subseteq> set (indexes (head R))"
    by (simp add: Job_indexes_def head_def indexes_0001_def)
qed (rule upgrade_chain)

text \<open>A row of the first revision: nothing outside its columns.\<close>

definition row_0001 :: "row \<Rightarrow> bool" where
  "row_0001 r \<longleftrightarrow> (\<forall>c. c \<notin> col_name ` set columns_0001 \<longrightarrow> r c = VNull)"

lemma round_trip_row:
  assumes "row_0001 r"
  shows "downgraded (upgraded r) = r"
proof -
  have "r c = VNull" if "c \<notin> col_name ` set columns_0001" for c using assms that by (simp add: row_0001_def)
  note null = this [unfolded columns_0001_def nullable_column_def required_column_def, simplified]
  show ?thesis by (auto simp: downgraded_def upgraded_defs fun_eq_iff null)
qed

text \<open>
  C37 (migrations_round_trip). Going down from the head to the first revision fails, by the unique index
  that revision 0005 puts on the key alone, exactly when two jobs carry the same idempotency key, which
  the head allows for different users; otherwise it ends. Going up from the first revision and down again
  gives back the same database with the same jobs, but for the label \<open>batch\<close> that stays in the type.
\<close>

theorem migrations_round_trip:
  assumes "\<forall>r \<in> set R. row_0001 r"
  shows "run_ops (upgrades @ downgrades) (rev_0001 (snd JOB_TYPE) R) = Inr (rev_0001 (snd JOB_TYPE @ [''batch'']) R)
   \<and> ((\<exists>e. run_ops downgrades (head Q) = Inl e) \<longleftrightarrow> shared_keys Q)"
proof -
  have "filter (\<lambda>v. v \<noteq> VNull) (map (\<lambda>r. r ''idempotency_key'') (map upgraded R)) = []"
    by (simp add: filter_empty_conv upgraded_defs)
  then have "\<not> shared_keys (map upgraded R)" unfolding shared_keys_def by simp
  moreover have "map downgraded (map upgraded R) = R"
    using assms by (simp add: round_trip_row map_idI)
  ultimately show ?thesis
    unfolding run_ops_append upgrade_chain sum.case downgrade_chain by (auto simp: JOB_TYPE_def)
qed

text \<open>One old job survives the round trip; two users with one key stop the way down.\<close>

theorem migrations_round_trip_witness:
  "run_ops (upgrades @ downgrades) (rev_0001 (snd JOB_TYPE) [(\<lambda>_. VNull)(''status'' := VText ''completed'')])
     = Inr (rev_0001 (snd JOB_TYPE @ [''batch'']) [(\<lambda>_. VNull)(''status'' := VText ''completed'')])
   \<and> (\<exists>e. run_ops downgrades (head [(\<lambda>_. VNull)(''user_id'' := VText ''a'', ''idempotency_key'' := VText ''k''),
          (\<lambda>_. VNull)(''user_id'' := VText ''b'', ''idempotency_key'' := VText ''k'')]) = Inl e)"
  using migrations_round_trip [of "[(\<lambda>_. VNull)(''status'' := VText ''completed'')]"
      "[(\<lambda>_. VNull)(''user_id'' := VText ''a'', ''idempotency_key'' := VText ''k''),
        (\<lambda>_. VNull)(''user_id'' := VText ''b'', ''idempotency_key'' := VText ''k'')]"]
  by (simp add: row_0001_def columns_0001_def nullable_column_def required_column_def shared_keys_def)

end
