(* ===== verification/Revisions.thy ===== *)
theory Revisions
  imports Migrations
begin

text \<open>
  The graph of the migrations: what each file of \<open>alembic/versions\<close> says about its revision and the one below it,
  and the order in which alembic runs them, which it finds by following \<open>down_revision\<close> from the head.
\<close>

section \<open>The files\<close>

record revision_file =
  revision :: string
  down_revision :: "string option"
  branch_labels :: "string list"
  depends_on :: "string list"
  upgrade :: "op list"
  downgrade :: "op list"

definition revision_0001 :: revision_file where
  "revision_0001 = \<lparr>revision = ''0001'', down_revision = None, branch_labels = [], depends_on = [],
     upgrade = upgrade_0001, downgrade = downgrade_0001\<rparr>"

definition revision_0002 :: revision_file where
  "revision_0002 = \<lparr>revision = ''0002'', down_revision = Some ''0001'', branch_labels = [], depends_on = [],
     upgrade = upgrade_0002, downgrade = downgrade_0002\<rparr>"

definition revision_0003 :: revision_file where
  "revision_0003 = \<lparr>revision = ''0003'', down_revision = Some ''0002'', branch_labels = [], depends_on = [],
     upgrade = upgrade_0003, downgrade = downgrade_0003\<rparr>"

definition revision_0004 :: revision_file where
  "revision_0004 = \<lparr>revision = ''0004'', down_revision = Some ''0003'', branch_labels = [], depends_on = [],
     upgrade = upgrade_0004, downgrade = downgrade_0004\<rparr>"

definition revision_0005 :: revision_file where
  "revision_0005 = \<lparr>revision = ''0005'', down_revision = Some ''0004'', branch_labels = [], depends_on = [],
     upgrade = upgrade_0005, downgrade = downgrade_0005\<rparr>"

definition revision_0006 :: revision_file where
  "revision_0006 = \<lparr>revision = ''0006'', down_revision = Some ''0005'', branch_labels = [], depends_on = [],
     upgrade = upgrade_0006, downgrade = downgrade_0006\<rparr>"

definition revision_0007 :: revision_file where
  "revision_0007 = \<lparr>revision = ''0007'', down_revision = Some ''0006'', branch_labels = [], depends_on = [],
     upgrade = upgrade_0007, downgrade = downgrade_0007\<rparr>"

definition revision_0008 :: revision_file where
  "revision_0008 = \<lparr>revision = ''0008'', down_revision = Some ''0007'', branch_labels = [], depends_on = [],
     upgrade = upgrade_0008, downgrade = downgrade_0008\<rparr>"

definition revision_0009 :: revision_file where
  "revision_0009 = \<lparr>revision = ''0009'', down_revision = Some ''0008'', branch_labels = [], depends_on = [],
     upgrade = upgrade_0009, downgrade = downgrade_0009\<rparr>"

definition versions :: "revision_file list" where
  "versions = [revision_0001, revision_0002, revision_0003, revision_0004, revision_0005, revision_0006, revision_0007,
     revision_0008, revision_0009]"

section \<open>The order\<close>

text \<open>
  The heads are the revisions that none names as the one below; the lineage of a revision is the way up to it from
  the base, or nothing when a name does not resolve or the way does not end within the given number of revisions.
\<close>

definition heads :: "revision_file list \<Rightarrow> string list" where
  "heads files = map revision (filter (\<lambda>f. \<not> list_ex (\<lambda>g. down_revision g = Some (revision f)) files) files)"

fun lineage :: "nat \<Rightarrow> revision_file list \<Rightarrow> string \<Rightarrow> revision_file list option" where
  "lineage 0 files i = None"
| "lineage (Suc n) files i = (case find (\<lambda>f. revision f = i) files of
     None \<Rightarrow> None
   | Some f \<Rightarrow> (case down_revision f of
       None \<Rightarrow> Some [f]
     | Some d \<Rightarrow> map_option (\<lambda>fs. fs @ [f]) (lineage n files d)))"

lemmas version_defs = versions_def revision_0001_def revision_0002_def revision_0003_def revision_0004_def
  revision_0005_def revision_0006_def revision_0007_def revision_0008_def revision_0009_def

text \<open>A file is found by its revision, in whatever order the directory lists them.\<close>

lemma find_by_key:
  assumes "inj_on k (set xs)" and "x \<in> set xs"
  shows "find (\<lambda>y. k y = k x) xs = Some x"
  using assms by (induction xs) (auto dest: inj_onD)

lemma found:
  assumes "set files = set versions" and "f \<in> set versions" and "revision f = i"
  shows "find (\<lambda>g. revision g = i) files = Some f"
proof -
  have "inj_on revision (set files)" unfolding assms(1) by (auto simp: inj_on_def version_defs)
  then show ?thesis using find_by_key assms by metis
qed

lemma below:
  "down_revision revision_0001 = None"
  "down_revision revision_0002 = Some ''0001''"
  "down_revision revision_0003 = Some ''0002''"
  "down_revision revision_0004 = Some ''0003''"
  "down_revision revision_0005 = Some ''0004''"
  "down_revision revision_0006 = Some ''0005''"
  "down_revision revision_0007 = Some ''0006''"
  "down_revision revision_0008 = Some ''0007''"
  "down_revision revision_0009 = Some ''0008''"
  by (simp_all add: version_defs)

text \<open>
  However the directory lists the files, there is one head, the way up to it runs through all nine revisions in
  order, and with the upgrades along it alembic brings an empty database to the table of the model.
\<close>

lemma upgrade_head:
  assumes "set files = set versions" and "distinct files"
  shows "heads files = [''0009'']" and "lineage 9 files ''0009'' = Some versions"
    and "run_ops (concat (map upgrade versions)) empty_database = Inr (head [])"
proof -
  have "{f \<in> set files. \<not> list_ex (\<lambda>g. down_revision g = Some (revision f)) files} = {revision_0009}"
    unfolding list_ex_iff assms(1) by (auto simp: version_defs)
  then have "filter (\<lambda>f. \<not> list_ex (\<lambda>g. down_revision g = Some (revision f)) files) files = [revision_0009]"
    using assms(2) by (intro distinct_singleton) auto
  then show "heads files = [''0009'']" by (simp add: heads_def revision_0009_def)
  have finds: "find (\<lambda>g. revision g = ''0001'') files = Some revision_0001"
    "find (\<lambda>g. revision g = ''0002'') files = Some revision_0002"
    "find (\<lambda>g. revision g = ''0003'') files = Some revision_0003"
    "find (\<lambda>g. revision g = ''0004'') files = Some revision_0004"
    "find (\<lambda>g. revision g = ''0005'') files = Some revision_0005"
    "find (\<lambda>g. revision g = ''0006'') files = Some revision_0006"
    "find (\<lambda>g. revision g = ''0007'') files = Some revision_0007"
    "find (\<lambda>g. revision g = ''0008'') files = Some revision_0008"
    "find (\<lambda>g. revision g = ''0009'') files = Some revision_0009"
    by (rule found [OF assms(1)]; simp add: version_defs)+
  show "lineage 9 files ''0009'' = Some versions"
    by (simp add: eval_nat_numeral finds below versions_def)
  show "run_ops (concat (map upgrade versions)) empty_database = Inr (head [])"
    using upgrade_chain [of "[]"] by (simp add: version_defs run_ops_append first_revision upgrades_def)
qed

end
