(* ===== verification/Spec2Isabelle.thy ===== *)
theory Spec2Isabelle
  imports Handoff Listing Slots Middleware Ratelimit Processes Metrics Races Revisions
begin

text \<open>
  A verification of the job processor under \<open>src/app\<close>: an API that accepts jobs, workers that execute
  them, and a ticker that repairs what crashes leave behind, around one PostgreSQL table and a few Redis
  streams.

  \<^bold>\<open>How the program is put together.\<close> A row of the table \<open>jobs\<close> is the truth about a job; Redis only carries
  its identifier to a worker. \<open>api/routes.py\<close> creates rows, hands them to a stream or to the delayed set and
  marks them as handed over; \<open>worker/runner.py\<close> reads the streams by priority, claims the row, runs the
  handler of \<open>jobs/\<close> under a deadline, writes the outcome and acknowledges the message, or retries by
  \<open>retry.py\<close>; \<open>ticker/runner.py\<close> promotes due jobs, hands unmarked rows over again and reclaims the messages
  of lost workers. Every change of a row is one guarded \<open>UPDATE\<close> of \<open>repository.py\<close>, and it is these guards
  that make any number of processes safe together.

  \<^bold>\<open>The servers.\<close> PostgreSQL, Redis, the trace propagator, the token-review API, SHA-256, the clock-to-text
  conversions and the parsers of pydantic are not part of the repository. They are arguments of the
  definitions: records of operations (\<open>services\<close>, \<open>auth_ops\<close>, \<open>text_ops\<close>, \<open>schema_ops\<close>, \<open>info_ops\<close>,
  \<open>limiter_ops\<close>). What the code relies on are the laws of the locales \<open>postgres\<close>, \<open>redis_server\<close>, \<open>backend\<close>,
  \<open>info_server\<close>, \<open>window_limiter\<close> and the predicate \<open>text_codec\<close>; \<open>Reference_Backend\<close> and the \<open>ref_\<close>
  definitions of the later theories are executable instances that satisfy all of them.

  \<^bold>\<open>Running and interleaving.\<close> A coroutine is a program of the state monad over a \<open>world\<close> (\<open>Runtime\<close>): the
  state of both servers and the clock, a script of what other processes do before each atomic step, and
  a trace of the steps made. A theorem about \<open>guarantees\<close> or \<open>emits\<close> holds for every script, hence under
  every interleaving and for every point of a crash; a theorem with \<open>quiet\<close> describes an undisturbed call
  and is proved with the weakest-precondition rules \<open>wp_intros\<close>. Floating-point seconds are microseconds,
  except for the progress of a batch, which is computed in double arithmetic as the code does it.

  \<^bold>\<open>The theories and their sources.\<close>
  \<^item> \<open>Prelude\<close>: Python errors, indexing, dictionaries, loops; the collections of facts.
  \<^item> \<open>Uuid\<close>: the text form of identifiers and \<open>UUID(...)\<close>, with their round trip.
  \<^item> \<open>Job_Model\<close> (\<open>schemas/enums.py\<close>, \<open>models/job.py\<close>), \<open>Config\<close> (\<open>core/config.py\<close>).
  \<^item> \<open>Services\<close>, \<open>Runtime\<close>, \<open>Reference_Backend\<close>: the servers, the execution model, an executable instance.
  \<^item> \<open>Lifecycle\<close>: the abstract specification. \<open>row_step\<close> lists the twelve changes a row may undergo,
    \<open>table_step\<close> lifts them to tables; counting lemmas relate claims, attempts and cancellations, and
    \<open>well_formed\<close> says which columns are set in which status.
  \<^item> \<open>Repository\<close> (\<open>repository.py\<close>): one definition per statement; the locale \<open>guarded_transition\<close> is their
    common contract and is interpreted once per statement.
  \<^item> \<open>Queue\<close> (\<open>queue/\<close>), \<open>Retry\<close> (\<open>retry.py\<close>), \<open>Idempotency\<close> (\<open>idempotency.py\<close>), \<open>Payloads\<close>
    (\<open>schemas/payloads.py\<close>), \<open>Handlers\<close> (\<open>jobs/\<close>, \<open>worker/context.py\<close>, \<open>worker/timeout.py\<close>).
  \<^item> \<open>Worker\<close> (\<open>worker/runner.py\<close>, \<open>worker/recycler.py\<close>) and \<open>Slots\<close> (the semaphore and the task group of its
    loop, as a state machine).
  \<^item> \<open>Ticker\<close> (\<open>ticker/runner.py\<close>), \<open>Routes\<close> (\<open>api/routes.py\<close>, \<open>schemas/api.py\<close>), \<open>Handoff\<close> (the order of hand-over
    and sync mark in all of them, through the locale \<open>trace_discipline\<close>).
  \<^item> \<open>Cursor\<close> (\<open>cursor.py\<close>) and \<open>Listing\<close> (\<open>list_jobs\<close> and its route, over the locale \<open>cursor_codec\<close>).
  \<^item> \<open>Auth\<close> (\<open>auth/\<close>, \<open>api/deps.py\<close>), \<open>Middleware\<close> (\<open>api/middleware.py\<close>), \<open>Ratelimit\<close> (\<open>api/ratelimit.py\<close>).
  \<^item> \<open>Observability\<close> (\<open>observability.py\<close>, its routes, the gauges of the ticker) and \<open>Health\<close>
    (\<open>core/healthcheck.py\<close>; the locale \<open>pace\<close> is a calculus of how long programs take).
  \<^item> \<open>Pipeline\<close> (\<open>main.py\<close>, \<open>lifespan\<close>): the start of the API, a submission and a worker's round in sequence.
    \<open>Batch\<close>: a batch job end to end against the reference \<open>batch_fate\<close>, which knows only the items.
  \<^item> \<open>Logging\<close> (\<open>core/logging.py\<close>) over the record and the logger tree of the standard library, and
    \<open>Telemetry\<close> (\<open>core/telemetry.py\<close>), in which every call of the SDK may raise.
  \<^item> \<open>Processes\<close> (\<open>worker/__main__.py\<close>, \<open>ticker/__main__.py\<close>, \<open>run_forever\<close> of both, \<open>main.py\<close>, \<open>core/db.py\<close>,
    \<open>core/redis.py\<close>): the processes from start to end; the locale \<open>resource_plan\<close> is the contract that a process
    closes what it opens, interpreted for all three. \<open>Metrics\<close> (\<open>core/metrics.py\<close>): the worker's measurements.
  \<^item> \<open>Migrations\<close> (\<open>alembic/versions\<close>): the migrations over an interpreter of alembic's operations; \<open>Revisions\<close>: their
    graph and the order in which alembic runs them.
  \<^item> \<open>Races\<close>: concrete interleavings that the code allows and that go wrong.
  \<^item> This theory: all processes together, and the properties that span them.

  \<^bold>\<open>What is shown.\<close> The whole system refines the life cycle under every interleaving; executions are
  accounted for; finished jobs stay as they are; rows stay well-formed, so that reconciliation recovers
  every job in every reachable state; a submitted job runs in the next round of an idle worker; a batch
  job ends as its items alone say; messages are acknowledged, and rows marked, only after what makes
  that safe. Every operation of the worker, the ticker and the routes is described on every
  branch for undisturbed calls, errors included. Loops end: the statements give the fuel that is enough
  (one round per orphan and one more for reconciliation; more than the number of pending entries for
  the reaper's scan; one page per row and one more for a client that follows cursors). Encodings round
  trip. Authentication, idempotency, payload policy, body size and rate limits are proved for all
  inputs. The migrations end in the table the model declares and keep every job. Log fields are scoped to
  their block, and telemetry, however its set-up fails, leaves the loggers as they were. A worker starts only
  with its health server and ends with everything it opened closed, or with an exception and exactly the
  later calls undone.

  \<^bold>\<open>What is not modelled.\<close> Spans (no influence on the modelled state, but for the propagator), the increments
  of the counters outside the worker's outcome, and at which points of the modelled coroutines a line is
  logged; the reading of the CPU gauge; \<open>schemas/results.py\<close>, which nothing uses; \<open>alembic/env.py\<close>, which
  only configures alembic; serving requests, which is FastAPI and uvicorn; network failures of a SQL
  statement or Redis command in the middle of a coroutine other than as a crash at that point (a crash
  leaves exactly a state of the trace). The tasks of one worker are interleaved like separate workers.
\<close>

section \<open>The whole system\<close>

text \<open>
  Every atomic step a program can make, in any world: whatever the other processes did before it.
\<close>

definition steps_of :: "('d, 'r, 'a) io \<Rightarrow> ('d, 'r) step set" where
  "steps_of m = {st. \<exists>w ts. trace (snd (run_state m w)) = trace w @ ts \<and> st \<in> set ts}"

text \<open>
  The processes of the deployment, interleaved: any number of workers, tickers and API requests, each
  at any point of its program, and anything that leaves the table alone (time passing, other clients
  of Redis).
\<close>

inductive app_step ::
  "('d, 'r) services \<Rightarrow> schema_ops \<Rightarrow> (string \<Rightarrow> string) \<Rightarrow> settings \<Rightarrow> ('d, 'r) shared \<Rightarrow> ('d, 'r) shared \<Rightarrow> bool"
  for S P sha cfg where
  worker: "(s, s') \<in> steps_of (worker_run_forever S P cfg consumer rounds) \<Longrightarrow> app_step S P sha cfg s s'"
| ticker: "(s, s') \<in> steps_of (ticker_run_forever n fuel S cfg) \<Longrightarrow> app_step S P sha cfg s s'"
| submit: "(s, s') \<in> steps_of (submit_job S P sha cfg new_id carrier sub user) \<Longrightarrow> app_step S P sha cfg s s'"
| show_job: "(s, s') \<in> steps_of (get_job_route S i user) \<Longrightarrow> app_step S P sha cfg s s'"
| list_page: "(s, s') \<in> steps_of (list_jobs_route S X st ty pr lim cursor user) \<Longrightarrow> app_step S P sha cfg s s'"
| retry: "(s, s') \<in> steps_of (retry_job S cfg i user) \<Longrightarrow> app_step S P sha cfg s s'"
| cancel: "(s, s') \<in> steps_of (cancel_job_route S cfg i user) \<Longrightarrow> app_step S P sha cfg s s'"
| startup: "(s, s') \<in> steps_of (lifespan S cfg) \<Longrightarrow> app_step S P sha cfg s s'"
| elsewhere: "db s' = db s \<Longrightarrow> app_step S P sha cfg s s'"

text \<open>The processes as they are started make no other steps than their loops.\<close>

lemma process_steps:
  "(s, s') \<in> steps_of (worker_process S P cfg consumer env fuel n rounds p) \<Longrightarrow> app_step S P sha cfg s s'"
  "(s, s') \<in> steps_of (ticker_process S cfg env fuel n m loop_fuel p) \<Longrightarrow> app_step S P sha cfg s s'"
  by (auto simp: steps_of_def worker_process_world ticker_process_world split: if_splits
      intro: app_step.worker [unfolded steps_of_def] app_step.ticker [unfolded steps_of_def])

lemma guarantees_steps:
  assumes "guarantees G m" and "(s, s') \<in> steps_of m"
  shows "G s s'"
proof -
  from assms(2) obtain w ts where ts: "trace (snd (run_state m w)) = trace w @ ts" "(s, s') \<in> set ts"
    by (auto simp: steps_of_def)
  obtain us where "trace (snd (run_state m w)) = trace w @ us" "\<forall>(s, s') \<in> set us. G s s'"
    using guaranteesD [OF assms(1), of w "fst (run_state m w)" "snd (run_state m w)"] by auto
  with ts show ?thesis by auto
qed

lemma app_step_lifecycle:
  assumes "backend S tbl view idle" and "app_step S P sha cfg s s'"
  shows "table_step (tbl (db s)) (tbl (db s'))"
  using assms(2)
proof cases
  case worker
  from guarantees_steps [OF backend.guar_worker [OF assms(1)] this] show ?thesis by (simp add: lifecycle_def)
next
  case ticker
  from guarantees_steps [OF backend.guar_ticker [OF assms(1)] this] show ?thesis by (simp add: lifecycle_def)
next
  case submit
  from guarantees_steps [OF backend.guar_submit [OF assms(1)] this] show ?thesis by (simp add: lifecycle_def)
next
  case show_job
  from guarantees_steps [OF backend.guar_get_route [OF assms(1)] this] show ?thesis by (simp add: lifecycle_def)
next
  case list_page
  from guarantees_steps [OF backend.guar_list_route [OF assms(1)] this] show ?thesis by (simp add: lifecycle_def)
next
  case retry
  from guarantees_steps [OF backend.guar_retry_route [OF assms(1)] this] show ?thesis by (simp add: lifecycle_def)
next
  case cancel
  from guarantees_steps [OF backend.guar_cancel_route [OF assms(1)] this] show ?thesis by (simp add: lifecycle_def)
next
  case startup
  from guarantees_steps [OF backend.guar_lifespan [OF assms(1)] this] show ?thesis by (simp add: lifecycle_def)
qed simp

lemma app_steps_lifecycle:
  assumes "backend S tbl view idle" and "(app_step S P sha cfg)\<^sup>*\<^sup>* s s'"
  shows "table_step\<^sup>*\<^sup>* (tbl (db s)) (tbl (db s'))"
  using assms(2)
  by (induction rule: rtranclp_induct)
    (auto intro: rtranclp.rtrancl_into_rtrancl app_step_lifecycle [OF assms(1)])

lemma app_run_lifecycle:
  assumes "backend S tbl view idle" and "successively (app_step S P sha cfg) ss"
  shows "successively table_step (map (\<lambda>s. tbl (db s)) ss)"
  using assms(2)
  by (induction ss rule: induct_list012) (auto intro: app_step_lifecycle [OF assms(1)])

text \<open>A concrete run: the owner cancels a waiting job of the reference backend.\<close>

definition cancel_trace :: "(job list, ref_redis) step list" where
  "cancel_trace = trace (snd (run_state (cancel_job_route ref_services sample_cfg 7 sample_user)
     (sample_world [sample_job pending])))"

definition cancelled_sample :: job where
  "cancelled_sample = (sample_job pending)\<lparr>status := cancelled, completed_at := Some 1000000000\<rparr>"

lemma cancel_trace_tables:
  "map (\<lambda>(s, s'). (db s, db s')) cancel_trace = [([sample_job pending], [sample_job pending]),
     ([sample_job pending], [cancelled_sample]), ([cancelled_sample], [cancelled_sample]),
     ([cancelled_sample], [cancelled_sample])]"
  by code_simp

definition before_cancel :: "(job list, ref_redis) shared" where "before_cancel = fst (cancel_trace ! 1)"
definition after_cancel :: "(job list, ref_redis) shared" where "after_cancel = snd (cancel_trace ! 1)"
definition before_zrem :: "(job list, ref_redis) shared" where "before_zrem = fst (cancel_trace ! 2)"
definition after_zrem :: "(job list, ref_redis) shared" where "after_zrem = snd (cancel_trace ! 2)"

lemma cancel_db [simp]:
  "db before_cancel = [sample_job pending]" "db after_cancel = [cancelled_sample]"
  "db before_zrem = [cancelled_sample]" "db after_zrem = [cancelled_sample]" "length cancel_trace = 4"
proof -
  show len: "length cancel_trace = 4"
    using arg_cong [OF cancel_trace_tables, of length] by simp
  show "db before_cancel = [sample_job pending]" "db after_cancel = [cancelled_sample]"
    "db before_zrem = [cancelled_sample]" "db after_zrem = [cancelled_sample]"
    using arg_cong [OF cancel_trace_tables, of "\<lambda>xs. xs ! 1"] arg_cong [OF cancel_trace_tables, of "\<lambda>xs. xs ! 2"] len
    by (auto simp: before_cancel_def after_cancel_def before_zrem_def after_zrem_def case_prod_beta)
qed

lemma cancel_steps:
  "app_step ref_services sample_schema (\<lambda>s. s) sample_cfg before_cancel after_cancel"
  "app_step ref_services sample_schema (\<lambda>s. s) sample_cfg before_zrem after_zrem"
proof -
  have "app_step ref_services sample_schema (\<lambda>s. s) sample_cfg (fst st) (snd st)" if "st \<in> set cancel_trace" for st
  proof (rule app_step.cancel)
    show "(fst st, snd st) \<in> steps_of (cancel_job_route ref_services sample_cfg 7 sample_user)"
      using that unfolding steps_of_def cancel_trace_def
      by (auto simp: sample_world_def ref_world_def intro!: exI [of _ "sample_world [sample_job pending]"])
  qed
  then show "app_step ref_services sample_schema (\<lambda>s. s) sample_cfg before_cancel after_cancel"
    "app_step ref_services sample_schema (\<lambda>s. s) sample_cfg before_zrem after_zrem"
    by (simp_all add: before_cancel_def after_cancel_def before_zrem_def after_zrem_def)
qed

lemma sample_rows:
  "ref_tbl [sample_job pending] 7 = Some (sample_job pending)" "ref_tbl [cancelled_sample] 7 = Some cancelled_sample"
  by (simp_all add: ref_tbl_def cancelled_sample_def)

section \<open>Properties\<close>

text \<open>
  C1 (system_refines_lifecycle). Every interleaving of workers, tickers and API requests, with crashes at
  any point, implements the life cycle: rows never disappear, and a row only changes by a sequence of
  the twelve steps of \<open>row_step\<close>, each from the status it demands.
\<close>

theorem system_refines_lifecycle:
  assumes "backend S tbl view idle" and "(app_step S P sha cfg)\<^sup>*\<^sup>* s s'" and "tbl (db s) i = Some j"
  shows "\<exists>j'. tbl (db s') i = Some j' \<and> row_step\<^sup>*\<^sup>* j j' \<and> same_identity j j'"
  using steps_keep_rows [OF app_steps_lifecycle [OF assms(1,2)] assms(3)] row_steps_identity by blast

theorem system_refines_lifecycle_witness:
  "\<exists>j'. ref_tbl [cancelled_sample] 7 = Some j' \<and> row_step\<^sup>*\<^sup>* (sample_job pending) j' \<and> same_identity (sample_job pending) j'"
  using system_refines_lifecycle [OF ref_backend r_into_rtranclp, OF cancel_steps(1), of 7 "sample_job pending"] by simp

text \<open>
  C6 (finished_jobs_are_frozen). Once a job is completed or cancelled, no process ever changes its row
  again, except that a late hand-over may still set its sync mark: no second execution, no overwritten
  result, no resurrection, under every interleaving.
\<close>

theorem finished_jobs_are_frozen:
  assumes "backend S tbl view idle" and "(app_step S P sha cfg)\<^sup>*\<^sup>* s s'" and "tbl (db s) i = Some j"
    and "status j = completed \<or> status j = cancelled"
  shows "\<exists>b. tbl (db s') i = Some (j\<lparr>is_synced_to_redis := b\<rparr>)"
  using steps_keep_rows [OF app_steps_lifecycle [OF assms(1,2)] assms(3)] row_steps_frozen assms(4)
  by (auto simp: frozen_def)

theorem finished_jobs_are_frozen_witness:
  "\<exists>b. ref_tbl (db after_zrem) 7 = Some (cancelled_sample\<lparr>is_synced_to_redis := b\<rparr>)"
  by (rule finished_jobs_are_frozen [OF ref_backend r_into_rtranclp, OF cancel_steps(2)])
    (simp_all add: sample_rows, simp add: cancelled_sample_def)

text \<open>
  C5 (executions_accounted). Along every run of the whole system in which nobody retries the job by hand,
  executions and attempts match: the claims of a job, plus the one running at the start, equal the
  attempts counted since, plus the one running at the end, plus the cancellation of a running one. Every
  claim is thus ended by exactly one transition, and two workers never both win the same execution.
\<close>

theorem executions_accounted:
  assumes "backend S tbl view idle" and "successively (app_step S P sha cfg) (s # ss)"
    and "tbl (db s) i = Some j"
    and "count_moves reset_move i (map (\<lambda>s. tbl (db s)) (s # ss)) = 0"
  shows "\<exists>j'. tbl (db (last (s # ss))) i = Some j' \<and>
     int (count_moves claim_move i (map (\<lambda>s. tbl (db s)) (s # ss))) + of_bool (status j = processing) + attempts j
       = attempts j' + of_bool (status j' = processing)
         + int (count_moves cancel_move i (map (\<lambda>s. tbl (db s)) (s # ss)))"
proof -
  let ?f = "\<lambda>s. tbl (db s)"
  have last: "?f (last (s # ss)) = last (map ?f (s # ss))" by (simp add: last_map)
  show ?thesis
    using accounting [of "?f s" "map ?f ss" i j] app_run_lifecycle [OF assms(1,2)] assms(3,4)
    unfolding last by simp
qed

theorem executions_accounted_witness:
  "\<exists>j'. ref_tbl (db after_cancel) 7 = Some j' \<and>
     int (count_moves claim_move 7 [ref_tbl (db before_cancel), ref_tbl (db after_cancel)])
       = attempts j' + of_bool (status j' = processing)
         + int (count_moves cancel_move 7 [ref_tbl (db before_cancel), ref_tbl (db after_cancel)])"
  using executions_accounted [OF ref_backend, of sample_schema "\<lambda>s. s" sample_cfg before_cancel
      "[after_cancel]" 7 "sample_job pending"] cancel_steps(1)
  by (simp add: reset_move_def del: cancel_db(2))

text \<open>
  C7 (rows_well_formed). Whatever the processes do, a table of well-formed rows stays one: every job has an
  owner; a waiting job has no start time, a scheduled one has its time; a processing, completed or failed
  one has a start time; exactly the finished ones have an end time; a completed one has a result, and
  nothing but a completed or cancelled one has; exactly the failed ones have an error; and a completed or
  failed one has counted an attempt. In particular no job is scheduled without a time.
\<close>

theorem rows_well_formed:
  assumes "backend S tbl view idle" and "(app_step S P sha cfg)\<^sup>*\<^sup>* s s'" and "well_formed_table (tbl (db s))"
  shows "well_formed_table (tbl (db s')) \<and> (\<forall>j \<in> ran (tbl (db s')). \<not> stuck j)"
proof -
  have "well_formed_table (tbl (db s'))"
    by (rule well_formed_table_steps [OF app_steps_lifecycle [OF assms(1,2)] assms(3)])
  then show ?thesis by (auto simp: well_formed_table_def well_formed_def stuck_def)
qed

lemma sample_well_formed: "well_formed (sample_job pending)"
  by (simp add: well_formed_def sample_job_def new_job_def)

theorem rows_well_formed_witness:
  "well_formed_table (ref_tbl (db after_cancel))"
proof -
  have "well_formed_table (ref_tbl (db before_cancel))"
    by (simp add: well_formed_table_def ref_tbl_ran sample_well_formed)
  then show ?thesis using rows_well_formed [OF ref_backend r_into_rtranclp, OF cancel_steps(1)] by blast
qed

text \<open>
  C12 (orphans_recovered). In every state the system can reach from a well-formed table, a reconciliation pass
  that is left alone ends, after at most one round per overdue unsynced job and one more, and hands over
  every one of them: the count is their number, each is marked and no other row changes, and each has its
  entry in the delayed set or its message in every group of its stream.
\<close>

theorem orphans_recovered:
  assumes "backend S tbl view idle" and "(app_step S P sha cfg)\<^sup>*\<^sup>* s (shared w)" and "well_formed_table (tbl (db s))"
    and "quiet w" and "0 < reconcile_batch_size cfg" and "t = tbl (db (shared w))"
    and "c = clock (shared w) - reconcile_grace_us cfg" and "card (matching (orphan c) t) < fuel"
  shows "case run_state (reconcile_orphans fuel S cfg) w of (r, w') \<Rightarrow>
     r = Some (card (matching (orphan c) t))
     \<and> tbl (db (shared w')) = update_where (orphan c) synced t
     \<and> (\<forall>j \<in> matching (orphan c) t. handed_off cfg (view (rds (shared w'))) j)"
proof -
  have "\<not> stuck j" if "j \<in> ran t" for j
    using well_formed_table_steps [OF app_steps_lifecycle [OF assms(1,2)] assms(3)] that
    by (auto simp: assms(6) well_formed_table_def well_formed_def stuck_def)
  then have free: "{j \<in> matching (orphan c) t. stuck j} = {}" "movable c t = matching (orphan c) t"
    and upd: "update_where (\<lambda>j. orphan c j \<and> \<not> stuck j) synced t = update_where (orphan c) synced t"
    by (auto simp: movable_def matching_def ran_def intro!: update_where_cong)
  show ?thesis
    using backend.wp_reconcile_orphans [OF assms(1,4), of cfg fuel, folded assms(6,7)] assms(5,8)
    unfolding free upd wp_def Let_def by auto
qed

text \<open>An unsynced job of the reference backend, waiting for a thousand seconds.\<close>

theorem orphans_recovered_witness:
  "case run_state (reconcile_orphans 2 ref_services sample_cfg) (sample_world [sample_job pending]) of (r, w') \<Rightarrow>
     r = Some 1 \<and> handed_off sample_cfg (ref_view (rds (shared w'))) (sample_job pending)"
proof -
  let ?w = "sample_world [sample_job pending]" and ?t = "ref_tbl [sample_job pending]" and ?c = "990000000 :: int"
  have m: "matching (orphan ?c) ?t = {sample_job pending}"
    by (auto simp: ref_matching orphan_def)
  have "well_formed_table (ref_tbl (db (shared ?w)))"
    by (simp add: well_formed_table_def ref_tbl_ran sample_well_formed)
  from orphans_recovered [OF ref_backend rtranclp.rtrancl_refl this, of sample_cfg ?t ?c 2, unfolded m]
  show ?thesis by (auto split: prod.splits)
qed

end
